(* ===== verification/Datyre_Prelude.thy ===== *)
theory Datyre_Prelude
  imports Main "HOL-Library.Word" "HOL-Library.AList"
begin

text \<open>
  Shared vocabulary of the development: the machine integer types of the sources, byte strings
  and the two accesses the code makes to them (\<open>memcpy\<close> into and out of a buffer or a file at an
  offset), the little-endian layout of integers in memory, the interface of fixed-width codecs
  with its interpretations at the four widths the code uses, and the interface of transition
  systems through which every component lifts its one-step invariant lemmas to whole runs.
\<close>

unbundle bit_operations_syntax

section \<open>Machine integers and byte strings\<close>

type_synonym u8 = "8 word"
type_synonym u16 = "16 word"
type_synonym u32 = "32 word"
type_synonym u64 = "64 word"
type_synonym bytes = "u8 list"

named_theorems bytes_simps \<open>reads and writes of byte strings\<close>
named_theorems model_defs \<open>accessor-level definitions unfolded by default in component proofs\<close>

text \<open>
  \<open>write_at off bs xs\<close> overwrites \<open>xs\<close> from offset \<open>off\<close>; a write that starts beyond the end fills
  the gap with zero bytes, as a write after a seek beyond the end of a file does.
\<close>

definition write_at :: "nat \<Rightarrow> bytes \<Rightarrow> bytes \<Rightarrow> bytes" where
  "write_at off bs xs =
     take off xs @ replicate (off - length xs) 0 @ bs @ drop (off + length bs) xs"

definition read_at :: "nat \<Rightarrow> nat \<Rightarrow> bytes \<Rightarrow> bytes" where
  "read_at off n xs = take n (drop off xs)"

text \<open>The bytes of an integer in memory, least significant first.\<close>

fun nat_bytes :: "nat \<Rightarrow> nat \<Rightarrow> bytes" where
  "nat_bytes 0 n = []"
| "nat_bytes (Suc k) n = of_nat (n mod 256) # nat_bytes k (n div 256)"

fun le_nat :: "bytes \<Rightarrow> nat" where
  "le_nat [] = 0"
| "le_nat (b # bs) = unat b + 256 * le_nat bs"

definition le_bytes :: "nat \<Rightarrow> 'a::len word \<Rightarrow> bytes" where
  "le_bytes k w = nat_bytes k (unat w)"

definition le_word :: "bytes \<Rightarrow> 'a::len word" where
  "le_word bs = of_nat (le_nat bs)"

section \<open>Lemmas on reads and writes\<close>

lemma length_write_at [simp, bytes_simps]:
  "length (write_at off bs xs) = max (length xs) (off + length bs)"
  by (simp add: write_at_def)

lemma length_read_at [simp, bytes_simps]:
  "length (read_at off n xs) = min n (length xs - off)"
  by (simp add: read_at_def)

lemma nth_write_at:
  assumes "i < length (write_at off bs xs)"
  shows "write_at off bs xs ! i =
    (if i < off then (if i < length xs then xs ! i else 0)
     else if i < off + length bs then bs ! (i - off) else xs ! i)"
  using assms by (auto simp: write_at_def nth_append min_def not_less)

lemma nth_read_at: "i < n \<Longrightarrow> off + i < length xs \<Longrightarrow> read_at off n xs ! i = xs ! (off + i)"
  by (simp add: read_at_def)

lemma read_write_same [simp, bytes_simps]: "read_at off (length bs) (write_at off bs xs) = bs"
  by (simp add: read_at_def write_at_def)

lemma read_write_before:
  assumes "a + n \<le> off" and "a + n \<le> length xs"
  shows "read_at a n (write_at off bs xs) = read_at a n xs"
  using assms by (auto intro!: nth_equalityI simp: nth_read_at nth_write_at)

lemma read_write_after:
  assumes "off + length bs \<le> a"
  shows "read_at a n (write_at off bs xs) = read_at a n xs"
proof (cases "a \<le> length xs")
  case True
  with assms show ?thesis
    by (auto intro!: nth_equalityI simp: nth_read_at nth_write_at)
next
  case False
  with assms show ?thesis by (simp add: read_at_def)
qed

lemma write_at_id:
  assumes "off + n \<le> length xs"
  shows "write_at off (read_at off n xs) xs = xs"
  using assms by (auto intro!: nth_equalityI simp: nth_write_at nth_read_at)

lemma write_write_same [simp, bytes_simps]:
  assumes "length bs = length cs"
  shows "write_at off cs (write_at off bs xs) = write_at off cs xs"
  using assms by (auto intro!: nth_equalityI simp: nth_write_at)

lemma write_at_commute:
  assumes "a + length as \<le> b" and "b + length bs \<le> length xs"
  shows "write_at a as (write_at b bs xs) = write_at b bs (write_at a as xs)"
  using assms by (auto intro!: nth_equalityI simp: nth_write_at)

lemma read_at_all [simp]: "n = length xs \<Longrightarrow> read_at 0 n xs = xs"
  by (simp add: read_at_def)

section \<open>Association lists\<close>

lemma update_new_key: "k \<notin> fst ` set al \<Longrightarrow> AList.update k v al = al @ [(k, v)]"
  by (induction al) auto

lemma set_delete_alist: "set (AList.delete k al) = {e \<in> set al. fst e \<noteq> k}"
  by (auto simp: AList.delete_eq)

section \<open>Little-endian integers\<close>

lemma length_nat_bytes [simp]: "length (nat_bytes k n) = k"
  by (induction k n rule: nat_bytes.induct) auto

lemma le_nat_nat_bytes: "le_nat (nat_bytes k n) = n mod 256 ^ k"
proof (induction k n rule: nat_bytes.induct)
  case (2 k n)
  have "unat (of_nat (n mod 256) :: u8) = n mod 256"
    by (simp add: unat_of_nat)
  with 2 show ?case by (simp add: mod_mult2_eq)
qed simp

lemma le_nat_bound: "le_nat bs < 256 ^ length bs"
proof (induction bs)
  case (Cons b bs)
  have "unat b < 256" using unsigned_less [of b, where ?'a=nat] by simp
  moreover have "le_nat bs + 1 \<le> 256 ^ length bs" using Cons by simp
  then have "256 * (le_nat bs + 1) \<le> 256 * 256 ^ length bs"
    by (rule mult_le_mono2)
  ultimately show ?case by simp
qed simp

lemma nat_bytes_le_nat [simp]: "nat_bytes (length bs) (le_nat bs) = bs"
proof (induction bs)
  case (Cons b bs)
  have "unat b < 256" using unsigned_less [of b, where ?'a=nat] by simp
  with Cons show ?case by simp
qed simp

lemma length_le_bytes [simp, bytes_simps]: "length (le_bytes k w) = k"
  by (simp add: le_bytes_def)

lemma le_word_le_bytes:
  fixes w :: "'a::len word"
  assumes "LENGTH('a) = 8 * k"
  shows "le_word (le_bytes k w) = w"
proof -
  have "(256::nat) ^ k = 2 ^ LENGTH('a)"
    by (simp add: assms power_mult)
  then have "unat w mod 256 ^ k = unat w"
    using unsigned_less [of w, where ?'a=nat] by simp
  then show ?thesis
    by (simp add: le_word_def le_bytes_def le_nat_nat_bytes)
qed

lemma le_bytes_le_word:
  assumes "LENGTH('a::len) = 8 * k" and "length bs = k"
  shows "le_bytes k (le_word bs :: 'a word) = bs"
proof -
  have "(256::nat) ^ k = 2 ^ LENGTH('a)"
    by (simp add: assms(1) power_mult)
  then have "unat (of_nat (le_nat bs) :: 'a word) = le_nat bs"
    using le_nat_bound [of bs] assms(2) by (simp add: unat_of_nat)
  then show ?thesis
    using assms(2) by (auto simp: le_word_def le_bytes_def)
qed

section \<open>Fixed-width codecs\<close>

text \<open>
  The contract under which a value is stored in a buffer by \<open>memcpy\<close>: a fixed width, and reading
  back what was stored. The client lemmas say that a stored field is read back at its offset, that
  it leaves every disjoint range alone, and how a decoder peels it off a byte string.
\<close>

locale fixed_codec =
  fixes enc :: "'a \<Rightarrow> bytes"
    and dec :: "bytes \<Rightarrow> 'a"
    and width :: nat
  assumes enc_length: "length (enc x) = width"
    and dec_enc: "dec (enc x) = x"
begin

lemma field_get_set: "dec (read_at off width (write_at off (enc x) xs)) = x"
  using read_write_same [of off "enc x" xs] by (simp add: enc_length dec_enc)

lemma take_enc: "take width (enc x @ rest) = enc x"
  by (simp add: enc_length)

lemma drop_enc: "drop width (enc x @ rest) = rest"
  by (simp add: enc_length)

lemma dec_take: "dec (take width (enc x @ rest)) = x"
  by (metis take_enc dec_enc)

lemma enc_inj: "enc x = enc y \<Longrightarrow> x = y"
  using dec_enc by metis

end

text \<open>A codec whose decoder is total on strings of its width: writing back what is there is no change.\<close>

locale bij_codec = fixed_codec +
  assumes enc_dec: "length bs = width \<Longrightarrow> enc (dec bs) = bs"
begin

lemma field_set_get:
  assumes "off + width \<le> length xs" and "dec (read_at off width xs) = x"
  shows "write_at off (enc x) xs = xs"
proof -
  have "enc x = read_at off width xs"
    using assms enc_dec [of "read_at off width xs"] by auto
  with assms(1) show ?thesis by (simp add: write_at_id)
qed

end

interpretation u8c: bij_codec "le_bytes 1 :: u8 \<Rightarrow> bytes" le_word 1
  by unfold_locales (simp_all add: le_word_le_bytes le_bytes_le_word)

interpretation u16c: bij_codec "le_bytes 2 :: u16 \<Rightarrow> bytes" le_word 2
  by unfold_locales (simp_all add: le_word_le_bytes le_bytes_le_word)

interpretation u32c: bij_codec "le_bytes 4 :: u32 \<Rightarrow> bytes" le_word 4
  by unfold_locales (simp_all add: le_word_le_bytes le_bytes_le_word)

interpretation u64c: bij_codec "le_bytes 8 :: u64 \<Rightarrow> bytes" le_word 8
  by unfold_locales (simp_all add: le_word_le_bytes le_bytes_le_word)

section \<open>Transition systems\<close>

text \<open>The states reachable from an initial one by a step relation.\<close>

inductive reach :: "('s \<Rightarrow> 's \<Rightarrow> bool) \<Rightarrow> 's \<Rightarrow> 's \<Rightarrow> bool" for step where
  reach_refl: "reach step s s"
| reach_step: "reach step s t \<Longrightarrow> step t u \<Longrightarrow> reach step s u"

lemma reach_trans: "reach step t u \<Longrightarrow> reach step s t \<Longrightarrow> reach step s u"
  by (induction rule: reach.induct) (auto intro: reach.intros)

locale transition_invariant =
  fixes step :: "'s \<Rightarrow> 's \<Rightarrow> bool"
    and inv :: "'s \<Rightarrow> bool"
  assumes step_inv: "step s t \<Longrightarrow> inv s \<Longrightarrow> inv t"
begin

lemma reach_inv: "reach step s t \<Longrightarrow> inv s \<Longrightarrow> inv t"
  by (induction rule: reach.induct) (auto intro: step_inv)

end

end
