(* ===== verification/Float32.thy ===== *)
theory Float32
  imports Complex_Main "HOL-Library.Log_Nat"
begin

text \<open>
  The single-precision arithmetic of the sources: \<open>static_cast<float>\<close> of an unsigned count, the
  quotient of two such values and the comparison of the quotient with a limit. All values are
  non-negative and far inside the exponent range, so a finite \<open>float\<close> is the rational number it
  denotes; rounding is to nearest, ties to even, with a 24 bit significand.
\<close>

section \<open>Rounding to a 24 bit significand\<close>

definition half_even :: "rat \<Rightarrow> int" where
  "half_even y =
     (let f = \<lfloor>y\<rfloor>; d = y - of_int f
      in if d < 1 / 2 then f else if 1 / 2 < d then f + 1 else if even f then f else f + 1)"

text \<open>The exponent \<open>e\<close> with \<open>2 ^ e \<le> x < 2 ^ (e + 1)\<close>, from the bit lengths of numerator and denominator.\<close>

definition f32_exponent :: "rat \<Rightarrow> int" where
  "f32_exponent x =
     (let (p, q) = quotient_of x; e = bitlen p - bitlen q
      in if 2 powi e \<le> x then e else e - 1)"

definition f32_round :: "rat \<Rightarrow> rat" where
  "f32_round x =
     (if x \<le> 0 then 0
      else let u = 2 powi (f32_exponent x - 23) in of_int (half_even (x / u)) * u)"

section \<open>Values, quotient and comparison\<close>

datatype f32 = Fin rat | Inf | NaN

definition f32_of_nat :: "nat \<Rightarrow> rat" where
  "f32_of_nat n = f32_round (of_nat n)"

text \<open>Division of two finite non-negative values.\<close>

definition f32_div :: "rat \<Rightarrow> rat \<Rightarrow> f32" where
  "f32_div a b = (if b = 0 then (if a = 0 then NaN else Inf) else Fin (f32_round (a / b)))"

text \<open>\<open>x >= y\<close> for a finite right operand; every comparison with a NaN is false.\<close>

fun f32_ge :: "f32 \<Rightarrow> rat \<Rightarrow> bool" where
  "f32_ge (Fin x) y = (y \<le> x)"
| "f32_ge Inf y = True"
| "f32_ge NaN y = False"

section \<open>Properties\<close>

lemma half_even_bounds: "of_int (half_even y) - 1 / 2 \<le> y" "y \<le> of_int (half_even y) + 1 / 2"
proof -
  have f: "of_int \<lfloor>y\<rfloor> \<le> y" "y < of_int \<lfloor>y\<rfloor> + 1" by linarith+
  show "of_int (half_even y) - 1 / 2 \<le> y" "y \<le> of_int (half_even y) + 1 / 2"
    unfolding half_even_def Let_def
    by (cases "y - of_int \<lfloor>y\<rfloor>" "1 / 2 :: rat" rule: linorder_cases; use f in \<open>auto; linarith\<close>)+
qed

lemma half_even_of_int [simp]: "half_even (of_int n) = n"
  by (simp add: half_even_def)

lemma half_even_mono:
  assumes "x \<le> y"
  shows "half_even x \<le> half_even y"
proof (rule ccontr)
  assume less: "\<not> half_even x \<le> half_even y"
  let ?f = "of_int :: int \<Rightarrow> rat"
  have "?f (half_even y) + 1 \<le> ?f (half_even x)" using less by linarith
  with half_even_bounds [of x] half_even_bounds [of y] assms
  have eq: "x = y" by linarith
  with less show False by simp
qed

lemma half_even_nonneg: "0 \<le> y \<Longrightarrow> 0 \<le> half_even y"
  using half_even_mono [of 0 y] half_even_of_int [of 0] by simp

lemma bitlen_rat_bounds:
  assumes "0 < p"
  shows "(2::rat) powi (bitlen p - 1) \<le> of_int p" and "of_int p < (2::rat) powi bitlen p"
proof -
  have b: "2 ^ nat (bitlen p - 1) \<le> p" "p < 2 ^ nat (bitlen p)" and pos: "0 < bitlen p"
    using assms bitlen_bounds [of p] bitlen_eq_zero_iff [of p] bitlen_nonneg [of p] by auto
  have "(2::rat) powi (bitlen p - 1) = of_int (2 ^ nat (bitlen p - 1))"
    using pos by (simp add: power_int_def)
  then show "(2::rat) powi (bitlen p - 1) \<le> of_int p"
    using b(1) by (metis of_int_le_iff)
  have "(2::rat) powi bitlen p = of_int (2 ^ nat (bitlen p))"
    using pos by (simp add: power_int_def)
  then show "of_int p < (2::rat) powi bitlen p"
    using b(2) by (metis of_int_less_iff)
qed

text \<open>The exponent is the right one, so the significand has at most 24 bits.\<close>

lemma f32_exponent_bounds:
  assumes "0 < x"
  shows "2 powi f32_exponent x \<le> x" and "x < 2 powi (f32_exponent x + 1)"
proof -
  obtain p q where pq: "quotient_of x = (p, q)" by (cases "quotient_of x") auto
  have q: "0 < q" using pq by (rule quotient_of_denom_pos)
  have x: "x = of_int p / of_int q" using pq by (rule quotient_of_div)
  have p: "0 < p" using assms q by (simp add: x zero_less_divide_iff)
  let ?e = "bitlen p - bitlen q"
  have "x * of_int q = of_int p" using q by (simp add: x)
  note P = bitlen_rat_bounds [OF p] and Q = bitlen_rat_bounds [OF q]
  have split: "(2::rat) powi (bitlen p - 1) = 2 powi (?e - 1) * 2 powi bitlen q"
    "(2::rat) powi bitlen p = 2 powi (?e + 1) * 2 powi (bitlen q - 1)"
    by (simp_all flip: power_int_add)
  have "2 powi (?e - 1) * of_int q \<le> 2 powi (?e - 1) * (2::rat) powi bitlen q"
    using Q(2) by (intro mult_left_mono) simp_all
  also have "\<dots> \<le> x * of_int q" using P(1) split(1) \<open>x * of_int q = of_int p\<close> by simp
  finally have lower: "2 powi (?e - 1) \<le> x" using q by simp
  have "x * of_int q < 2 powi (?e + 1) * (2::rat) powi (bitlen q - 1)"
    using P(2) split(2) \<open>x * of_int q = of_int p\<close> by simp
  also have "\<dots> \<le> 2 powi (?e + 1) * of_int q"
    using Q(1) by (intro mult_left_mono) simp_all
  finally have upper: "x < 2 powi (?e + 1)" using q by simp
  show "2 powi f32_exponent x \<le> x" and "x < 2 powi (f32_exponent x + 1)"
    using lower upper by (auto simp: f32_exponent_def pq Let_def)
qed

lemma f32_exponent_unique:
  assumes "0 < x" and "2 powi e \<le> x" and "x < 2 powi (e + 1)"
  shows "f32_exponent x = e"
proof (rule ccontr)
  note b = f32_exponent_bounds [OF assms(1)]
  assume "f32_exponent x \<noteq> e"
  then consider "f32_exponent x + 1 \<le> e" | "e + 1 \<le> f32_exponent x" by linarith
  then show False
  proof cases
    case 1
    then have "(2::rat) powi (f32_exponent x + 1) \<le> 2 powi e" by (rule power_int_increasing) simp
    with assms(2) b(2) show False by linarith
  next
    case 2
    then have "(2::rat) powi (e + 1) \<le> 2 powi f32_exponent x" by (rule power_int_increasing) simp
    with assms(3) b(1) show False by linarith
  qed
qed

lemma f32_exponent_mono:
  assumes "0 < x" and "x \<le> y"
  shows "f32_exponent x \<le> f32_exponent y"
proof (rule ccontr)
  assume "\<not> ?thesis"
  then have "f32_exponent y + 1 \<le> f32_exponent x" by linarith
  then have "(2::rat) powi (f32_exponent y + 1) \<le> 2 powi f32_exponent x"
    by (rule power_int_increasing) simp
  with f32_exponent_bounds [of x] f32_exponent_bounds [of y] assms show False by linarith
qed

text \<open>Between two powers of two the rounded value stays between them.\<close>

lemma f32_round_window:
  assumes "0 < x"
  shows "2 powi f32_exponent x \<le> f32_round x" and "f32_round x \<le> 2 powi (f32_exponent x + 1)"
proof -
  let ?e = "f32_exponent x" and ?u = "2 powi (f32_exponent x - 23) :: rat"
  note b = f32_exponent_bounds [OF assms]
  have u: "0 < ?u" by simp
  have lo: "(2::rat) powi ?e = of_int (2 ^ 23) * ?u" and hi: "(2::rat) powi (?e + 1) = of_int (2 ^ 24) * ?u"
    by (simp_all add: power_int_diff power_int_add)
  have "of_int (2 ^ 23) \<le> x / ?u" using b(1) u lo by (simp add: pos_le_divide_eq)
  then have 1: "2 ^ 23 \<le> half_even (x / ?u)" using half_even_mono half_even_of_int by metis
  have "x / ?u \<le> of_int (2 ^ 24)" using b(2) u hi by (simp add: pos_divide_le_eq)
  then have 2: "half_even (x / ?u) \<le> 2 ^ 24" using half_even_mono half_even_of_int by metis
  have r: "f32_round x = of_int (half_even (x / ?u)) * ?u" using assms by (simp add: f32_round_def Let_def)
  show "2 powi ?e \<le> f32_round x" unfolding lo r
    by (rule mult_right_mono) (use 1 u in \<open>simp_all only: of_int_le_iff less_imp_le\<close>)
  show "f32_round x \<le> 2 powi (?e + 1)" unfolding hi r
    by (rule mult_right_mono) (use 2 u in \<open>simp_all only: of_int_le_iff less_imp_le\<close>)
qed

lemma f32_round_nonneg: "0 \<le> f32_round x"
  by (auto simp: f32_round_def Let_def half_even_nonneg)

lemma f32_round_mono:
  assumes "x \<le> y"
  shows "f32_round x \<le> f32_round y"
proof (cases "0 < x")
  case False
  then show ?thesis using f32_round_nonneg [of y] by (simp add: f32_round_def)
next
  case True
  with assms have y: "0 < y" by linarith
  let ?u = "\<lambda>z. 2 powi (f32_exponent z - 23) :: rat"
  show ?thesis
  proof (cases "f32_exponent x = f32_exponent y")
    case same: True
    have "x / ?u y \<le> y / ?u y" using assms by (intro divide_right_mono) simp_all
    then have "half_even (x / ?u y) \<le> half_even (y / ?u y)" by (rule half_even_mono)
    then show ?thesis using True y same by (simp add: f32_round_def Let_def)
  next
    case False
    with f32_exponent_mono [OF True assms] have "f32_exponent x + 1 \<le> f32_exponent y" by linarith
    then have "(2::rat) powi (f32_exponent x + 1) \<le> 2 powi f32_exponent y"
      by (rule power_int_increasing) simp
    with f32_round_window [OF True] f32_round_window [OF y] show ?thesis by linarith
  qed
qed

lemma f32_round_0 [simp]: "f32_round 0 = 0"
  by (simp add: f32_round_def)

lemma f32_round_1 [simp]: "f32_round 1 = 1"
  by code_simp

lemma f32_of_nat_pos: "0 < n \<Longrightarrow> 0 < f32_of_nat n"
  using f32_round_mono [of 1 "of_nat n"] by (simp add: f32_of_nat_def)

lemma f32_of_nat_0 [simp]: "f32_of_nat 0 = 0"
  by (simp add: f32_of_nat_def)

lemma f32_of_nat_nonneg: "0 \<le> f32_of_nat n"
  by (simp add: f32_of_nat_def f32_round_nonneg)

lemma f32_of_nat_mono: "m \<le> n \<Longrightarrow> f32_of_nat m \<le> f32_of_nat n"
  by (simp add: f32_of_nat_def f32_round_mono)

text \<open>The quotient is monotone in the dividend, and exactly one where the operands agree.\<close>

lemma f32_ge_div_mono:
  assumes "a \<le> b" and "0 \<le> a" and "0 \<le> c" and "f32_ge (f32_div a c) l"
  shows "f32_ge (f32_div b c) l"
proof (cases "c = 0")
  case True
  with assms show ?thesis by (auto simp: f32_div_def split: if_splits)
next
  case False
  have "a / c \<le> b / c" using assms(1,3) by (rule divide_right_mono)
  then have "f32_round (a / c) \<le> f32_round (b / c)" by (rule f32_round_mono)
  with assms(4) False show ?thesis by (simp add: f32_div_def)
qed

lemma f32_div_self: "a \<noteq> 0 \<Longrightarrow> f32_div a a = Fin 1"
  by (simp add: f32_div_def)

end
