(* ===== verification/Storage_Types.thy ===== *)
theory Storage_Types
  imports Datyre_Prelude Float32
begin

text \<open>
  \<open>src/storage/storage_types.hpp\<close>: identifiers and their widths, the packed page header, page flags,
  the kinds of log records, checkpoint triggers, the checkpoint metrics shared by the storage
  subsystems and the configuration structures. Clock readings are nanosecond counts, durations are
  counts of their unit; both are signed in \<open>std::chrono\<close> and integers here.
\<close>

section \<open>Basic types\<close>

type_synonym PageId = u32
type_synonym Lsn = u64
type_synonym TxnId = u64

definition PAGE_SIZE :: nat where
  "PAGE_SIZE = 4096"

definition INVALID_PAGE_ID :: PageId where
  "INVALID_PAGE_ID = - 1"

definition INVALID_LSN :: Lsn where
  "INVALID_LSN = 0"

section \<open>Page header\<close>

record PageHeader =
  ph_page_id :: PageId
  ph_page_lsn :: Lsn
  ph_free_space :: u16
  ph_flags :: u16
  ph_checksum :: u32
  ph_reserved :: u32

definition PageHeader_SIZE :: nat where
  "PageHeader_SIZE = 24"

text \<open>The offsets of the packed members.\<close>

definition off_page_id :: nat where "off_page_id = 0"
definition off_page_lsn :: nat where "off_page_lsn = 4"
definition off_free_space :: nat where "off_free_space = 12"
definition off_flags :: nat where "off_flags = 14"
definition off_checksum :: nat where "off_checksum = 16"
definition off_reserved :: nat where "off_reserved = 20"

lemmas layout_defs = PAGE_SIZE_def PageHeader_SIZE_def off_page_id_def off_page_lsn_def
  off_free_space_def off_flags_def off_checksum_def off_reserved_def

text \<open>The header as the bytes of a \<open>#pragma pack(1)\<close> structure, and the view of bytes as a header.\<close>

definition header_bytes :: "PageHeader \<Rightarrow> bytes" where
  "header_bytes h =
     le_bytes 4 (ph_page_id h) @ le_bytes 8 (ph_page_lsn h) @ le_bytes 2 (ph_free_space h) @
     le_bytes 2 (ph_flags h) @ le_bytes 4 (ph_checksum h) @ le_bytes 4 (ph_reserved h)"

definition header_view :: "bytes \<Rightarrow> PageHeader" where
  "header_view d =
     \<lparr>ph_page_id = le_word (read_at off_page_id 4 d),
      ph_page_lsn = le_word (read_at off_page_lsn 8 d),
      ph_free_space = le_word (read_at off_free_space 2 d),
      ph_flags = le_word (read_at off_flags 2 d),
      ph_checksum = le_word (read_at off_checksum 4 d),
      ph_reserved = le_word (read_at off_reserved 4 d)\<rparr>"

section \<open>Page flags\<close>

type_synonym PageFlags = u16

definition PF_NONE :: PageFlags where "PF_NONE = 0"
definition PF_DIRTY :: PageFlags where "PF_DIRTY = push_bit 0 1"
definition PF_PINNED :: PageFlags where "PF_PINNED = push_bit 1 1"
definition PF_LEAF :: PageFlags where "PF_LEAF = push_bit 2 1"
definition PF_INTERNAL :: PageFlags where "PF_INTERNAL = push_bit 3 1"
definition PF_OVERFLOW :: PageFlags where "PF_OVERFLOW = push_bit 4 1"

definition flags_or :: "PageFlags \<Rightarrow> PageFlags \<Rightarrow> PageFlags" where
  "flags_or a b = a OR b"

definition flags_and :: "PageFlags \<Rightarrow> PageFlags \<Rightarrow> PageFlags" where
  "flags_and a b = a AND b"

definition has_flag :: "PageFlags \<Rightarrow> PageFlags \<Rightarrow> bool" where
  "has_flag flags flag \<longleftrightarrow> flags AND flag \<noteq> 0"

section \<open>Log record types\<close>

text \<open>
  The enumeration has a fixed underlying type, so a value read from a log may be one that no
  enumerator names: \<open>LR_UNNAMED\<close>.
\<close>

datatype LogRecordType =
    LR_INVALID | LR_INSERT | LR_UPDATE | LR_DELETE
  | LR_TXN_BEGIN | LR_TXN_COMMIT | LR_TXN_ABORT
  | LR_CHECKPOINT_BEGIN | LR_CHECKPOINT_END | LR_CLR
  | LR_UNNAMED u8

fun log_record_type_byte :: "LogRecordType \<Rightarrow> u8" where
  "log_record_type_byte LR_INVALID = 0"
| "log_record_type_byte LR_INSERT = 1"
| "log_record_type_byte LR_UPDATE = 2"
| "log_record_type_byte LR_DELETE = 3"
| "log_record_type_byte LR_TXN_BEGIN = 4"
| "log_record_type_byte LR_TXN_COMMIT = 5"
| "log_record_type_byte LR_TXN_ABORT = 6"
| "log_record_type_byte LR_CHECKPOINT_BEGIN = 7"
| "log_record_type_byte LR_CHECKPOINT_END = 8"
| "log_record_type_byte LR_CLR = 9"
| "log_record_type_byte (LR_UNNAMED b) = b"

definition log_record_type_of_byte :: "u8 \<Rightarrow> LogRecordType" where
  "log_record_type_of_byte b =
     (if b = 0 then LR_INVALID else if b = 1 then LR_INSERT else if b = 2 then LR_UPDATE
      else if b = 3 then LR_DELETE else if b = 4 then LR_TXN_BEGIN else if b = 5 then LR_TXN_COMMIT
      else if b = 6 then LR_TXN_ABORT else if b = 7 then LR_CHECKPOINT_BEGIN
      else if b = 8 then LR_CHECKPOINT_END else if b = 9 then LR_CLR else LR_UNNAMED b)"

text \<open>Values in which \<open>LR_UNNAMED\<close> really stands for a value without an enumerator.\<close>

fun wf_log_record_type :: "LogRecordType \<Rightarrow> bool" where
  "wf_log_record_type (LR_UNNAMED b) = (9 < b)"
| "wf_log_record_type _ = True"

fun log_record_type_name :: "LogRecordType \<Rightarrow> string" where
  "log_record_type_name LR_INVALID = ''INVALID''"
| "log_record_type_name LR_INSERT = ''INSERT''"
| "log_record_type_name LR_UPDATE = ''UPDATE''"
| "log_record_type_name LR_DELETE = ''DELETE''"
| "log_record_type_name LR_TXN_BEGIN = ''TXN_BEGIN''"
| "log_record_type_name LR_TXN_COMMIT = ''TXN_COMMIT''"
| "log_record_type_name LR_TXN_ABORT = ''TXN_ABORT''"
| "log_record_type_name LR_CHECKPOINT_BEGIN = ''CHECKPOINT_BEGIN''"
| "log_record_type_name LR_CHECKPOINT_END = ''CHECKPOINT_END''"
| "log_record_type_name LR_CLR = ''CLR''"
| "log_record_type_name (LR_UNNAMED _) = ''UNKNOWN''"

section \<open>Checkpoint triggers, metrics and configuration\<close>

datatype CheckpointTrigger = Timer | WalSize | DirtySoftLimit | DirtyHardLimit | Manual | Shutdown

fun checkpoint_trigger_name :: "CheckpointTrigger \<Rightarrow> string" where
  "checkpoint_trigger_name Timer = ''timer''"
| "checkpoint_trigger_name WalSize = ''wal_size''"
| "checkpoint_trigger_name DirtySoftLimit = ''soft_limit''"
| "checkpoint_trigger_name DirtyHardLimit = ''HARD_LIMIT''"
| "checkpoint_trigger_name Manual = ''manual''"
| "checkpoint_trigger_name Shutdown = ''shutdown''"

record CheckpointMetrics =
  checkpoint_count :: u64
  total_checkpoint_time_ms :: u64
  forced_checkpoint_count :: u64
  blocking_checkpoint_count :: u64
  pages_written_total :: u64
  current_wal_size :: u64
  dirty_page_count_m :: u64
  last_checkpoint_time_m :: int

definition initial_metrics :: "int \<Rightarrow> CheckpointMetrics" where
  "initial_metrics now =
     \<lparr>checkpoint_count = 0, total_checkpoint_time_ms = 0, forced_checkpoint_count = 0,
      blocking_checkpoint_count = 0, pages_written_total = 0, current_wal_size = 0,
      dirty_page_count_m = 0, last_checkpoint_time_m = now\<rparr>"

definition record_checkpoint :: "int \<Rightarrow> nat \<Rightarrow> bool \<Rightarrow> int \<Rightarrow> CheckpointMetrics \<Rightarrow> CheckpointMetrics" where
  "record_checkpoint duration_ms pages was_forced now m =
     m\<lparr>checkpoint_count := checkpoint_count m + 1,
       total_checkpoint_time_ms := total_checkpoint_time_ms m + word_of_int duration_ms,
       pages_written_total := pages_written_total m + of_nat pages,
       forced_checkpoint_count :=
         (if was_forced then forced_checkpoint_count m + 1 else forced_checkpoint_count m),
       last_checkpoint_time_m := now\<rparr>"

definition avg_checkpoint_time :: "CheckpointMetrics \<Rightarrow> u64" where
  "avg_checkpoint_time m =
     (if checkpoint_count m = 0 then 0 else total_checkpoint_time_ms m div checkpoint_count m)"

text \<open>\<open>duration_cast\<close> truncates towards zero.\<close>

definition trunc_div :: "int \<Rightarrow> int \<Rightarrow> int" where
  "trunc_div a b = sgn a * sgn b * (\<bar>a\<bar> div \<bar>b\<bar>)"

definition to_seconds :: "int \<Rightarrow> int" where
  "to_seconds ns = trunc_div ns 1000000000"

definition to_milliseconds :: "int \<Rightarrow> int" where
  "to_milliseconds ns = trunc_div ns 1000000"

definition time_since_last_checkpoint :: "int \<Rightarrow> CheckpointMetrics \<Rightarrow> int" where
  "time_since_last_checkpoint now m = to_seconds (now - last_checkpoint_time_m m)"

record CheckpointConfig =
  max_interval :: int \<comment> \<open>seconds\<close>
  min_interval :: int \<comment> \<open>seconds\<close>
  max_wal_size :: u64
  dirty_page_soft_limit_pct :: rat \<comment> \<open>the value of the \<open>float\<close>\<close>
  dirty_page_hard_limit_pct :: rat
  checkpoint_batch_size :: nat
  batch_throttle_us :: int

definition default_checkpoint_config :: CheckpointConfig where
  "default_checkpoint_config =
     \<lparr>max_interval = 60, min_interval = 5, max_wal_size = 1 * 1024 * 1024 * 1024,
      dirty_page_soft_limit_pct = f32_round (70 / 100),
      dirty_page_hard_limit_pct = f32_round (90 / 100),
      checkpoint_batch_size = 256, batch_throttle_us = 100\<rparr>"

section \<open>Properties\<close>

lemma header_bytes_length [simp]: "length (header_bytes h) = PageHeader_SIZE"
  by (simp add: header_bytes_def PageHeader_SIZE_def)

text \<open>The layout: the members are adjacent, in declaration order, and fill the 24 bytes.\<close>

lemma header_view_bytes: "header_view (header_bytes h @ rest) = h"
  by (simp add: header_view_def header_bytes_def layout_defs read_at_def
      u16c.dec_enc u32c.dec_enc u64c.dec_enc)

lemma log_record_type_of_byte_inverse [simp]:
  "wf_log_record_type t \<Longrightarrow> log_record_type_of_byte (log_record_type_byte t) = t"
  by (cases t) (auto simp: log_record_type_of_byte_def)

lemma log_record_type_byte_inverse [simp]:
  "log_record_type_byte (log_record_type_of_byte b) = b"
  by (simp add: log_record_type_of_byte_def)

lemma has_flag_or: "has_flag (flags_or a b) f \<longleftrightarrow> has_flag a f \<or> has_flag b f"
  by (auto simp: has_flag_def flags_or_def bit_eq_iff bit_simps)

lemma record_checkpoint_frame [simp]:
  "dirty_page_count_m (record_checkpoint d p f now m) = dirty_page_count_m m"
  "current_wal_size (record_checkpoint d p f now m) = current_wal_size m"
  "checkpoint_count (record_checkpoint d p f now m) = checkpoint_count m + 1"
  by (simp_all add: record_checkpoint_def)

end
