(* ===== verification/Crc32.thy ===== *)
theory Crc32
  imports Datyre_Prelude
begin

text \<open>
  The checksum engine of \<open>src/storage/page.cpp\<close>: the lookup table as it stands in the source, the
  byte step of the loop, and the bit-serial definition of CRC-32 with the reflected IEEE 802.3
  polynomial as the reference. The table agrees with the reference except in four entries. The step
  is nevertheless injective in the register and in the byte, since the top bytes of the 256 entries
  are pairwise distinct, and that is what the error detection of the checksum rests on.
\<close>

section \<open>The table and the step\<close>

definition CRC32_TABLE :: "u32 list" where
  "CRC32_TABLE = [
      0x00000000, 0x77073096, 0xee0e612c, 0x990951ba,
      0x076dc419, 0x706af48f, 0xe963a535, 0x9e6495a3,
      0x0edb8832, 0x79dcb8a4, 0xe0d5e91e, 0x97d2d988,
      0x09b64c2b, 0x7eb17cbd, 0xe7b82d07, 0x90bf1d91,
      0x1db71064, 0x6ab020f2, 0xf3b97148, 0x84be41de,
      0x1adad47d, 0x6ddde4eb, 0xf4d4b551, 0x83d385c7,
      0x136c9856, 0x646ba8c0, 0xfd62f97a, 0x8a65c9ec,
      0x14015c4f, 0x63066cd9, 0xfa0f3d63, 0x8d080df5,
      0x3b6e20c8, 0x4c69105e, 0xd56041e4, 0xa2677172,
      0x3c03e4d1, 0x4b04d447, 0xd20d85fd, 0xa50ab56b,
      0x35b5a8fa, 0x42b2986c, 0xdbbbc9d6, 0xacbcf940,
      0x32d86ce3, 0x45df5c75, 0xdcd60dcf, 0xabd13d59,
      0x26d930ac, 0x51de003a, 0xc8d75180, 0xbfd06116,
      0x21b4f4b5, 0x56b3c423, 0xcfba9599, 0xb8bda50f,
      0x2802b89e, 0x5f058808, 0xc60cd9b2, 0xb10be924,
      0x2f6f7c87, 0x58684c11, 0xc1611dab, 0xb6662d3d,
      0x76dc4190, 0x01db7106, 0x98d220bc, 0xefd5102a,
      0x71b18589, 0x06b6b51f, 0x9fbfe4a5, 0xe8b8d433,
      0x7807c9a2, 0x0f00f934, 0x9609a88e, 0xe10e9818,
      0x7f6a0dbb, 0x086d3d2d, 0x91646c97, 0xe6635c01,
      0x6b6b51f4, 0x1c6c6162, 0x856530d8, 0xf262004e,
      0x6c0695ed, 0x1b01a57b, 0x8208f4c1, 0xf50fc457,
      0x65b0d9c6, 0x12b7e950, 0x8bbeb8ea, 0xfcb9887c,
      0x62dd1ddf, 0x15da2d49, 0x8cd37cf3, 0xfbd44c65,
      0x4db26158, 0x3ab551ce, 0xa3bc0074, 0xd4bb30e2,
      0x4adfa541, 0x3dd895d7, 0xa4d1c46d, 0xd3d6f4fb,
      0x4369e96a, 0x346ed9fc, 0xad678846, 0xda60b8d0,
      0x44042d73, 0x33031de5, 0xaa0a4c5f, 0xdd0d7cd9,
      0x5005713c, 0x270241aa, 0xbe0b1010, 0xc90c2086,
      0x5768b525, 0x206f85b3, 0xb966d409, 0xce61e49f,
      0x5edef90e, 0x29d9c998, 0xb0d09822, 0xc7d7a8b4,
      0x59b33d17, 0x2eb40d81, 0xb7bd5c3b, 0xc0ba6cad,
      0xedb88320, 0x9abfb3b6, 0x03b6e20c, 0x74b1d29a,
      0xead54739, 0x9dd277af, 0x04db2615, 0x73dc1683,
      0xe3630b12, 0x94643b84, 0x0d6d6a3e, 0x7a6a5aa8,
      0xe40ecf0b, 0x9309ff9d, 0x0a00ae27, 0x7d079eb1,
      0xf00f9344, 0x8708a3d2, 0x1e01f268, 0x6906c2fe,
      0xf762575d, 0x806567cb, 0x196c3671, 0x6e6b06e7,
      0xfed41b76, 0x89d32be0, 0x10da7a5a, 0x67dd4acc,
      0xf9b9df6f, 0x8ebeeff9, 0x17b7be43, 0x60b08ed5,
      0xd6d6a3e8, 0xa1d1937e, 0x38d8c2c4, 0x4fdff252,
      0xd1bb67f1, 0xa6bc5767, 0x3fb506dd, 0x48b2364b,
      0xd80d2bda, 0xaf0a1b4c, 0x36034af6, 0x41047a60,
      0xdf60efc3, 0xa867df55, 0x316e8eef, 0x4669be79,
      0xcb61b38c, 0xbc66831a, 0x256fd2a0, 0x5268e236,
      0xcc0c7795, 0xbb0b4703, 0x220216b9, 0x5505262f,
      0xc5ba3bbe, 0xb2bd0b28, 0x2bb45a92, 0x5cb36a04,
      0xc2d7ffa7, 0xb5d0cf31, 0x2cd99e8b, 0x5bdeae1d,
      0x9b64c2b0, 0xec63f226, 0x756aa39c, 0x026d930a,
      0x9c0906a9, 0xeb0e363f, 0x72076785, 0x05005713,
      0x95bf4a82, 0xe2b87a14, 0x7bb12bae, 0x0cb61b38,
      0x92d28e9b, 0xe5d5be0d, 0x7cdcefb7, 0x0bdbdf21,
      0x86d3d2d4, 0xf1d4e242, 0x68ddb3f8, 0x1fda836e,
      0x81be16cd, 0xf6b9265b, 0x6fb077e1, 0x18b74777,
      0x88085ae6, 0xff0f6a70, 0x66063bca, 0x11010b5c,
      0x8f659eff, 0xf862ae69, 0x616bffd3, 0x166ccf45,
      0xa00ae278, 0xd70dd2ee, 0x4e048354, 0x3903b3c2,
      0xa7672661, 0xd06016f7, 0x4969474d, 0x3e6e77db,
      0xaed16a4a, 0xd9d65adc, 0x40df0b66, 0x37d83bf0,
      0xa9bcae53, 0xdede86c5, 0x47d7977f, 0x30d0a7e9,
      0xbdbdf21c, 0xcabac28a, 0x53b39330, 0x24b4a3a6,
      0xbad03605, 0xcdd70693, 0x54de5729, 0x23d967bf,
      0xb3667a2e, 0xc4614ab8, 0x5d681b02, 0x2a6f2b94,
      0xb40bbe37, 0xc30c8ea1, 0x5a05df1b, 0x2d02ef8d]"

definition crc_step :: "u32 \<Rightarrow> u8 \<Rightarrow> u32" where
  "crc_step crc b = CRC32_TABLE ! unat ((crc XOR ucast b) AND 0xFF) XOR drop_bit 8 crc"

section \<open>The bit-serial reference\<close>

definition crc_bit :: "u32 \<Rightarrow> u32" where
  "crc_bit c = (if bit c 0 then drop_bit 1 c XOR 0xEDB88320 else drop_bit 1 c)"

definition crc_byte :: "u32 \<Rightarrow> u32" where
  "crc_byte c = (crc_bit ^^ 8) c"

text \<open>Bytes at which the table of the source is not the table of the polynomial.\<close>

definition crc_bad_entries :: "nat list" where
  "crc_bad_entries = [111, 237, 238, 239]"

section \<open>The table against the reference\<close>

lemma crc_bit_xor: "crc_bit (a XOR b) = crc_bit a XOR crc_bit b"
  by (cases "bit a 0"; cases "bit b 0"; simp add: crc_bit_def drop_bit_xor bit_xor_iff ac_simps)

lemma crc_byte_xor: "crc_byte (a XOR b) = crc_byte a XOR crc_byte b"
proof -
  have "(crc_bit ^^ n) (a XOR b) = (crc_bit ^^ n) a XOR (crc_bit ^^ n) b" for n
    by (induction n) (simp_all add: crc_bit_xor)
  then show ?thesis by (simp add: crc_byte_def)
qed

text \<open>The reference table doubles: entry \<open>2 ^ k + i\<close> is entry \<open>i\<close> combined with entry \<open>2 ^ k\<close>.\<close>

definition crc_ref :: "nat \<Rightarrow> u32 list" where
  "crc_ref n = map (\<lambda>i. crc_byte (of_nat i)) [0..<n]"

lemma crc_ref_double:
  assumes "k < 32"
  shows "crc_ref (2 ^ Suc k) = crc_ref (2 ^ k) @ map (\<lambda>c. c XOR crc_byte (2 ^ k)) (crc_ref (2 ^ k))"
proof -
  have split: "[0..<2 ^ Suc k] = [0..<2 ^ k] @ map (\<lambda>i. i + 2 ^ k) [0..<2 ^ k]"
    by (simp add: map_add_upt mult_2 flip: upt_add_eq_append)
  have "crc_byte (of_nat (i + 2 ^ k)) = crc_byte (of_nat i) XOR crc_byte (2 ^ k)"
    if "i < 2 ^ k" for i
  proof -
    have "\<not> bit i k" using that by (simp add: bit_iff_odd)
    then have "(of_nat i :: u32) AND 2 ^ k = 0"
      by (auto intro!: bit_word_eqI simp: bit_simps)
    then have "of_nat (i + 2 ^ k) = (of_nat i :: u32) XOR 2 ^ k"
      by (simp add: disjunctive_add_eq_xor)
    then show ?thesis by (simp add: crc_byte_xor)
  qed
  then show ?thesis by (auto simp: crc_ref_def split simp del: upt_Suc power_Suc)
qed

lemma crc_byte_unfold:
  "crc_byte c = crc_bit (crc_bit (crc_bit (crc_bit (crc_bit (crc_bit (crc_bit (crc_bit c)))))))"
  by (simp add: crc_byte_def eval_nat_numeral)

lemma crc_basis:
  "crc_byte 1 = 0x77073096" "crc_byte 2 = 0xee0e612c"
  "crc_byte 4 = 0x76dc419" "crc_byte 8 = 0xedb8832"
  "crc_byte 16 = 0x1db71064" "crc_byte 32 = 0x3b6e20c8"
  "crc_byte 64 = 0x76dc4190" "crc_byte 128 = 0xedb88320"
  by (simp_all add: crc_byte_unfold crc_bit_def)

text \<open>The table of the polynomial: the one of the source with the four entries corrected.\<close>

definition ieee_table :: "u32 list" where
  "ieee_table =
     take 111 CRC32_TABLE @ [0xdd0d7cc9] @ take 125 (drop 112 CRC32_TABLE) @
     [0xdebb9ec5, 0x47b2cf7f, 0x30b5ffe9] @ drop 240 CRC32_TABLE"

fun crc_doublings :: "u32 list \<Rightarrow> u32 list \<Rightarrow> u32 list" where
  "crc_doublings [] t = t"
| "crc_doublings (b # bs) t = crc_doublings bs (t @ map (\<lambda>c. c XOR b) t)"

lemma length_CRC32_TABLE [simp]: "length CRC32_TABLE = 256"
  by (simp add: CRC32_TABLE_def)

lemma ieee_table_doublings:
  "crc_doublings [crc_byte 1, crc_byte 2, crc_byte 4, crc_byte 8,
     crc_byte 16, crc_byte 32, crc_byte 64, crc_byte 128] [0] = ieee_table"
  by (simp add: crc_basis ieee_table_def CRC32_TABLE_def)

lemma crc_ref_table: "crc_ref 256 = ieee_table"
proof -
  have "crc_ref 1 = [0]"
    by (simp add: crc_ref_def crc_byte_unfold crc_bit_def)
  with crc_ref_double [of 0] crc_ref_double [of 1] crc_ref_double [of 2] crc_ref_double [of 3]
    crc_ref_double [of 4] crc_ref_double [of 5] crc_ref_double [of 6] crc_ref_double [of 7]
  have "crc_ref 256 = crc_doublings [crc_byte 1, crc_byte 2, crc_byte 4, crc_byte 8,
     crc_byte 16, crc_byte 32, crc_byte 64, crc_byte 128] [0]"
    by (simp del: append.simps append_assoc map_append list.map)
  then show ?thesis by (simp only: ieee_table_doublings)
qed

lemma ieee_table_nth:
  assumes "i < 256"
  shows "ieee_table ! i =
    (if i = 111 then 0xdd0d7cc9 else if i = 237 then 0xdebb9ec5
     else if i = 238 then 0x47b2cf7f else if i = 239 then 0x30b5ffe9
     else CRC32_TABLE ! i)"
  using assms by (auto simp: ieee_table_def nth_append nth_Cons' less_Suc_eq)

text \<open>An entry of the source's table is the polynomial's exactly where it is not one of the four.\<close>

lemma crc_table_entry:
  assumes "i < 256"
  shows "(CRC32_TABLE ! i = crc_byte (of_nat i)) \<longleftrightarrow> i \<notin> set crc_bad_entries"
proof -
  have "crc_byte (of_nat i) = ieee_table ! i"
    using assms by (simp flip: crc_ref_table add: crc_ref_def del: upt_Suc)
  moreover have "CRC32_TABLE ! 111 = 0xdd0d7cd9" "CRC32_TABLE ! 237 = 0xdede86c5"
    "CRC32_TABLE ! 238 = 0x47d7977f" "CRC32_TABLE ! 239 = 0x30d0a7e9"
    by (simp_all add: CRC32_TABLE_def)
  ultimately show ?thesis
    using assms by (auto simp: ieee_table_nth crc_bad_entries_def)
qed

section \<open>Injectivity of the step\<close>

lemma crc_top_bytes: "distinct (map (\<lambda>w. unat (drop_bit 24 w)) CRC32_TABLE)"
  by (simp add: CRC32_TABLE_def)

lemma crc_index_less: "unat ((c :: u32) AND 0xFF) < 256"
proof -
  have "c AND 0xFF = take_bit 8 c" by (simp add: take_bit_eq_mask mask_eq_exp_minus_1)
  then show ?thesis using take_bit_nat_less_exp [of 8 "unat c"] by (simp add: unsigned_take_bit_eq)
qed

lemma crc_step_top: "drop_bit 24 (crc_step c b) = drop_bit 24 (CRC32_TABLE ! unat ((c XOR ucast b) AND 0xFF))"
proof -
  have "drop_bit 32 c = 0" by (rule bit_word_eqI) (simp add: bit_simps bit_imp_le_length)
  then show ?thesis by (simp add: crc_step_def drop_bit_xor)
qed

lemma xor_left_cancel: "(a :: 'a::len word) XOR x = a XOR y \<longleftrightarrow> x = y"
proof
  assume "a XOR x = a XOR y"
  then have "a XOR (a XOR x) = a XOR (a XOR y)" by simp
  then show "x = y" by (simp flip: xor.assoc)
qed simp

text \<open>The result of a step determines the table index and the upper 24 bits of the register.\<close>

lemma crc_step_eqD:
  assumes "crc_step c b = crc_step c' b'"
  shows "(c XOR ucast b) AND 0xFF = (c' XOR ucast b') AND 0xFF" and "drop_bit 8 c = drop_bit 8 c'"
proof -
  let ?i = "unat ((c XOR ucast b) AND 0xFF)" and ?j = "unat ((c' XOR ucast b') AND 0xFF)"
  have "unat (drop_bit 24 (CRC32_TABLE ! ?i)) = unat (drop_bit 24 (CRC32_TABLE ! ?j))"
    using assms by (metis crc_step_top)
  then have "?i = ?j"
    using nth_eq_iff_index_eq [OF crc_top_bytes, of ?i ?j] crc_index_less by simp
  then show "(c XOR ucast b) AND 0xFF = (c' XOR ucast b') AND 0xFF" by (simp only: unsigned_word_eqI)
  with assms show "drop_bit 8 c = drop_bit 8 c'" by (simp add: crc_step_def xor_left_cancel)
qed

lemma crc_step_inj_crc:
  assumes "crc_step c b = crc_step c' b"
  shows "c = c'"
proof (rule bit_word_eqI)
  fix n assume "n < LENGTH(32)"
  have low: "bit ((c XOR ucast b) AND 0xFF) n = bit ((c' XOR ucast b) AND 0xFF) n"
    using crc_step_eqD(1) [OF assms] by simp
  have high: "bit (drop_bit 8 c) (n - 8) = bit (drop_bit 8 c') (n - 8)"
    using crc_step_eqD(2) [OF assms] by simp
  have "bit (0xFF :: u32) n = (n < 8)"
    using bit_mask_iff [of 8 n, where ?'a = u32] \<open>n < LENGTH(32)\<close>
    by (auto simp: mask_eq_exp_minus_1)
  with low high show "bit c n = bit c' n"
    by (cases "n < 8") (auto simp: bit_simps)
qed

lemma crc_step_inj_byte:
  assumes "crc_step c b = crc_step c b'"
  shows "b = b'"
proof (rule bit_word_eqI)
  fix n assume n: "n < LENGTH(8)"
  have low: "bit ((c XOR ucast b) AND 0xFF) n = bit ((c XOR ucast b') AND 0xFF) n"
    using crc_step_eqD(1) [OF assms] by simp
  have "bit (0xFF :: u32) n"
    using bit_mask_iff [of 8 n, where ?'a = u32] n by (auto simp: mask_eq_exp_minus_1)
  with low n show "bit b n = bit b' n"
    by (auto simp: bit_simps)
qed

end
