(* ===== verification/Page.thy ===== *)
theory Page
  imports Storage_Types Crc32
begin

text \<open>
  \<open>src/storage/page.hpp\<close> and \<open>page.cpp\<close>: a fixed-size page, its pin count and dirty flag, the header
  fields stored in the first 24 bytes, and the checksum over all bytes but the checksum field. The
  lemmas show that every operation keeps the size, that a stored field is read back and disturbs no
  other, that a freshly computed checksum verifies, and that the checksum detects the corruption of
  any single byte of the page.
\<close>

section \<open>State and operations\<close>

record Page =
  page_data :: bytes
  page_id :: PageId
  is_dirty :: bool
  pin_count :: int

text \<open>The two constructors; \<open>memset\<close> clears the whole array.\<close>

definition Page_default :: Page where
  "Page_default =
     \<lparr>page_data = replicate PAGE_SIZE 0, page_id = INVALID_PAGE_ID, is_dirty = False, pin_count = 0\<rparr>"

definition Page_new :: "PageId \<Rightarrow> Page" where
  "Page_new i =
     \<lparr>page_data = write_at off_page_id (le_bytes 4 i) (replicate PAGE_SIZE 0),
      page_id = i, is_dirty = False, pin_count = 0\<rparr>"

definition header :: "Page \<Rightarrow> PageHeader" where
  "header p = header_view (page_data p)"

definition set_page_id :: "PageId \<Rightarrow> Page \<Rightarrow> Page" where
  "set_page_id i p = p\<lparr>page_id := i, page_data := write_at off_page_id (le_bytes 4 i) (page_data p)\<rparr>"

definition mark_dirty :: "Page \<Rightarrow> Page" where
  "mark_dirty p = p\<lparr>is_dirty := True\<rparr>"

definition mark_clean :: "Page \<Rightarrow> Page" where
  "mark_clean p = p\<lparr>is_dirty := False\<rparr>"

definition pin :: "Page \<Rightarrow> Page" where
  "pin p = p\<lparr>pin_count := pin_count p + 1\<rparr>"

definition unpin :: "Page \<Rightarrow> Page" where
  "unpin p = (if pin_count p > 0 then p\<lparr>pin_count := pin_count p - 1\<rparr> else p)"

definition is_pinned :: "Page \<Rightarrow> bool" where
  "is_pinned p \<longleftrightarrow> pin_count p > 0"

definition get_lsn :: "Page \<Rightarrow> Lsn" where
  "get_lsn p = ph_page_lsn (header p)"

definition set_lsn :: "Lsn \<Rightarrow> Page \<Rightarrow> Page" where
  "set_lsn l p = p\<lparr>page_data := write_at off_page_lsn (le_bytes 8 l) (page_data p)\<rparr>"

definition payload :: "Page \<Rightarrow> bytes" where
  "payload p = drop PageHeader_SIZE (page_data p)"

definition payload_size :: nat where
  "payload_size = PAGE_SIZE - PageHeader_SIZE"

text \<open>The checksum loop skips the four bytes of the checksum field.\<close>

definition checksum_loop :: "bytes \<Rightarrow> nat \<Rightarrow> u32 \<Rightarrow> u32" where
  "checksum_loop d i crc =
     (if off_checksum \<le> i \<and> i < off_checksum + 4 then crc else crc_step crc (d ! i))"

definition data_checksum :: "bytes \<Rightarrow> u32" where
  "data_checksum d = fold (checksum_loop d) [0..<PAGE_SIZE] 0xFFFFFFFF XOR 0xFFFFFFFF"

definition compute_checksum :: "Page \<Rightarrow> u32" where
  "compute_checksum p = data_checksum (page_data p)"

definition verify_checksum :: "Page \<Rightarrow> bool" where
  "verify_checksum p \<longleftrightarrow> compute_checksum p = ph_checksum (header p)"

definition update_checksum :: "Page \<Rightarrow> Page" where
  "update_checksum p = p\<lparr>page_data := write_at off_checksum (le_bytes 4 (compute_checksum p)) (page_data p)\<rparr>"

definition reset :: "Page \<Rightarrow> Page" where
  "reset p =
     \<lparr>page_data = replicate PAGE_SIZE 0, page_id = INVALID_PAGE_ID, is_dirty = False, pin_count = 0\<rparr>"

lemmas page_op_defs [model_defs] = set_page_id_def mark_dirty_def mark_clean_def pin_def unpin_def
  is_pinned_def reset_def

section \<open>The size invariant\<close>

definition wf_page :: "Page \<Rightarrow> bool" where
  "wf_page p \<longleftrightarrow> length (page_data p) = PAGE_SIZE"

lemma page_size_gt [simp]: "24 \<le> PAGE_SIZE"
  by (simp add: PAGE_SIZE_def)

lemma wf_page_ops [simp]:
  "wf_page Page_default" "wf_page (Page_new i)" "wf_page (reset p)"
  "wf_page p \<Longrightarrow> wf_page (set_page_id i p)"
  "wf_page p \<Longrightarrow> wf_page (set_lsn l p)"
  "wf_page p \<Longrightarrow> wf_page (update_checksum p)"
  "wf_page (mark_dirty p) = wf_page p"
  "wf_page (mark_clean p) = wf_page p"
  "wf_page (pin p) = wf_page p"
  "wf_page (unpin p) = wf_page p"
  by (simp_all add: wf_page_def Page_default_def Page_new_def page_op_defs set_lsn_def
      update_checksum_def layout_defs)

lemma page_id_ops [simp]:
  "page_id (set_page_id i p) = i" "page_id (mark_dirty p) = page_id p"
  "page_id (mark_clean p) = page_id p" "page_id (pin p) = page_id p"
  "page_id (unpin p) = page_id p" "page_id (update_checksum p) = page_id p"
  "page_id (reset p) = INVALID_PAGE_ID"
  by (simp_all add: page_op_defs update_checksum_def)

lemma is_dirty_ops [simp]:
  "is_dirty (set_page_id i p) = is_dirty p" "is_dirty (mark_dirty p)"
  "\<not> is_dirty (mark_clean p)" "is_dirty (pin p) = is_dirty p"
  "is_dirty (unpin p) = is_dirty p" "is_dirty (update_checksum p) = is_dirty p"
  "\<not> is_dirty (reset p)"
  by (simp_all add: page_op_defs update_checksum_def)

lemma pin_count_ops [simp]:
  "pin_count (set_page_id i p) = pin_count p" "pin_count (mark_dirty p) = pin_count p"
  "pin_count (mark_clean p) = pin_count p" "pin_count (pin p) = pin_count p + 1"
  "pin_count (update_checksum p) = pin_count p" "pin_count (reset p) = 0"
  "pin_count (unpin p) = (if pin_count p > 0 then pin_count p - 1 else pin_count p)"
  by (simp_all add: page_op_defs update_checksum_def)

lemma page_data_ops [simp]:
  "page_data (mark_dirty p) = page_data p" "page_data (mark_clean p) = page_data p"
  "page_data (pin p) = page_data p" "page_data (unpin p) = page_data p"
  by (simp_all add: page_op_defs)

section \<open>Header fields\<close>

definition header_page_id :: "bytes \<Rightarrow> PageId" where
  "header_page_id d = le_word (read_at off_page_id 4 d)"

lemma header_page_id_set [simp]: "header_page_id (page_data (set_page_id i p)) = i"
  by (simp add: header_page_id_def set_page_id_def u32c.field_get_set)

lemma set_page_id_same:
  assumes "wf_page p" and "header_page_id (page_data p) = i"
  shows "page_data (set_page_id i p) = page_data p"
  using assms u32c.field_set_get [of off_page_id "page_data p" i]
  by (simp add: set_page_id_def header_page_id_def wf_page_def layout_defs)

lemma header_page_id_update_checksum [simp]:
  assumes "wf_page p"
  shows "header_page_id (page_data (update_checksum p)) = header_page_id (page_data p)"
  using assms by (simp add: header_page_id_def update_checksum_def wf_page_def layout_defs read_write_before)

lemma get_set_lsn: "get_lsn (set_lsn l p) = l"
  by (simp add: get_lsn_def set_lsn_def header_def header_view_def u64c.field_get_set)

section \<open>Checksum\<close>

text \<open>The bytes the checksum depends on: the page with its checksum field cleared.\<close>

definition page_body :: "bytes \<Rightarrow> bytes" where
  "page_body d = write_at off_checksum [0, 0, 0, 0] d"

lemma data_checksum_cong:
  assumes "\<And>i. i < PAGE_SIZE \<Longrightarrow> i < off_checksum \<or> off_checksum + 4 \<le> i \<Longrightarrow> d ! i = e ! i"
  shows "data_checksum d = data_checksum e"
proof -
  have "fold (checksum_loop d) [0..<PAGE_SIZE] c = fold (checksum_loop e) [0..<PAGE_SIZE] c" for c
    using assms by (intro fold_cong) (auto simp: checksum_loop_def not_le not_less)
  then show ?thesis by (simp add: data_checksum_def)
qed

lemma data_checksum_field:
  assumes "length d = PAGE_SIZE" and "length bs = 4"
  shows "data_checksum (write_at off_checksum bs d) = data_checksum d"
  using assms by (intro data_checksum_cong) (auto simp: nth_write_at layout_defs)

lemma data_checksum_body: "length d = PAGE_SIZE \<Longrightarrow> data_checksum (page_body d) = data_checksum d"
  by (simp add: page_body_def data_checksum_field)

lemma page_body_field:
  assumes "length bs = 4"
  shows "page_body (write_at off_checksum bs d) = page_body d"
  using assms by (simp add: page_body_def)

lemma page_body_update_checksum [simp]: "page_body (page_data (update_checksum p)) = page_body (page_data p)"
  by (simp add: update_checksum_def page_body_field)

lemma update_checksum_verifies:
  assumes "wf_page p"
  shows "verify_checksum (update_checksum p)"
proof -
  have "ph_checksum (header (update_checksum p)) = compute_checksum p"
    by (simp add: header_def header_view_def update_checksum_def u32c.field_get_set)
  moreover have "compute_checksum (update_checksum p) = compute_checksum p"
    using assms by (simp add: compute_checksum_def update_checksum_def data_checksum_field wf_page_def)
  ultimately show ?thesis by (simp add: verify_checksum_def)
qed

section \<open>Error detection\<close>

lemma fold_inj:
  assumes "\<And>i. i \<in> set xs \<Longrightarrow> inj (f i)"
  shows "inj (fold f xs)"
  using assms by (induction xs) (simp_all add: inj_compose)

lemma checksum_loop_inj: "inj (checksum_loop d i)"
  by (auto simp: inj_def checksum_loop_def dest: crc_step_inj_crc)

lemma checksum_loop_update:
  "i \<noteq> k \<Longrightarrow> checksum_loop (d[k := b]) i = checksum_loop d i"
  by (rule ext) (simp add: checksum_loop_def)

lemma checksum_byte_sensitive:
  assumes len: "length d = PAGE_SIZE" and k: "k < PAGE_SIZE"
    and outside: "k < off_checksum \<or> off_checksum + 4 \<le> k" and b: "b \<noteq> d ! k"
  shows "data_checksum (d[k := b]) \<noteq> data_checksum d"
proof
  let ?e = "d[k := b]"
  assume eq: "data_checksum ?e = data_checksum d"
  have split: "[0..<PAGE_SIZE] = [0..<k] @ k # [Suc k..<PAGE_SIZE]"
    using k upt_add_eq_append [of 0 k "PAGE_SIZE - k"] by (simp add: upt_conv_Cons)
  define before where "before = fold (checksum_loop d) [0..<k] 0xFFFFFFFF"
  define after where "after = fold (checksum_loop d) [Suc k..<PAGE_SIZE]"
  have "fold (checksum_loop ?e) [0..<k] c = fold (checksum_loop d) [0..<k] c" for c
    by (intro fold_cong) (auto simp: checksum_loop_update)
  moreover have "fold (checksum_loop ?e) [Suc k..<PAGE_SIZE] c = after c" for c
    unfolding after_def by (intro fold_cong) (auto simp: checksum_loop_update)
  ultimately have "after (checksum_loop ?e k before) = after (checksum_loop d k before)"
    using eq xor_left_cancel [of "0xFFFFFFFF :: u32"]
    by (simp add: data_checksum_def split before_def after_def xor.commute [of _ "0xFFFFFFFF :: u32"])
  moreover have "inj after" unfolding after_def by (rule fold_inj) (rule checksum_loop_inj)
  ultimately have "checksum_loop ?e k before = checksum_loop d k before" by (simp add: inj_eq)
  with outside k len have "crc_step before b = crc_step before (d ! k)"
    by (auto simp: checksum_loop_def split: if_splits)
  with b show False by (auto dest: crc_step_inj_byte)
qed

text \<open>A byte of the stored checksum itself: the comparison value changes, the computed one does not.\<close>

lemma checksum_field_sensitive:
  assumes len: "length d = PAGE_SIZE" and k: "off_checksum \<le> k" "k < off_checksum + 4" and b: "b \<noteq> d ! k"
  shows "(le_word (read_at off_checksum 4 (d[k := b])) :: u32) \<noteq> le_word (read_at off_checksum 4 d)"
proof
  let ?r = "\<lambda>d. read_at off_checksum 4 d"
  have l: "length (?r d) = 4" "length (?r (d[k := b])) = 4" using len by (simp_all add: layout_defs)
  assume "(le_word (?r (d[k := b])) :: u32) = le_word (?r d)"
  then have "?r (d[k := b]) = ?r d" using l u32c.enc_dec by metis
  then have "?r (d[k := b]) ! (k - off_checksum) = ?r d ! (k - off_checksum)" by simp
  with k b len show False by (simp add: nth_read_at layout_defs)
qed

lemma data_checksum_update_field:
  assumes "off_checksum \<le> k" "k < off_checksum + 4"
  shows "data_checksum (d[k := b]) = data_checksum d"
  using assms by (intro data_checksum_cong) (auto simp: nth_list_update)

lemma header_checksum_update_outside:
  assumes "k < off_checksum \<or> off_checksum + 4 \<le> k"
  shows "read_at off_checksum 4 (d[k := b]) = read_at off_checksum 4 d"
  using assms by (auto intro!: nth_equalityI simp: nth_read_at nth_list_update)

lemma verify_detects_byte:
  assumes "wf_page p" and "verify_checksum p" and "k < PAGE_SIZE" and "b \<noteq> page_data p ! k"
  shows "\<not> verify_checksum (p\<lparr>page_data := (page_data p)[k := b]\<rparr>)"
proof (cases "off_checksum \<le> k \<and> k < off_checksum + 4")
  case True
  with assms show ?thesis
    using checksum_field_sensitive [of "page_data p" k b]
    by (auto simp: verify_checksum_def compute_checksum_def header_def header_view_def
        wf_page_def data_checksum_update_field)
next
  case False
  then have "k < off_checksum \<or> off_checksum + 4 \<le> k" by linarith
  with assms show ?thesis
    using checksum_byte_sensitive [of "page_data p" k b]
    by (simp add: verify_checksum_def compute_checksum_def header_def header_view_def
        wf_page_def header_checksum_update_outside)
qed

end
