(* ===== verification/File_Stream.thy ===== *)
theory File_Stream
  imports Datyre_Prelude
begin

text \<open>
  The part of \<open>std::fstream\<close> that the storage layer uses: one file, one position shared by
  \<open>seekg\<close> and \<open>seekp\<close>, and the error state of the stream. The error state is sticky: none of the
  code under \<open>src/storage\<close> ever calls \<open>clear()\<close>, and only a successful \<open>open\<close> resets it. Every call
  that reaches the operating system consumes one outcome of the environment \<open>fs_env\<close>, so that a
  theorem quantified over the stream covers every pattern of I/O failures; \<open>IoFail k\<close> is a failure
  after \<open>k\<close> bytes were transferred.
\<close>

section \<open>State and operations\<close>

datatype io_outcome = IoOk | IoFail nat

record fstream =
  fs_contents :: bytes \<comment> \<open>the file, including what is still in the stream's buffer\<close>
  fs_flushed :: bytes \<comment> \<open>the file as of the last successful \<open>flush\<close> or \<open>close\<close>\<close>
  fs_is_open :: bool
  fs_fail :: bool \<comment> \<open>\<open>failbit\<close> or \<open>badbit\<close>\<close>
  fs_pos :: nat
  fs_env :: "nat \<Rightarrow> io_outcome"
  fs_tick :: nat

definition fs_next :: "fstream \<Rightarrow> io_outcome \<times> fstream" where
  "fs_next s = (fs_env s (fs_tick s), s\<lparr>fs_tick := Suc (fs_tick s)\<rparr>)"

text \<open>\<open>operator bool\<close> and \<open>operator!\<close> of the stream test the error state only.\<close>

definition fs_ok :: "fstream \<Rightarrow> bool" where
  "fs_ok s \<longleftrightarrow> \<not> fs_fail s"

definition fs_seek :: "u64 \<Rightarrow> fstream \<Rightarrow> fstream" where
  "fs_seek off s =
     (if fs_fail s then s
      else if \<not> fs_is_open s \<or> sint off < 0 then s\<lparr>fs_fail := True\<rparr>
      else case fs_next s of
        (IoOk, s') \<Rightarrow> s'\<lparr>fs_pos := unat off\<rparr>
      | (IoFail _, s') \<Rightarrow> s'\<lparr>fs_fail := True\<rparr>)"

text \<open>\<open>seekg(0, std::ios::end)\<close>, and \<open>tellg\<close>, which is minus one on a stream in error.\<close>

definition fs_seek_end :: "fstream \<Rightarrow> fstream" where
  "fs_seek_end s =
     (if fs_fail s then s
      else if \<not> fs_is_open s then s\<lparr>fs_fail := True\<rparr>
      else case fs_next s of
        (IoOk, s') \<Rightarrow> s'\<lparr>fs_pos := length (fs_contents s)\<rparr>
      | (IoFail _, s') \<Rightarrow> s'\<lparr>fs_fail := True\<rparr>)"

definition fs_tell :: "fstream \<Rightarrow> u64" where
  "fs_tell s = (if fs_fail s then - 1 else of_nat (fs_pos s))"

text \<open>
  \<open>read(buf, n)\<close>: the bytes delivered replace a prefix of the buffer; fewer than \<open>n\<close> of them set the
  error state, and the part that was delivered stays in the buffer.
\<close>

definition fs_read :: "nat \<Rightarrow> bytes \<Rightarrow> fstream \<Rightarrow> bytes \<times> fstream" where
  "fs_read n buf s =
     (if fs_fail s \<or> \<not> fs_is_open s then (buf, s\<lparr>fs_fail := True\<rparr>)
      else case fs_next s of
        (IoOk, s') \<Rightarrow>
          (let got = read_at (fs_pos s) n (fs_contents s)
           in (got @ drop (length got) buf,
               s'\<lparr>fs_pos := fs_pos s + length got, fs_fail := length got < n\<rparr>))
      | (IoFail k, s') \<Rightarrow>
          (let got = take k (read_at (fs_pos s) n (fs_contents s))
           in (got @ drop (length got) buf,
               s'\<lparr>fs_pos := fs_pos s + length got, fs_fail := True\<rparr>)))"

definition fs_put :: "nat \<Rightarrow> bytes \<Rightarrow> bytes \<Rightarrow> bytes" where
  "fs_put off bs xs = (if bs = [] then xs else write_at off bs xs)"

definition fs_write :: "bytes \<Rightarrow> fstream \<Rightarrow> fstream" where
  "fs_write bs s =
     (if fs_fail s \<or> \<not> fs_is_open s then s\<lparr>fs_fail := True\<rparr>
      else case fs_next s of
        (IoOk, s') \<Rightarrow>
          s'\<lparr>fs_contents := fs_put (fs_pos s) bs (fs_contents s), fs_pos := fs_pos s + length bs\<rparr>
      | (IoFail k, s') \<Rightarrow>
          s'\<lparr>fs_contents := fs_put (fs_pos s) (take k bs) (fs_contents s),
             fs_pos := fs_pos s + length (take k bs), fs_fail := True\<rparr>)"

definition fs_flush :: "fstream \<Rightarrow> fstream" where
  "fs_flush s =
     (if fs_fail s \<or> \<not> fs_is_open s then s
      else case fs_next s of
        (IoOk, s') \<Rightarrow> s'\<lparr>fs_flushed := fs_contents s\<rparr>
      | (IoFail _, s') \<Rightarrow> s'\<lparr>fs_fail := True\<rparr>)"

definition fs_close :: "fstream \<Rightarrow> fstream" where
  "fs_close s =
     (if \<not> fs_is_open s then s\<lparr>fs_fail := True\<rparr>
      else case fs_next s of
        (IoOk, s') \<Rightarrow> s'\<lparr>fs_flushed := fs_contents s, fs_is_open := False\<rparr>
      | (IoFail _, s') \<Rightarrow> s'\<lparr>fs_is_open := False, fs_fail := True\<rparr>)"

text \<open>
  \<open>open\<close> with \<open>in | out\<close> needs the file to exist and keeps it; \<open>open\<close> with \<open>out\<close> alone creates the
  file or truncates the one that is there. Success clears the error state.
\<close>

definition fs_open_inout :: "bool \<Rightarrow> fstream \<Rightarrow> fstream" where
  "fs_open_inout present s =
     (if fs_is_open s then s\<lparr>fs_fail := True\<rparr>
      else case fs_next s of
        (IoOk, s') \<Rightarrow>
          (if present then s'\<lparr>fs_is_open := True, fs_fail := False, fs_pos := 0\<rparr>
           else s'\<lparr>fs_fail := True\<rparr>)
      | (IoFail _, s') \<Rightarrow> s'\<lparr>fs_fail := True\<rparr>)"

definition fs_open_out :: "fstream \<Rightarrow> fstream" where
  "fs_open_out s =
     (if fs_is_open s then s\<lparr>fs_fail := True\<rparr>
      else case fs_next s of
        (IoOk, s') \<Rightarrow>
          s'\<lparr>fs_contents := [], fs_flushed := [], fs_is_open := True, fs_fail := False, fs_pos := 0\<rparr>
      | (IoFail _, s') \<Rightarrow> s'\<lparr>fs_fail := True\<rparr>)"

lemmas fs_op_defs = fs_seek_def fs_seek_end_def fs_tell_def fs_read_def fs_write_def fs_flush_def fs_close_def
  fs_open_inout_def fs_open_out_def fs_next_def fs_put_def fs_ok_def

text \<open>A stream on which no call to the operating system fails.\<close>

definition fs_reliable :: "fstream \<Rightarrow> bool" where
  "fs_reliable s \<longleftrightarrow> (\<forall>n. fs_env s n = IoOk)"

section \<open>What every operation keeps\<close>

lemma fs_env_ops [simp]:
  "fs_env (fs_seek off s) = fs_env s"
  "fs_env (snd (fs_read n buf s)) = fs_env s"
  "fs_env (fs_write bs s) = fs_env s"
  "fs_env (fs_flush s) = fs_env s"
  by (auto simp: fs_op_defs Let_def split: io_outcome.splits)

lemma fs_reliable_ops [simp]:
  "fs_reliable (fs_seek off s) = fs_reliable s"
  "fs_reliable (snd (fs_read n buf s)) = fs_reliable s"
  "fs_reliable (fs_write bs s) = fs_reliable s"
  "fs_reliable (fs_flush s) = fs_reliable s"
  by (simp_all add: fs_reliable_def)

lemma fs_is_open_ops [simp]:
  "fs_is_open (fs_seek off s) = fs_is_open s"
  "fs_is_open (snd (fs_read n buf s)) = fs_is_open s"
  "fs_is_open (fs_write bs s) = fs_is_open s"
  "fs_is_open (fs_flush s) = fs_is_open s"
  by (auto simp: fs_op_defs Let_def split: io_outcome.splits)

lemma fs_contents_ops [simp]:
  "fs_contents (fs_seek off s) = fs_contents s"
  "fs_contents (snd (fs_read n buf s)) = fs_contents s"
  "fs_contents (fs_flush s) = fs_contents s"
  by (auto simp: fs_op_defs Let_def split: io_outcome.splits)

lemma fs_flushed_ops [simp]:
  "fs_flushed (fs_seek off s) = fs_flushed s"
  "fs_flushed (snd (fs_read n buf s)) = fs_flushed s"
  "fs_flushed (fs_write bs s) = fs_flushed s"
  by (auto simp: fs_op_defs Let_def split: io_outcome.splits)

text \<open>The error state is sticky, and a stream in error transfers nothing.\<close>

lemma fs_fail_sticky:
  assumes "fs_fail s"
  shows "fs_fail (fs_seek off s)" and "fs_fail (snd (fs_read n buf s))"
    and "fs_fail (fs_write bs s)" and "fs_fail (fs_flush s)"
    and "fst (fs_read n buf s) = buf" and "fs_contents (fs_write bs s) = fs_contents s"
    and "fs_flushed (fs_flush s) = fs_flushed s"
  using assms by (simp_all add: fs_op_defs)

lemma length_fs_read:
  assumes "length buf = n"
  shows "length (fst (fs_read n buf s)) = n"
  using assms by (auto simp: fs_op_defs Let_def split: io_outcome.splits)

text \<open>Effects of the operations that succeed.\<close>

lemma fs_seek_ok:
  assumes "\<not> fs_fail (fs_seek off s)"
  shows "\<not> fs_fail s" and "fs_is_open s" and "fs_pos (fs_seek off s) = unat off"
  using assms by (auto simp: fs_op_defs split: if_splits io_outcome.splits)

lemma fs_read_ok:
  assumes "\<not> fs_fail (snd (fs_read n buf s))" and "length buf = n"
  shows "fst (fs_read n buf s) = read_at (fs_pos s) n (fs_contents s)"
    and "n \<le> length (fs_contents s) - fs_pos s"
  using assms by (auto simp: fs_op_defs Let_def split: if_splits io_outcome.splits)

lemma fs_write_ok:
  assumes "\<not> fs_fail (fs_write bs s)"
  shows "fs_contents (fs_write bs s) = fs_put (fs_pos s) bs (fs_contents s)"
  using assms by (auto simp: fs_op_defs split: if_splits io_outcome.splits)

lemma fs_write_contents:
  "\<exists>k. fs_contents (fs_write bs s) = fs_put (fs_pos s) (take k bs) (fs_contents s)"
proof (cases "fs_fail s \<or> \<not> fs_is_open s")
  case True
  then have "fs_contents (fs_write bs s) = fs_put (fs_pos s) (take 0 bs) (fs_contents s)"
    by (auto simp: fs_op_defs)
  then show ?thesis ..
next
  case False
  show ?thesis
  proof (cases "fs_env s (fs_tick s)")
    case IoOk
    with False have "fs_contents (fs_write bs s) = fs_put (fs_pos s) (take (length bs) bs) (fs_contents s)"
      by (simp add: fs_op_defs)
    then show ?thesis ..
  next
    case (IoFail k)
    with False have "fs_contents (fs_write bs s) = fs_put (fs_pos s) (take k bs) (fs_contents s)"
      by (simp add: fs_op_defs)
    then show ?thesis ..
  qed
qed

lemma fs_write_failed_before: "fs_fail s \<Longrightarrow> fs_contents (fs_write bs s) = fs_contents s"
  by (simp add: fs_op_defs)

text \<open>On a reliable open stream nothing fails but a seek to a negative offset or a read past the end.\<close>

lemma fs_seek_reliable:
  assumes "fs_reliable s" and "fs_is_open s" and "\<not> fs_fail s" and "0 \<le> sint off"
  shows "\<not> fs_fail (fs_seek off s)" and "fs_pos (fs_seek off s) = unat off"
  using assms by (simp_all add: fs_op_defs fs_reliable_def)

lemma fs_read_reliable:
  assumes "fs_reliable s" and "fs_is_open s" and "\<not> fs_fail s"
    and "fs_pos s + n \<le> length (fs_contents s)" and "length buf = n"
  shows "\<not> fs_fail (snd (fs_read n buf s))"
    and "fst (fs_read n buf s) = read_at (fs_pos s) n (fs_contents s)"
  using assms by (simp_all add: fs_op_defs fs_reliable_def Let_def)

lemma fs_write_reliable:
  assumes "fs_reliable s" and "fs_is_open s" and "\<not> fs_fail s"
  shows "\<not> fs_fail (fs_write bs s)"
    and "fs_contents (fs_write bs s) = fs_put (fs_pos s) bs (fs_contents s)"
  using assms by (simp_all add: fs_op_defs fs_reliable_def)

lemma fs_flush_reliable:
  assumes "fs_reliable s" and "fs_is_open s" and "\<not> fs_fail s"
  shows "\<not> fs_fail (fs_flush s)" and "fs_flushed (fs_flush s) = fs_contents s"
  using assms by (simp_all add: fs_op_defs fs_reliable_def)

lemma fs_put_nonempty [simp]: "bs \<noteq> [] \<Longrightarrow> fs_put off bs xs = write_at off bs xs"
  by (simp add: fs_put_def)

lemma length_fs_put: "length xs \<le> length (fs_put off bs xs)"
  by (simp add: fs_put_def)

lemma read_fs_put_before:
  assumes "a + n \<le> off" and "a + n \<le> length xs"
  shows "read_at a n (fs_put off bs xs) = read_at a n xs"
  using assms by (simp add: fs_put_def read_write_before)

lemma read_fs_put_after:
  assumes "off + length bs \<le> a"
  shows "read_at a n (fs_put off bs xs) = read_at a n xs"
  using assms by (simp add: fs_put_def read_write_after)

end
