(* ===== verification/Disk_Manager.thy ===== *)
theory Disk_Manager
  imports Page File_Stream
begin

text \<open>
  \<open>src/storage/disk_manager.hpp\<close> and \<open>disk_manager.cpp\<close>: one data file seen as an array of pages.
  The logical content of the file is \<open>stored_page\<close>: what \<open>read_page\<close> accepts at an identifier, that
  is, a complete block whose checksum verifies after the identifier has been written into its
  header. The lemmas give the effect of every operation on it, on success and under I/O failures,
  and the section at the end states them as the contract \<open>page_store\<close> on which the buffer pool
  relies. \<open>io_mutex_\<close> makes each operation atomic.
\<close>

section \<open>State and operations\<close>

record DiskManager =
  data_file :: fstream
  file_present :: bool \<comment> \<open>whether \<open>data.db\<close> exists\<close>
  next_page_id :: PageId
  dm_initialized :: bool

definition DiskManager_new :: "bytes option \<Rightarrow> (nat \<Rightarrow> io_outcome) \<Rightarrow> DiskManager" where
  "DiskManager_new file env =
     \<lparr>data_file = \<lparr>fs_contents = (case file of None \<Rightarrow> [] | Some c \<Rightarrow> c),
        fs_flushed = (case file of None \<Rightarrow> [] | Some c \<Rightarrow> c),
        fs_is_open = False, fs_fail = False, fs_pos = 0, fs_env = env, fs_tick = 0\<rparr>,
      file_present = (file \<noteq> None), next_page_id = 0, dm_initialized = False\<rparr>"

text \<open>The end of \<open>initialize\<close>: count the existing pages.\<close>

definition disk_count_pages :: "DiskManager \<Rightarrow> DiskManager" where
  "disk_count_pages dm =
     (let f = fs_seek_end (data_file dm); file_size = fs_tell f
      in dm\<lparr>data_file := f, next_page_id := ucast (file_size div of_nat PAGE_SIZE),
            dm_initialized := True\<rparr>)"

definition disk_initialize :: "DiskManager \<Rightarrow> bool \<times> DiskManager" where
  "disk_initialize dm =
     (if dm_initialized dm then (True, dm)
      else case fs_next (data_file dm) of
        (IoFail _, f) \<Rightarrow> (False, dm\<lparr>data_file := f\<rparr>) \<comment> \<open>\<open>create_directories\<close> failed\<close>
      | (IoOk, f) \<Rightarrow>
          (let f1 = fs_open_inout (file_present dm) f
           in if fs_is_open f1 then (True, disk_count_pages (dm\<lparr>data_file := f1\<rparr>))
              else let f2 = fs_open_out f1
                   in if \<not> fs_is_open f2 then (False, dm\<lparr>data_file := f2\<rparr>)
                      else let f4 = fs_open_inout True (fs_close f2);
                               dm4 = dm\<lparr>data_file := f4, file_present := True\<rparr>
                           in if \<not> fs_is_open f4 then (False, dm4) else (True, disk_count_pages dm4)))"

definition disk_shutdown :: "DiskManager \<Rightarrow> DiskManager" where
  "disk_shutdown dm =
     (if \<not> dm_initialized dm then dm
      else let f = data_file dm
           in dm\<lparr>data_file := (if fs_is_open f then fs_close (fs_flush f) else f),
                 dm_initialized := False\<rparr>)"

definition page_offset :: "PageId \<Rightarrow> u64" where
  "page_offset i = ucast i * of_nat PAGE_SIZE"

definition read_page :: "PageId \<Rightarrow> Page \<Rightarrow> DiskManager \<Rightarrow> bool \<times> Page \<times> DiskManager" where
  "read_page i page dm =
     (if next_page_id dm \<le> i then (False, page, dm)
      else let f1 = fs_seek (page_offset i) (data_file dm)
           in if \<not> fs_ok f1 then (False, page, dm\<lparr>data_file := f1\<rparr>)
              else let (buf, f2) = fs_read PAGE_SIZE (page_data page) f1;
                       page1 = page\<lparr>page_data := buf\<rparr>;
                       dm2 = dm\<lparr>data_file := f2\<rparr>
                   in if \<not> fs_ok f2 then (False, page1, dm2)
                      else let page2 = mark_clean (set_page_id i page1)
                           in (verify_checksum page2, page2, dm2))"

text \<open>\<open>write_page\<close> updates the checksum in the caller's page through a \<open>const_cast\<close>.\<close>

definition write_page :: "PageId \<Rightarrow> Page \<Rightarrow> DiskManager \<Rightarrow> bool \<times> Page \<times> DiskManager" where
  "write_page i page dm =
     (let page1 = update_checksum page;
          f1 = fs_seek (page_offset i) (data_file dm)
      in if \<not> fs_ok f1 then (False, page1, dm\<lparr>data_file := f1\<rparr>)
         else let f2 = fs_write (page_data page1) f1
              in (fs_ok f2, page1, dm\<lparr>data_file := f2\<rparr>))"

text \<open>The file is extended by writing the last byte of the new page; the outcome is not checked.\<close>

definition allocate_page :: "DiskManager \<Rightarrow> PageId \<times> DiskManager" where
  "allocate_page dm =
     (let new_id = next_page_id dm;
          offset = ucast (new_id + 1) * of_nat PAGE_SIZE - 1 :: u64;
          f = fs_flush (fs_write [0] (fs_seek offset (data_file dm)))
      in (new_id, dm\<lparr>next_page_id := new_id + 1, data_file := f\<rparr>))"

definition deallocate_page :: "PageId \<Rightarrow> DiskManager \<Rightarrow> DiskManager" where
  "deallocate_page i dm = dm"

definition disk_sync :: "DiskManager \<Rightarrow> DiskManager" where
  "disk_sync dm = (if fs_is_open (data_file dm) then dm\<lparr>data_file := fs_flush (data_file dm)\<rparr> else dm)"

definition data_file_size :: "DiskManager \<Rightarrow> u64" where
  "data_file_size dm = ucast (next_page_id dm) * of_nat PAGE_SIZE"

section \<open>Logical content and invariant\<close>

definition file_bytes :: "DiskManager \<Rightarrow> bytes" where
  "file_bytes dm = fs_contents (data_file dm)"

definition block_at :: "bytes \<Rightarrow> PageId \<Rightarrow> bytes" where
  "block_at file i = read_at (unat i * PAGE_SIZE) PAGE_SIZE file"

text \<open>The page image that \<open>read_page\<close> builds from a block before it verifies the checksum.\<close>

definition block_image :: "bytes \<Rightarrow> PageId \<Rightarrow> bytes" where
  "block_image file i = write_at off_page_id (le_bytes 4 i) (block_at file i)"

definition block_valid :: "bytes \<Rightarrow> PageId \<Rightarrow> bool" where
  "block_valid file i \<longleftrightarrow>
     length (block_at file i) = PAGE_SIZE \<and>
     data_checksum (block_image file i) = le_word (read_at off_checksum 4 (block_image file i))"

definition stored_page :: "DiskManager \<Rightarrow> PageId \<Rightarrow> bytes option" where
  "stored_page dm i =
     (if i < next_page_id dm \<and> block_valid (file_bytes dm) i
      then Some (page_body (block_image (file_bytes dm) i)) else None)"

text \<open>
  The file is open, and unless the stream is in error it holds a complete block for every allocated
  identifier.
\<close>

definition disk_inv :: "DiskManager \<Rightarrow> bool" where
  "disk_inv dm \<longleftrightarrow>
     fs_is_open (data_file dm) \<and>
     (\<not> fs_fail (data_file dm) \<longrightarrow> unat (next_page_id dm) * PAGE_SIZE \<le> length (file_bytes dm))"

definition disk_reliable :: "DiskManager \<Rightarrow> bool" where
  "disk_reliable dm \<longleftrightarrow> fs_reliable (data_file dm) \<and> \<not> fs_fail (data_file dm)"

section \<open>Offsets\<close>

lemma u32_less: "unat (i :: u32) < 4294967296"
  using unsigned_less [of i, where ?'a = nat] by simp

lemma page_offset_unat [simp]: "unat (page_offset i) = unat i * PAGE_SIZE"
  using u32_less [of i]
  by (simp add: page_offset_def PAGE_SIZE_def unat_word_ariths unsigned_ucast_eq take_bit_eq_mod)

lemma sint_nonneg_unat:
  assumes "unat (w :: u64) < 2 ^ 63"
  shows "0 \<le> sint w"
proof -
  have "\<not> bit (unat w) 63" using assms by (simp add: bit_iff_odd)
  then have "\<not> bit w 63" by (simp add: bit_unsigned_iff)
  then show ?thesis using bit_last_iff [of w] by simp
qed

lemma page_offset_sint [simp]: "0 \<le> sint (page_offset i)"
  using u32_less [of i] by (intro sint_nonneg_unat) (simp add: PAGE_SIZE_def)

lemma u32_suc_unat: "(i :: u32) \<noteq> - 1 \<Longrightarrow> unat (i + 1) = unat i + 1"
  using unatSuc [of i] by (simp add: add.commute eq_neg_iff_add_eq_0)

lemma alloc_offset_unat:
  assumes "(i :: PageId) \<noteq> - 1"
  shows "unat (ucast (i + 1) * of_nat PAGE_SIZE - 1 :: u64) = unat i * PAGE_SIZE + (PAGE_SIZE - 1)"
proof -
  have i: "unat (i + 1) = unat i + 1"
    using assms u32_suc_unat by blast
  have "unat (page_offset (i + 1) - 1) = unat (page_offset (i + 1)) - 1"
    by (rule unat_minus_one) (metis i PAGE_SIZE_def mult_eq_0_iff page_offset_unat unat_0 add_is_0 zero_neq_numeral zero_neq_one)
  moreover have "ucast (i + 1) * of_nat PAGE_SIZE - 1 = page_offset (i + 1) - 1"
    by (simp add: page_offset_def)
  ultimately show ?thesis by (simp add: i PAGE_SIZE_def)
qed

lemma alloc_offset_sint:
  assumes "(i :: PageId) \<noteq> - 1"
  shows "0 \<le> sint (ucast (i + 1) * of_nat PAGE_SIZE - 1 :: u64)"
  using alloc_offset_unat [OF assms] u32_less [of i]
  by (intro sint_nonneg_unat) (simp add: PAGE_SIZE_def)

lemma block_bounds:
  assumes "(i :: PageId) < n"
  shows "unat i * PAGE_SIZE + PAGE_SIZE \<le> unat n * PAGE_SIZE"
proof -
  have "unat i + 1 \<le> unat n" using assms by (simp add: word_less_nat_alt)
  then have "(unat i + 1) * PAGE_SIZE \<le> unat n * PAGE_SIZE" by (rule mult_le_mono1)
  then show ?thesis by simp
qed

lemma block_disjoint:
  assumes "(i :: PageId) \<noteq> j"
  shows "unat i * PAGE_SIZE + PAGE_SIZE \<le> unat j * PAGE_SIZE
       \<or> unat j * PAGE_SIZE + PAGE_SIZE \<le> unat i * PAGE_SIZE"
proof (cases "i < j")
  case True
  then show ?thesis using block_bounds by blast
next
  case False
  with assms have "j < i" by simp
  then show ?thesis using block_bounds by blast
qed

section \<open>Reading\<close>

lemma read_page_data_length:
  assumes "wf_page p" and "read_page i p dm = (b, p', dm')"
  shows "wf_page p'"
  using assms length_fs_read [of "page_data p" PAGE_SIZE "fs_seek (page_offset i) (data_file dm)"]
  by (auto simp: read_page_def Let_def wf_page_def set_page_id_def mark_clean_def layout_defs
      split: if_splits prod.splits)

lemma read_page_frame:
  assumes "read_page i p dm = (b, p', dm')"
  shows "file_bytes dm' = file_bytes dm" and "next_page_id dm' = next_page_id dm"
    and "fs_is_open (data_file dm') = fs_is_open (data_file dm)"
    and "stored_page dm' = stored_page dm" and "pin_count p' = pin_count p"
    and "fs_flushed (data_file dm') = fs_flushed (data_file dm)"
  using assms
    fs_contents_ops(2) [of PAGE_SIZE "page_data p" "fs_seek (page_offset i) (data_file dm)"]
    fs_is_open_ops(2) [of PAGE_SIZE "page_data p" "fs_seek (page_offset i) (data_file dm)"]
    fs_flushed_ops(2) [of PAGE_SIZE "page_data p" "fs_seek (page_offset i) (data_file dm)"]
  by (auto simp: read_page_def Let_def file_bytes_def stored_page_def fun_eq_iff
      simp del: fs_contents_ops(2) fs_is_open_ops(2) fs_flushed_ops(2)
      split: if_splits prod.splits)

lemma read_page_ok:
  assumes "read_page i p dm = (True, p', dm')" and "wf_page p"
  shows "stored_page dm i = Some (page_body (page_data p'))"
    and "page_data p' = block_image (file_bytes dm) i"
    and "page_id p' = i" and "\<not> is_dirty p'" and "i < next_page_id dm"
proof -
  let ?f = "fs_seek (page_offset i) (data_file dm)"
  obtain buf f2 where r: "fs_read PAGE_SIZE (page_data p) ?f = (buf, f2)" by fastforce
  from assms(1) have lt: "i < next_page_id dm" and ok: "\<not> fs_fail ?f" "\<not> fs_fail f2"
    and p': "p' = mark_clean (set_page_id i (p\<lparr>page_data := buf\<rparr>))" and v: "verify_checksum p'"
    by (auto simp: read_page_def Let_def r fs_ok_def split: if_splits)
  have len: "length (page_data p) = PAGE_SIZE" using assms(2) by (simp add: wf_page_def)
  have buf: "buf = block_at (file_bytes dm) i"
    using fs_read_ok(1) [of PAGE_SIZE "page_data p" ?f] fs_seek_ok(3) [OF ok(1)] len ok(2)
    by (simp add: r block_at_def file_bytes_def)
  have "PAGE_SIZE \<le> length (file_bytes dm) - unat i * PAGE_SIZE"
    using fs_read_ok(2) [of PAGE_SIZE "page_data p" ?f] fs_seek_ok(3) [OF ok(1)] len ok(2)
    by (simp add: r file_bytes_def)
  then have full: "length (block_at (file_bytes dm) i) = PAGE_SIZE" by (simp add: block_at_def)
  show d: "page_data p' = block_image (file_bytes dm) i"
    by (simp add: p' buf block_image_def set_page_id_def)
  have "block_valid (file_bytes dm) i"
    using v full by (simp add: block_valid_def verify_checksum_def compute_checksum_def header_def
        header_view_def flip: d)
  then show "stored_page dm i = Some (page_body (page_data p'))"
    using lt by (simp add: stored_page_def d)
  show "page_id p' = i" "\<not> is_dirty p'" "i < next_page_id dm" using lt by (simp_all add: p')
qed

text \<open>Without I/O failures a read is refused exactly when there is no valid page to read.\<close>

lemma read_page_reliable:
  assumes "disk_inv dm" and "disk_reliable dm" and "wf_page p"
  shows "fst (read_page i p dm) \<longleftrightarrow> stored_page dm i \<noteq> None"
proof (cases "i < next_page_id dm")
  case False
  then show ?thesis by (simp add: read_page_def stored_page_def not_less)
next
  case True
  let ?f = "fs_seek (page_offset i) (data_file dm)"
  have f: "fs_reliable (data_file dm)" "fs_is_open (data_file dm)" "\<not> fs_fail (data_file dm)"
    and len: "unat (next_page_id dm) * PAGE_SIZE \<le> length (file_bytes dm)"
    using assms(1,2) by (auto simp: disk_inv_def disk_reliable_def)
  have s: "\<not> fs_fail ?f" "fs_pos ?f = unat i * PAGE_SIZE"
    using fs_seek_reliable [OF f, of "page_offset i"] by simp_all
  have b: "unat i * PAGE_SIZE + PAGE_SIZE \<le> length (file_bytes dm)"
    using block_bounds [OF True] len by linarith
  obtain buf f2 where r: "fs_read PAGE_SIZE (page_data p) ?f = (buf, f2)" by fastforce
  have r': "\<not> fs_fail f2" "buf = block_at (file_bytes dm) i"
    using fs_read_reliable [of ?f PAGE_SIZE "page_data p"] f s b assms(3)
    by (auto simp: r block_at_def file_bytes_def wf_page_def)
  have "length (block_at (file_bytes dm) i) = PAGE_SIZE" using b by (simp add: block_at_def)
  then show ?thesis
    using True s(1) r'
    by (simp add: read_page_def Let_def r fs_ok_def stored_page_def block_valid_def verify_checksum_def
        compute_checksum_def header_def header_view_def block_image_def set_page_id_def not_le)
qed

section \<open>Writing\<close>

lemma write_page_unfold:
  assumes "write_page i p dm = (b, p', dm')"
  shows "p' = update_checksum p" and "next_page_id dm' = next_page_id dm"
    and "fs_is_open (data_file dm') = fs_is_open (data_file dm)"
    and "fs_fail (data_file dm) \<Longrightarrow> \<not> b \<and> fs_fail (data_file dm') \<and> file_bytes dm' = file_bytes dm"
    and "b \<longleftrightarrow> \<not> fs_fail (data_file dm')"
    and "fs_flushed (data_file dm') = fs_flushed (data_file dm)"
    and "fs_env (data_file dm') = fs_env (data_file dm)"
  using assms by (auto simp: write_page_def Let_def fs_ok_def file_bytes_def fs_fail_sticky
      split: if_splits)

lemma write_page_file:
  assumes "write_page i p dm = (b, p', dm')"
  shows "\<exists>k. file_bytes dm' = fs_put (unat i * PAGE_SIZE) (take k (page_data p')) (file_bytes dm)"
    and "b \<Longrightarrow> wf_page p \<Longrightarrow> file_bytes dm' = write_at (unat i * PAGE_SIZE) (page_data p') (file_bytes dm)"
proof -
  let ?f = "fs_seek (page_offset i) (data_file dm)"
  show "\<exists>k. file_bytes dm' = fs_put (unat i * PAGE_SIZE) (take k (page_data p')) (file_bytes dm)"
  proof (cases "fs_fail ?f")
    case True
    with assms have "file_bytes dm' = fs_put (unat i * PAGE_SIZE) (take 0 (page_data p')) (file_bytes dm)"
      by (auto simp: write_page_def Let_def fs_ok_def file_bytes_def fs_put_def)
    then show ?thesis ..
  next
    case False
    with assms fs_write_contents [of "page_data p'" ?f] fs_seek_ok(3) [OF False] show ?thesis
      by (auto simp: write_page_def Let_def fs_ok_def file_bytes_def)
  qed
  show "file_bytes dm' = write_at (unat i * PAGE_SIZE) (page_data p') (file_bytes dm)"
    if "b" "wf_page p"
  proof -
    from assms that(1) have ok: "\<not> fs_fail ?f" "\<not> fs_fail (fs_write (page_data p') ?f)"
      and dm': "file_bytes dm' = fs_contents (fs_write (page_data p') ?f)"
      by (auto simp: write_page_def Let_def fs_ok_def file_bytes_def split: if_splits)
    have "wf_page p'" using that(2) write_page_unfold(1) [OF assms] by simp
    then have "page_data p' \<noteq> []" by (auto simp: wf_page_def PAGE_SIZE_def)
    then show ?thesis unfolding dm' using fs_write_ok [OF ok(2)] fs_seek_ok(3) [OF ok(1)]
      by (simp add: file_bytes_def)
  qed
qed

lemma write_page_inv:
  assumes "write_page i p dm = (b, p', dm')" and "disk_inv dm"
  shows "disk_inv dm'"
proof -
  obtain k where "file_bytes dm' = fs_put (unat i * PAGE_SIZE) (take k (page_data p')) (file_bytes dm)"
    using write_page_file(1) [OF assms(1)] by blast
  then have "length (file_bytes dm) \<le> length (file_bytes dm')" using length_fs_put by simp
  then show ?thesis
    using assms write_page_unfold(2-5) [OF assms(1)] by (auto simp: disk_inv_def)
qed

text \<open>A write touches no other allocated page, whether it succeeds or fails half-way.\<close>

lemma write_page_other_block:
  assumes "write_page i p dm = (b, p', dm')" and "disk_inv dm" and "wf_page p"
    and "j \<noteq> i" and "j < next_page_id dm"
  shows "block_at (file_bytes dm') j = block_at (file_bytes dm) j"
proof (cases "fs_fail (data_file dm)")
  case True
  then show ?thesis using write_page_unfold(4) [OF assms(1)] by simp
next
  case False
  with assms(2) have len: "unat (next_page_id dm) * PAGE_SIZE \<le> length (file_bytes dm)"
    by (simp add: disk_inv_def)
  obtain k where k: "file_bytes dm' = fs_put (unat i * PAGE_SIZE) (take k (page_data p')) (file_bytes dm)"
    using write_page_file(1) [OF assms(1)] by blast
  have short: "length (take k (page_data p')) \<le> PAGE_SIZE"
    using assms(3) write_page_unfold(1) [OF assms(1)] wf_page_ops(6) [of p] by (simp add: wf_page_def)
  from block_disjoint [OF assms(4)] show ?thesis
  proof
    assume "unat j * PAGE_SIZE + PAGE_SIZE \<le> unat i * PAGE_SIZE"
    moreover have "unat j * PAGE_SIZE + PAGE_SIZE \<le> length (file_bytes dm)"
      using block_bounds [OF assms(5)] len by linarith
    ultimately show ?thesis unfolding block_at_def k by (rule read_fs_put_before)
  next
    assume "unat i * PAGE_SIZE + PAGE_SIZE \<le> unat j * PAGE_SIZE"
    then have "unat i * PAGE_SIZE + length (take k (page_data p')) \<le> unat j * PAGE_SIZE"
      using short by linarith
    then show ?thesis unfolding block_at_def k by (rule read_fs_put_after)
  qed
qed

lemma stored_page_cong:
  assumes "next_page_id dm' = next_page_id dm"
    and "i < next_page_id dm \<Longrightarrow> block_at (file_bytes dm') i = block_at (file_bytes dm) i"
  shows "stored_page dm' i = stored_page dm i"
  using assms by (auto simp: stored_page_def block_valid_def block_image_def)

lemma write_page_other:
  assumes "write_page i p dm = (b, p', dm')" and "disk_inv dm" and "wf_page p" and "j \<noteq> i"
  shows "stored_page dm' j = stored_page dm j"
  using assms write_page_unfold(2) [OF assms(1)] write_page_other_block [OF assms]
  by (intro stored_page_cong) auto

lemma write_page_same:
  assumes "write_page i p dm = (True, p', dm')" and "wf_page p"
    and "header_page_id (page_data p) = i" and "i < next_page_id dm"
  shows "stored_page dm' i = Some (page_body (page_data p))"
proof -
  have p': "p' = update_checksum p" and n: "next_page_id dm' = next_page_id dm"
    using write_page_unfold [OF assms(1)] by simp_all
  have wf: "wf_page p'" using assms(2) by (simp add: p')
  have "block_at (file_bytes dm') i = page_data p'"
    using write_page_file(2) [OF assms(1) _ assms(2)] wf read_write_same [of _ "page_data p'"]
    by (simp add: block_at_def wf_page_def)
  moreover have "header_page_id (page_data p') = i" using assms(2,3) by (simp add: p')
  ultimately have image: "block_image (file_bytes dm') i = page_data p'"
    using set_page_id_same [OF wf] by (simp add: block_image_def set_page_id_def)
  have "verify_checksum p'" unfolding p' using assms(2) by (rule update_checksum_verifies)
  then have "block_valid (file_bytes dm') i"
    using wf \<open>block_at (file_bytes dm') i = page_data p'\<close>
    by (simp add: block_valid_def image verify_checksum_def compute_checksum_def header_def
        header_view_def wf_page_def)
  then show ?thesis using assms(4) by (simp add: stored_page_def image n p')
qed

lemma write_page_reliable:
  assumes "write_page i p dm = (b, p', dm')" and "disk_inv dm" and "disk_reliable dm"
  shows "b" and "disk_reliable dm'"
proof -
  let ?f = "fs_seek (page_offset i) (data_file dm)"
  have f: "fs_reliable (data_file dm)" "fs_is_open (data_file dm)" "\<not> fs_fail (data_file dm)"
    using assms(2,3) by (auto simp: disk_inv_def disk_reliable_def)
  have s: "\<not> fs_fail ?f" using fs_seek_reliable(1) [OF f, of "page_offset i"] by simp
  have "\<not> fs_fail (fs_write (page_data (update_checksum p)) ?f)"
    by (rule fs_write_reliable(1)) (use f s in simp_all)
  with assms(1) s show "b" by (auto simp: write_page_def Let_def fs_ok_def)
  with f(1) write_page_unfold [OF assms(1)] show "disk_reliable dm'"
    by (simp add: disk_reliable_def fs_reliable_def)
qed

section \<open>Allocating and synchronising\<close>

lemma allocate_page_unfold:
  assumes "allocate_page dm = (i, dm')"
  shows "i = next_page_id dm" and "next_page_id dm' = next_page_id dm + 1"
    and "fs_is_open (data_file dm') = fs_is_open (data_file dm)"
    and "fs_env (data_file dm') = fs_env (data_file dm)"
    and "fs_fail (data_file dm) \<Longrightarrow> fs_fail (data_file dm') \<and> file_bytes dm' = file_bytes dm"
  using assms by (auto simp: allocate_page_def Let_def file_bytes_def fs_fail_sticky)

lemma allocate_page_file:
  assumes "allocate_page dm = (i, dm')" and "i \<noteq> - 1"
  shows "file_bytes dm' = file_bytes dm \<or>
         file_bytes dm' = write_at (unat i * PAGE_SIZE + (PAGE_SIZE - 1)) [0] (file_bytes dm)"
    and "\<not> fs_fail (data_file dm') \<Longrightarrow>
         file_bytes dm' = write_at (unat i * PAGE_SIZE + (PAGE_SIZE - 1)) [0] (file_bytes dm)"
proof -
  let ?off = "ucast (i + 1) * of_nat PAGE_SIZE - 1 :: u64"
  let ?s = "fs_seek ?off (data_file dm)"
  have dm': "data_file dm' = fs_flush (fs_write [0] ?s)"
    using assms(1) by (auto simp: allocate_page_def Let_def)
  then have fb: "file_bytes dm' = fs_contents (fs_write [0] ?s)" by (simp add: file_bytes_def)
  show "file_bytes dm' = file_bytes dm \<or>
        file_bytes dm' = write_at (unat i * PAGE_SIZE + (PAGE_SIZE - 1)) [0] (file_bytes dm)"
  proof (cases "fs_fail ?s")
    case True
    then show ?thesis unfolding fb using fs_fail_sticky(6) [OF True, of "[0]"] by (simp add: file_bytes_def)
  next
    case False
    obtain k where "fs_contents (fs_write [0] ?s) = fs_put (fs_pos ?s) (take k [0]) (fs_contents ?s)"
      using fs_write_contents by blast
    then show ?thesis unfolding fb using fs_seek_ok(3) [OF False] alloc_offset_unat [OF assms(2)]
      by (cases k) (simp_all add: fs_put_def file_bytes_def)
  qed
  show "file_bytes dm' = write_at (unat i * PAGE_SIZE + (PAGE_SIZE - 1)) [0] (file_bytes dm)"
    if "\<not> fs_fail (data_file dm')"
  proof -
    have w: "\<not> fs_fail (fs_write [0] ?s)" using that fs_fail_sticky(4) unfolding dm' by blast
    then have s: "\<not> fs_fail ?s" using fs_fail_sticky(3) by blast
    show ?thesis unfolding fb using fs_write_ok [OF w] fs_seek_ok(3) [OF s] alloc_offset_unat [OF assms(2)]
      by (simp add: file_bytes_def)
  qed
qed

lemma allocate_page_inv:
  assumes "allocate_page dm = (i, dm')" and "i \<noteq> - 1" and "disk_inv dm"
  shows "disk_inv dm'"
proof -
  have "unat (next_page_id dm') * PAGE_SIZE \<le> length (file_bytes dm')"
    if "\<not> fs_fail (data_file dm')"
    using allocate_page_file(2) [OF assms(1,2) that] allocate_page_unfold(1,2) [OF assms(1)]
      u32_suc_unat [of i] assms(2)
    by (simp add: PAGE_SIZE_def)
  with assms(3) allocate_page_unfold(3) [OF assms(1)] show ?thesis by (simp add: disk_inv_def)
qed

lemma allocate_page_other:
  assumes "allocate_page dm = (i, dm')" and "i \<noteq> - 1" and "disk_inv dm" and "j < next_page_id dm"
  shows "stored_page dm' j = stored_page dm j"
proof -
  have i: "i = next_page_id dm" and n: "next_page_id dm' = next_page_id dm + 1"
    using allocate_page_unfold [OF assms(1)] by simp_all
  have "j < next_page_id dm'"
    using assms(2,4) u32_suc_unat [of i] by (simp add: n i word_less_nat_alt)
  moreover have "block_at (file_bytes dm') j = block_at (file_bytes dm) j"
  proof (cases "fs_fail (data_file dm)")
    case True
    then show ?thesis using allocate_page_unfold(5) [OF assms(1)] by simp
  next
    case False
    with assms(3) have "unat (next_page_id dm) * PAGE_SIZE \<le> length (file_bytes dm)"
      by (simp add: disk_inv_def)
    moreover note block_bounds [OF assms(4)] allocate_page_file(1) [OF assms(1,2)]
    ultimately show ?thesis unfolding block_at_def by (auto simp: i intro!: read_write_before)
  qed
  ultimately show ?thesis
    using assms(4) by (simp add: stored_page_def block_valid_def block_image_def)
qed

lemma allocate_page_reliable:
  assumes "allocate_page dm = (i, dm')" and "i \<noteq> - 1" and "disk_inv dm" and "disk_reliable dm"
  shows "disk_reliable dm'"
proof -
  let ?s = "fs_seek (ucast (i + 1) * of_nat PAGE_SIZE - 1) (data_file dm)"
  have f: "fs_reliable (data_file dm)" "fs_is_open (data_file dm)" "\<not> fs_fail (data_file dm)"
    using assms(3,4) by (auto simp: disk_inv_def disk_reliable_def)
  have "data_file dm' = fs_flush (fs_write [0] ?s)"
    using assms(1) by (auto simp: allocate_page_def Let_def)
  moreover have s: "\<not> fs_fail ?s" using fs_seek_reliable(1) [OF f alloc_offset_sint [OF assms(2)]] .
  moreover have w: "\<not> fs_fail (fs_write [0] ?s)" by (rule fs_write_reliable(1)) (use f s in simp_all)
  moreover have "\<not> fs_fail (fs_flush (fs_write [0] ?s))" by (rule fs_flush_reliable(1)) (use f w in simp_all)
  ultimately show ?thesis using f by (simp add: disk_reliable_def)
qed

lemma disk_sync_simps [simp]:
  "file_bytes (disk_sync dm) = file_bytes dm" "next_page_id (disk_sync dm) = next_page_id dm"
  "stored_page (disk_sync dm) = stored_page dm"
  by (simp_all add: disk_sync_def file_bytes_def stored_page_def fun_eq_iff)

lemma disk_sync_inv: "disk_inv dm \<Longrightarrow> disk_inv (disk_sync dm)"
  using fs_fail_sticky(4) by (auto simp: disk_inv_def disk_sync_def file_bytes_def)

lemma disk_sync_reliable:
  assumes "disk_inv dm" and "disk_reliable dm"
  shows "disk_reliable (disk_sync dm)" and "fs_flushed (data_file (disk_sync dm)) = file_bytes dm"
  using assms fs_flush_reliable [of "data_file dm"]
  by (auto simp: disk_inv_def disk_reliable_def disk_sync_def file_bytes_def)

section \<open>Opening\<close>

lemma disk_count_pages_inv:
  assumes "fs_is_open (data_file dm)"
  shows "disk_inv (disk_count_pages dm)"
proof -
  let ?f = "fs_seek_end (data_file dm)"
  have open': "fs_is_open ?f" and contents: "fs_contents ?f = fs_contents (data_file dm)"
    and pos: "\<not> fs_fail ?f \<Longrightarrow> fs_pos ?f = length (fs_contents (data_file dm))"
    using assms by (auto simp: fs_seek_end_def fs_next_def split: io_outcome.splits if_splits)
  have "unat (ucast (fs_tell ?f div of_nat PAGE_SIZE) :: PageId) * PAGE_SIZE \<le> length (file_bytes dm)"
    if "\<not> fs_fail ?f"
  proof -
    let ?n = "length (file_bytes dm)"
    have "unat (ucast (fs_tell ?f div of_nat PAGE_SIZE) :: PageId)
        \<le> unat (fs_tell ?f div of_nat PAGE_SIZE)"
      by (simp add: unsigned_ucast_eq take_bit_nat_less_eq_self)
    also have "\<dots> = unat (fs_tell ?f) div PAGE_SIZE"
      by (simp add: unat_div PAGE_SIZE_def)
    also have "unat (fs_tell ?f) \<le> ?n"
      using that pos by (simp add: fs_tell_def file_bytes_def unsigned_of_nat take_bit_nat_less_eq_self)
    then have "unat (fs_tell ?f) div PAGE_SIZE \<le> ?n div PAGE_SIZE" by (rule div_le_mono)
    finally have "unat (ucast (fs_tell ?f div of_nat PAGE_SIZE) :: PageId) \<le> ?n div PAGE_SIZE" .
    then have "unat (ucast (fs_tell ?f div of_nat PAGE_SIZE) :: PageId) * PAGE_SIZE
        \<le> ?n div PAGE_SIZE * PAGE_SIZE" by (rule mult_le_mono1)
    also have "\<dots> \<le> ?n" by simp
    finally show ?thesis .
  qed
  then show ?thesis
    using open' contents by (simp add: disk_inv_def disk_count_pages_def Let_def file_bytes_def)
qed

lemma disk_initialize_inv:
  assumes "disk_initialize dm = (True, dm')" and "\<not> dm_initialized dm"
  shows "disk_inv dm'" and "dm_initialized dm'"
  using assms by (auto simp: disk_initialize_def Let_def split: io_outcome.splits prod.splits if_splits
      intro!: disk_count_pages_inv) (auto simp: disk_count_pages_def Let_def)

text \<open>Opening a data file that is there: its bytes are kept, and there is one identifier for each complete block.\<close>

lemma block_count: "n < 2 ^ 44 \<Longrightarrow> unat (ucast (of_nat n div of_nat PAGE_SIZE :: u64) :: PageId) = n div PAGE_SIZE"
proof -
  assume n: "n < 2 ^ 44"
  then have "unat (of_nat n div of_nat PAGE_SIZE :: u64) = n div PAGE_SIZE"
    by (simp add: unat_div PAGE_SIZE_def unat_of_nat)
  moreover have "n div PAGE_SIZE < 2 ^ 32" using n by (simp add: PAGE_SIZE_def)
  ultimately show ?thesis by (simp add: unsigned_ucast_eq take_bit_nat_eq_self)
qed

lemma disk_reopen:
  obtains dm where "disk_initialize (DiskManager_new (Some c) (\<lambda>_. IoOk)) = (True, dm)" "file_bytes dm = c"
    "disk_inv dm" "disk_reliable dm" "length c < 2 ^ 44 \<longrightarrow> unat (next_page_id dm) = length c div PAGE_SIZE"
proof -
  let ?d = "DiskManager_new (Some c) (\<lambda>_. IoOk)"
  let ?dm = "snd (disk_initialize ?d)"
  have i: "disk_initialize ?d = (True, ?dm)"
    by (simp add: disk_initialize_def DiskManager_new_def Let_def fs_op_defs)
  show thesis
  proof (rule that [OF i])
    show "disk_inv ?dm" by (rule disk_initialize_inv(1) [OF i]) (simp add: DiskManager_new_def)
    show "file_bytes ?dm = c" "disk_reliable ?dm"
      by (simp_all add: disk_initialize_def DiskManager_new_def disk_count_pages_def Let_def fs_op_defs
          file_bytes_def disk_reliable_def fs_reliable_def)
    show "length c < 2 ^ 44 \<longrightarrow> unat (next_page_id ?dm) = length c div PAGE_SIZE"
      using block_count [of "length c"]
      by (simp add: disk_initialize_def DiskManager_new_def disk_count_pages_def Let_def fs_op_defs)
  qed
qed

section \<open>The stream error is never cleared\<close>

lemma failed_stream_ops:
  assumes "fs_fail (data_file dm)"
  shows "\<not> fst (read_page i p dm)" and "fs_fail (data_file (snd (snd (read_page i p dm))))"
    and "\<not> fst (write_page i p dm)" and "fs_fail (data_file (snd (snd (write_page i p dm))))"
    and "fs_fail (data_file (snd (allocate_page dm)))" and "fs_fail (data_file (disk_sync dm))"
  using assms
  by (auto simp: read_page_def write_page_def allocate_page_def disk_sync_def Let_def fs_ok_def
      fs_fail_sticky split: prod.splits)

section \<open>Pages that were allocated and never written\<close>

lemma zero_block_image: "write_at off_page_id (le_bytes 4 i) (replicate PAGE_SIZE 0) = page_data (Page_new i)"
  by (simp add: Page_new_def)

lemma fresh_page_checksum_field: "le_word (read_at off_checksum 4 (page_data (Page_new i))) = (0 :: u32)"
proof -
  have "read_at off_checksum 4 (page_data (Page_new i)) = replicate 4 0"
    by (simp add: Page_new_def layout_defs read_write_after) (simp add: read_at_def)
  then show ?thesis by (simp add: le_word_def numeral_eq_Suc)
qed

text \<open>The block of a newly allocated page is all zero when the file ends at the allocated pages.\<close>

lemma allocated_block_zero:
  assumes "allocate_page dm = (i, dm')" and "i \<noteq> - 1" and "disk_inv dm" and "disk_reliable dm"
    and "length (file_bytes dm) = unat (next_page_id dm) * PAGE_SIZE"
  shows "block_at (file_bytes dm') i = replicate PAGE_SIZE 0"
proof -
  have "\<not> fs_fail (data_file dm')"
    using allocate_page_reliable [OF assms(1-4)] by (simp add: disk_reliable_def)
  note contents = allocate_page_file(2) [OF assms(1,2) this]
  have i: "i = next_page_id dm" using allocate_page_unfold(1) [OF assms(1)] .
  let ?n = "unat i * PAGE_SIZE"
  have "write_at (?n + (PAGE_SIZE - 1)) [0] (file_bytes dm) = file_bytes dm @ replicate (PAGE_SIZE - 1) 0 @ [0]"
    using assms(5) by (simp add: write_at_def i)
  then show ?thesis
    using assms(5) by (simp add: block_at_def contents read_at_def i replicate_append_same
        flip: replicate_Suc)
qed

lemma fresh_page_stored:
  assumes "allocate_page dm = (i, dm')" and "i \<noteq> - 1" and "disk_inv dm" and "disk_reliable dm"
    and "length (file_bytes dm) = unat (next_page_id dm) * PAGE_SIZE"
  shows "stored_page dm' i \<noteq> None \<longleftrightarrow> data_checksum (page_data (Page_new i)) = 0"
proof -
  have "i < next_page_id dm'"
    using allocate_page_unfold(1,2) [OF assms(1)] assms(2) u32_suc_unat [of i]
    by (simp add: word_less_nat_alt)
  then show ?thesis
    by (simp add: stored_page_def block_valid_def block_image_def allocated_block_zero [OF assms]
        zero_block_image fresh_page_checksum_field)
qed

text \<open>Two identifiers below 256 differ in one byte of the page, so at most one of the two checksums is zero.\<close>

lemma fresh_page_checksums_differ:
  assumes "i \<noteq> j" and "i < 256" and "j < 256"
  shows "data_checksum (page_data (Page_new i)) \<noteq> data_checksum (page_data (Page_new j))"
proof -
  have small: "le_bytes 4 k = [ucast k, 0, 0, 0]" if "k < 256" for k :: PageId
  proof -
    have "unat k < 256" using that by (simp add: word_less_nat_alt)
    moreover have "of_nat (unat k) = (ucast k :: u8)" by simp
    moreover have "(4::nat) = Suc (Suc (Suc (Suc 0)))" by simp
    ultimately show ?thesis by (simp only: le_bytes_def nat_bytes.simps) simp
  qed
  have image: "page_data (Page_new k) = (replicate PAGE_SIZE 0)[0 := ucast k]" if "k < 256" for k
  proof -
    have "PAGE_SIZE = Suc (Suc (Suc (Suc (PAGE_SIZE - 4))))" by (simp add: PAGE_SIZE_def)
    then obtain m where m: "PAGE_SIZE = Suc (Suc (Suc (Suc m)))" by blast
    show ?thesis by (simp add: Page_new_def small [OF that] write_at_def off_page_id_def m)
  qed
  have "(ucast i :: u8) \<noteq> ucast j"
  proof
    assume eq: "(ucast i :: u8) = ucast j"
    have "unat (ucast k :: u8) = unat k" if "k < 256" for k :: PageId
      using that by (simp add: unsigned_ucast_eq take_bit_nat_eq_self_iff word_less_nat_alt)
    with eq assms have "unat i = unat j" by metis
    with assms(1) show False by (simp add: word_unat_eq_iff)
  qed
  then have "data_checksum ((page_data (Page_new j))[0 := ucast i]) \<noteq> data_checksum (page_data (Page_new j))"
    by (intro checksum_byte_sensitive)
       (auto simp: image [OF assms(3)] layout_defs)
  then show ?thesis by (simp add: image [OF assms(2)] image [OF assms(3)])
qed

section \<open>The contract of a page store\<close>

text \<open>
  What a client of the disk manager relies on: a successful write of a page under its own
  identifier is what the store holds there afterwards, and no write, successful or not, changes what
  the store holds under another identifier.
\<close>

locale page_store =
  fixes store_write :: "'i \<Rightarrow> 'p \<Rightarrow> 'd \<Rightarrow> bool \<times> 'p \<times> 'd"
    and store_look :: "'d \<Rightarrow> 'i \<Rightarrow> 'v option"
    and store_inv :: "'d \<Rightarrow> bool"
    and writable :: "'i \<Rightarrow> 'p \<Rightarrow> 'd \<Rightarrow> bool"
    and body :: "'p \<Rightarrow> 'v"
  assumes write_inv: "store_write i p d = (b, p', d') \<Longrightarrow> store_inv d \<Longrightarrow> store_inv d'"
    and write_same: "store_write i p d = (True, p', d') \<Longrightarrow> store_inv d \<Longrightarrow> writable i p d \<Longrightarrow>
      store_look d' i = Some (body p)"
    and write_other: "store_write i p d = (b, p', d') \<Longrightarrow> store_inv d \<Longrightarrow> writable i p d \<Longrightarrow> j \<noteq> i \<Longrightarrow>
      store_look d' j = store_look d j"
    and write_body: "store_write i p d = (b, p', d') \<Longrightarrow> writable i p d \<Longrightarrow>
      body p' = body p \<and> writable i p' d'"
begin

lemma write_look:
  assumes "store_write i p d = (True, p', d')" and "store_inv d" and "writable i p d"
  shows "store_look d' = (store_look d)(i \<mapsto> body p)"
  using write_same [OF assms] write_other [OF assms] by auto

text \<open>Writing a page a second time in a row changes nothing more.\<close>

lemma write_twice:
  assumes "store_write i p d = (True, p', d')" and "store_inv d" and "writable i p d"
    and "store_write i p' d' = (True, p'', d'')"
  shows "store_look d'' = store_look d'"
proof -
  have w: "body p' = body p" "writable i p' d'" using write_body [OF assms(1,3)] by simp_all
  have "store_look d'' = (store_look d')(i \<mapsto> body p')"
    using write_look [OF assms(4) write_inv [OF assms(1,2)] w(2)] .
  with write_look [OF assms(1-3)] w(1) show ?thesis by simp
qed

end

definition page_writable :: "PageId \<Rightarrow> Page \<Rightarrow> DiskManager \<Rightarrow> bool" where
  "page_writable i p dm \<longleftrightarrow> wf_page p \<and> header_page_id (page_data p) = i \<and> i < next_page_id dm"

interpretation disk: page_store write_page stored_page disk_inv page_writable "\<lambda>p. page_body (page_data p)"
proof
  show "disk_inv d'" if "write_page i p d = (b, p', d')" "disk_inv d" for i p d b p' d'
    using that by (rule write_page_inv)
  show "stored_page d' i = Some (page_body (page_data p))"
    if "write_page i p d = (True, p', d')" "disk_inv d" "page_writable i p d" for i p d p' d'
    using that write_page_same by (simp add: page_writable_def)
  show "stored_page d' j = stored_page d j"
    if "write_page i p d = (b, p', d')" "disk_inv d" "page_writable i p d" "j \<noteq> i" for i p d b p' d' j
    using that write_page_other by (simp add: page_writable_def)
  show "page_body (page_data p') = page_body (page_data p) \<and> page_writable i p' d'"
    if "write_page i p d = (b, p', d')" "page_writable i p d" for i p d b p' d'
    using that write_page_unfold [OF that(1)] by (simp add: page_writable_def)
qed

end
