(* ===== verification/Buffer_Pool.thy ===== *)
theory Buffer_Pool
  imports Disk_Manager
begin

text \<open>
  \<open>src/storage/buffer_pool.hpp\<close> and \<open>buffer_pool.cpp\<close>: the frames, the page table, the free list and
  the clock hand, and every operation of the class. A \<open>Frame*\<close> or \<open>Page*\<close> is the index of the frame
  in \<open>frames\<close>, a null pointer is \<open>None\<close>. The hash table \<open>page_table_\<close> is an association list; its order
  stands for the iteration order of the hash table, on which no theorem depends. Each operation
  holds the latch, hence is one step. \<open>client_write\<close> is the access that a client makes through the
  returned \<open>Page*\<close>: it stores bytes into the payload of a pinned page.
\<close>

section \<open>State and operations\<close>

record Frame =
  frame_page :: Page
  referenced :: bool

record BufferPool =
  pool_size :: nat
  disk_manager :: DiskManager
  bp_metrics :: CheckpointMetrics
  frames :: "Frame list"
  page_table :: "(PageId \<times> nat) list"
  free_list :: "nat list"
  clock_hand :: nat
  dirty_count :: u64

definition BufferPool_new :: "nat \<Rightarrow> DiskManager \<Rightarrow> CheckpointMetrics \<Rightarrow> BufferPool" where
  "BufferPool_new n dm m =
     \<lparr>pool_size = n, disk_manager = dm, bp_metrics = m,
      frames = replicate n \<lparr>frame_page = Page_default, referenced = False\<rparr>,
      page_table = [], free_list = [0..<n], clock_hand = 0, dirty_count = 0\<rparr>"

definition page_at :: "BufferPool \<Rightarrow> nat \<Rightarrow> Page" where
  "page_at bp i = frame_page (frames bp ! i)"

definition set_frame :: "nat \<Rightarrow> Frame \<Rightarrow> BufferPool \<Rightarrow> BufferPool" where
  "set_frame i fr bp = bp\<lparr>frames := (frames bp)[i := fr]\<rparr>"

definition set_page :: "nat \<Rightarrow> Page \<Rightarrow> BufferPool \<Rightarrow> BufferPool" where
  "set_page i p bp = set_frame i ((frames bp ! i)\<lparr>frame_page := p\<rparr>) bp"

text \<open>\<open>dirty_count_.fetch_sub(1)\<close> together with \<open>metrics_->dirty_page_count.fetch_sub(1)\<close>.\<close>

definition decrement_dirty :: "BufferPool \<Rightarrow> BufferPool" where
  "decrement_dirty bp =
     bp\<lparr>dirty_count := dirty_count bp - 1,
        bp_metrics := (bp_metrics bp)\<lparr>dirty_page_count_m := dirty_page_count_m (bp_metrics bp) - 1\<rparr>\<rparr>"

text \<open>\<open>new_count = dirty_count_ \<plusminus> 1\<close> stored in both counters.\<close>

definition store_dirty :: "u64 \<Rightarrow> BufferPool \<Rightarrow> BufferPool" where
  "store_dirty c bp = bp\<lparr>dirty_count := c, bp_metrics := (bp_metrics bp)\<lparr>dirty_page_count_m := c\<rparr>\<rparr>"

definition evict_frame :: "nat \<Rightarrow> BufferPool \<Rightarrow> bool \<times> BufferPool" where
  "evict_frame i bp =
     (let page = page_at bp i;
          pid = page_id page;
          (ok, bp1) =
            (if is_dirty page
             then (let (ok, page', dm') = write_page pid page (disk_manager bp);
                       bp' = (set_page i page' bp)\<lparr>disk_manager := dm'\<rparr>
                   in (ok, if ok then decrement_dirty bp' else bp'))
             else (True, bp))
      in if \<not> ok then (False, bp1)
         else (True,
           (set_frame i \<lparr>frame_page = reset (page_at bp1 i), referenced = False\<rparr> bp1)
             \<lparr>page_table := AList.delete pid (page_table bp1)\<rparr>))"

fun sweep :: "nat list \<Rightarrow> BufferPool \<Rightarrow> nat option \<times> BufferPool" where
  "sweep [] bp = (None, bp)"
| "sweep (i # xs) bp =
     (if is_pinned (page_at bp i) then sweep xs bp
      else if page_id (page_at bp i) = INVALID_PAGE_ID then sweep xs bp
      else if referenced (frames bp ! i)
        then sweep xs (set_frame i ((frames bp ! i)\<lparr>referenced := False\<rparr>) bp)
      else case evict_frame i bp of
        (False, bp') \<Rightarrow> sweep xs bp'
      | (True, bp') \<Rightarrow> (Some i, bp'\<lparr>clock_hand := (i + 1) mod pool_size bp'\<rparr>))"

text \<open>One pass visits every frame once, starting at the clock hand; there are two passes.\<close>

definition clock_pass :: "BufferPool \<Rightarrow> nat list" where
  "clock_pass bp = map (\<lambda>i. (clock_hand bp + i) mod pool_size bp) [0..<pool_size bp]"

definition clock_sweep :: "BufferPool \<Rightarrow> nat option \<times> BufferPool" where
  "clock_sweep bp = sweep (clock_pass bp @ clock_pass bp) bp"

definition find_victim_frame :: "BufferPool \<Rightarrow> nat option \<times> BufferPool" where
  "find_victim_frame bp =
     (case free_list bp of
        i # rest \<Rightarrow> (Some i, bp\<lparr>free_list := rest\<rparr>)
      | [] \<Rightarrow> clock_sweep bp)"

definition fetch_page :: "PageId \<Rightarrow> BufferPool \<Rightarrow> nat option \<times> BufferPool" where
  "fetch_page pid bp =
     (case map_of (page_table bp) pid of
        Some i \<Rightarrow> (Some i, set_frame i \<lparr>frame_page = pin (page_at bp i), referenced = True\<rparr> bp)
      | None \<Rightarrow>
          (case find_victim_frame bp of
             (None, bp1) \<Rightarrow> (None, bp1)
           | (Some i, bp1) \<Rightarrow>
               (let (ok, page, dm') = read_page pid (page_at bp1 i) (disk_manager bp1);
                    bp2 = (set_page i page bp1)\<lparr>disk_manager := dm'\<rparr>
                in if \<not> ok then (None, bp2\<lparr>free_list := free_list bp2 @ [i]\<rparr>)
                   else (Some i,
                     (set_frame i \<lparr>frame_page = mark_clean (pin page), referenced = True\<rparr> bp2)
                       \<lparr>page_table := AList.update pid i (page_table bp2)\<rparr>))))"

definition new_page :: "BufferPool \<Rightarrow> (nat \<times> PageId) option \<times> BufferPool" where
  "new_page bp =
     (case find_victim_frame bp of
        (None, bp1) \<Rightarrow> (None, bp1)
      | (Some i, bp1) \<Rightarrow>
          (let (new_id, dm') = allocate_page (disk_manager bp1);
               page = mark_clean (pin (set_page_id new_id (reset (page_at bp1 i))));
               bp2 = (set_frame i \<lparr>frame_page = page, referenced = True\<rparr> bp1)\<lparr>disk_manager := dm'\<rparr>
           in (Some (i, new_id), bp2\<lparr>page_table := AList.update new_id i (page_table bp2)\<rparr>)))"

definition unpin_page :: "PageId \<Rightarrow> bool \<Rightarrow> BufferPool \<Rightarrow> bool \<times> BufferPool" where
  "unpin_page pid dirty bp =
     (case map_of (page_table bp) pid of
        None \<Rightarrow> (False, bp)
      | Some i \<Rightarrow>
          (if pin_count (page_at bp i) \<le> 0 then (False, bp)
           else let bp1 = set_page i (unpin (page_at bp i)) bp
                in (True,
                  if dirty \<and> \<not> is_dirty (page_at bp1 i)
                  then store_dirty (dirty_count bp1 + 1) (set_page i (mark_dirty (page_at bp1 i)) bp1)
                  else bp1)))"

definition flush_page :: "PageId \<Rightarrow> BufferPool \<Rightarrow> bool \<times> BufferPool" where
  "flush_page pid bp =
     (case map_of (page_table bp) pid of
        None \<Rightarrow> (True, bp)
      | Some i \<Rightarrow>
          (if \<not> is_dirty (page_at bp i) then (True, bp)
           else let (ok, page', dm') = write_page pid (page_at bp i) (disk_manager bp);
                    bp1 = (set_page i page' bp)\<lparr>disk_manager := dm'\<rparr>
                in if \<not> ok then (False, bp1)
                   else (True, store_dirty (dirty_count bp1 - 1) (set_page i (mark_clean page') bp1))))"

definition delete_page :: "PageId \<Rightarrow> BufferPool \<Rightarrow> bool \<times> BufferPool" where
  "delete_page pid bp =
     (case map_of (page_table bp) pid of
        None \<Rightarrow> (True, bp)
      | Some i \<Rightarrow>
          (if is_pinned (page_at bp i) then (False, bp)
           else let bp1 = (if is_dirty (page_at bp i) then decrement_dirty bp else bp);
                    bp2 = bp1\<lparr>page_table := AList.delete pid (page_table bp1),
                              free_list := free_list bp1 @ [i]\<rparr>;
                    bp3 = set_page i (reset (page_at bp2 i)) bp2
                in (True, bp3\<lparr>disk_manager := deallocate_page pid (disk_manager bp3)\<rparr>)))"

definition get_dirty_pages :: "BufferPool \<Rightarrow> PageId list" where
  "get_dirty_pages bp = map fst (filter (\<lambda>(pid, i). is_dirty (page_at bp i)) (page_table bp))"

fun flush_pages :: "PageId list \<Rightarrow> BufferPool \<Rightarrow> bool \<times> BufferPool" where
  "flush_pages [] bp = (True, bp)"
| "flush_pages (pid # pids) bp =
     (let (ok, bp1) = flush_page pid bp; (oks, bp2) = flush_pages pids bp1 in (ok \<and> oks, bp2))"

definition sync_all :: "BufferPool \<Rightarrow> BufferPool" where
  "sync_all bp = bp\<lparr>disk_manager := disk_sync (disk_manager bp)\<rparr>"

definition bp_page_count :: "BufferPool \<Rightarrow> nat" where
  "bp_page_count bp = length (page_table bp)"

definition BufferPool_destroy :: "BufferPool \<Rightarrow> BufferPool" where
  "BufferPool_destroy bp =
     (let dirty = get_dirty_pages bp
      in if dirty = [] then bp else sync_all (snd (flush_pages dirty bp)))"

definition client_write :: "nat \<Rightarrow> nat \<Rightarrow> bytes \<Rightarrow> BufferPool \<Rightarrow> BufferPool" where
  "client_write i off bs bp =
     (if PageHeader_SIZE + off + length bs \<le> PAGE_SIZE
      then set_page i ((page_at bp i)\<lparr>page_data :=
             write_at (PageHeader_SIZE + off) bs (page_data (page_at bp i))\<rparr>) bp
      else bp)"

section \<open>Invariant\<close>

definition frame_holds :: "BufferPool \<Rightarrow> PageId \<Rightarrow> nat \<Rightarrow> bool" where
  "frame_holds bp pid i \<longleftrightarrow>
     page_id (page_at bp i) = pid \<and> header_page_id (page_data (page_at bp i)) = pid \<and>
     pid < next_page_id (disk_manager bp)"

definition dirty_frames :: "BufferPool \<Rightarrow> nat" where
  "dirty_frames bp = length (filter (\<lambda>fr. is_dirty (frame_page fr)) (frames bp))"

text \<open>
  Every frame is either in the page table, under exactly one identifier, or on the free list, once.
  A frame of the table holds the page of its identifier; a free frame is neither dirty nor pinned.
  Both dirty counters are the number of dirty frames.
\<close>

definition frames_inv :: "BufferPool \<Rightarrow> bool" where
  "frames_inv bp \<longleftrightarrow>
     length (frames bp) = pool_size bp \<and> pool_size bp < 2 ^ 64 \<and>
     (\<forall>fr \<in> set (frames bp). wf_page (frame_page fr) \<and> 0 \<le> pin_count (frame_page fr))"

definition table_inv :: "BufferPool \<Rightarrow> bool" where
  "table_inv bp \<longleftrightarrow>
     distinct (map fst (page_table bp)) \<and>
     distinct (map snd (page_table bp) @ free_list bp) \<and>
     set (map snd (page_table bp) @ free_list bp) = {..<pool_size bp} \<and>
     (\<forall>(pid, i) \<in> set (page_table bp). frame_holds bp pid i) \<and>
     (\<forall>i \<in> set (free_list bp). \<not> is_dirty (page_at bp i) \<and> pin_count (page_at bp i) = 0)"

definition counters_inv :: "BufferPool \<Rightarrow> bool" where
  "counters_inv bp \<longleftrightarrow>
     unat (dirty_count bp) = dirty_frames bp \<and> dirty_page_count_m (bp_metrics bp) = dirty_count bp"

definition bp_inv :: "BufferPool \<Rightarrow> bool" where
  "bp_inv bp \<longleftrightarrow> frames_inv bp \<and> table_inv bp \<and> counters_inv bp \<and> disk_inv (disk_manager bp)"

section \<open>Logical content\<close>

text \<open>
  What a client sees under an identifier: the cached page if there is one, the page on disk
  otherwise. A page is \<open>backed\<close> if it cannot be lost by an eviction: it is dirty, so that the eviction
  writes it, or the disk holds the same content.
\<close>

definition bp_view :: "BufferPool \<Rightarrow> PageId \<Rightarrow> bytes option" where
  "bp_view bp pid =
     (case map_of (page_table bp) pid of
        Some i \<Rightarrow> Some (page_body (page_data (page_at bp i)))
      | None \<Rightarrow> stored_page (disk_manager bp) pid)"

definition backed :: "BufferPool \<Rightarrow> PageId \<Rightarrow> bool" where
  "backed bp pid \<longleftrightarrow>
     (case map_of (page_table bp) pid of
        Some i \<Rightarrow> is_dirty (page_at bp i) \<or>
          stored_page (disk_manager bp) pid = Some (page_body (page_data (page_at bp i)))
      | None \<Rightarrow> stored_page (disk_manager bp) pid \<noteq> None)"

section \<open>Frame updates\<close>

lemma length_filter_update:
  assumes "i < length xs"
  shows "length (filter P (xs[i := y])) + (if P (xs ! i) then 1 else 0) =
         length (filter P xs) + (if P y then 1 else 0)"
  using assms
proof (induction xs arbitrary: i)
  case (Cons x xs)
  then show ?case by (cases i) auto
qed simp

lemma set_frame_simps [simp]:
  "pool_size (set_frame i fr bp) = pool_size bp" "disk_manager (set_frame i fr bp) = disk_manager bp"
  "bp_metrics (set_frame i fr bp) = bp_metrics bp" "page_table (set_frame i fr bp) = page_table bp"
  "free_list (set_frame i fr bp) = free_list bp" "clock_hand (set_frame i fr bp) = clock_hand bp"
  "dirty_count (set_frame i fr bp) = dirty_count bp"
  "frames (set_frame i fr bp) = (frames bp)[i := fr]"
  by (simp_all add: set_frame_def)

lemma set_page_simps [simp]:
  "pool_size (set_page i q bp) = pool_size bp" "disk_manager (set_page i q bp) = disk_manager bp"
  "bp_metrics (set_page i q bp) = bp_metrics bp" "page_table (set_page i q bp) = page_table bp"
  "free_list (set_page i q bp) = free_list bp" "clock_hand (set_page i q bp) = clock_hand bp"
  "dirty_count (set_page i q bp) = dirty_count bp"
  "length (frames (set_page i q bp)) = length (frames bp)"
  by (simp_all add: set_page_def)

lemma store_dirty_simps [simp]:
  "pool_size (store_dirty c bp) = pool_size bp" "disk_manager (store_dirty c bp) = disk_manager bp"
  "page_table (store_dirty c bp) = page_table bp" "free_list (store_dirty c bp) = free_list bp"
  "frames (store_dirty c bp) = frames bp" "clock_hand (store_dirty c bp) = clock_hand bp"
  "dirty_count (store_dirty c bp) = c" "dirty_page_count_m (bp_metrics (store_dirty c bp)) = c"
  by (simp_all add: store_dirty_def)

lemma decrement_dirty_simps [simp]:
  "pool_size (decrement_dirty bp) = pool_size bp"
  "disk_manager (decrement_dirty bp) = disk_manager bp"
  "page_table (decrement_dirty bp) = page_table bp" "free_list (decrement_dirty bp) = free_list bp"
  "frames (decrement_dirty bp) = frames bp" "clock_hand (decrement_dirty bp) = clock_hand bp"
  by (simp_all add: decrement_dirty_def)

lemma page_at_set_frame:
  "page_at (set_frame i fr bp) j = (if j = i \<and> i < length (frames bp) then frame_page fr else page_at bp j)"
  by (auto simp: page_at_def nth_list_update list_update_beyond not_less)

lemma page_at_set_page:
  "page_at (set_page i q bp) j = (if j = i \<and> i < length (frames bp) then q else page_at bp j)"
  by (simp add: set_page_def page_at_set_frame)

lemma page_at_cong [simp]:
  "page_at (bp\<lparr>disk_manager := dm\<rparr>) = page_at bp" "page_at (bp\<lparr>page_table := t\<rparr>) = page_at bp"
  "page_at (bp\<lparr>free_list := l\<rparr>) = page_at bp" "page_at (bp\<lparr>clock_hand := h\<rparr>) = page_at bp"
  "page_at (store_dirty c bp) = page_at bp" "page_at (decrement_dirty bp) = page_at bp"
  by (simp_all add: page_at_def fun_eq_iff)

lemma dirty_frames_set_frame:
  assumes "i < length (frames bp)"
  shows "dirty_frames (set_frame i fr bp) + (if is_dirty (page_at bp i) then 1 else 0) =
         dirty_frames bp + (if is_dirty (frame_page fr) then 1 else 0)"
  using length_filter_update [OF assms, of "\<lambda>fr. is_dirty (frame_page fr)" fr]
  by (simp add: dirty_frames_def page_at_def)

lemma dirty_frames_cong [simp]:
  "dirty_frames (bp\<lparr>disk_manager := dm\<rparr>) = dirty_frames bp"
  "dirty_frames (bp\<lparr>page_table := t\<rparr>) = dirty_frames bp"
  "dirty_frames (bp\<lparr>free_list := l\<rparr>) = dirty_frames bp"
  "dirty_frames (bp\<lparr>clock_hand := h\<rparr>) = dirty_frames bp"
  "dirty_frames (store_dirty c bp) = dirty_frames bp"
  "dirty_frames (decrement_dirty bp) = dirty_frames bp"
  by (simp_all add: dirty_frames_def)

lemma dirty_frames_le: "dirty_frames bp \<le> length (frames bp)"
  by (simp add: dirty_frames_def)

section \<open>Consequences of the invariant\<close>

lemma bp_invD:
  assumes "bp_inv bp"
  shows "length (frames bp) = pool_size bp" and "disk_inv (disk_manager bp)"
    and "distinct (map fst (page_table bp))" and "unat (dirty_count bp) = dirty_frames bp"
    and "dirty_page_count_m (bp_metrics bp) = dirty_count bp"
  using assms by (auto simp: bp_inv_def frames_inv_def table_inv_def counters_inv_def)

lemma bp_inv_frame:
  assumes "bp_inv bp" and "i < pool_size bp"
  shows "wf_page (page_at bp i)" and "0 \<le> pin_count (page_at bp i)"
proof -
  have "frames bp ! i \<in> set (frames bp)"
    using assms by (intro nth_mem) (simp add: bp_inv_def frames_inv_def)
  then show "wf_page (page_at bp i)" and "0 \<le> pin_count (page_at bp i)"
    using assms(1) by (auto simp: page_at_def bp_inv_def frames_inv_def)
qed

lemma bp_inv_table:
  assumes "bp_inv bp" and "map_of (page_table bp) pid = Some i"
  shows "i < pool_size bp" and "frame_holds bp pid i" and "i \<notin> set (free_list bp)"
    and "wf_page (page_at bp i)" and "i \<in> snd ` set (page_table bp)"
proof -
  have mem: "(pid, i) \<in> set (page_table bp)" using assms(2) by (rule map_of_SomeD)
  then show "i \<in> snd ` set (page_table bp)" by force
  then show i: "i < pool_size bp" and "i \<notin> set (free_list bp)"
    using assms(1) by (auto simp: bp_inv_def table_inv_def)
  show "frame_holds bp pid i" using mem assms(1) by (auto simp: bp_inv_def table_inv_def)
  show "wf_page (page_at bp i)" using bp_inv_frame(1) [OF assms(1) i] .
qed

lemma bp_inv_free:
  assumes "bp_inv bp" and "i \<in> set (free_list bp)"
  shows "i < pool_size bp" and "\<not> is_dirty (page_at bp i)" and "pin_count (page_at bp i) = 0"
  using assms by (auto simp: bp_inv_def table_inv_def)

text \<open>A frame that is not free is in the table, under the identifier of its page.\<close>

lemma bp_inv_not_free:
  assumes "bp_inv bp" and "i < pool_size bp" and "i \<notin> set (free_list bp)"
  shows "map_of (page_table bp) (page_id (page_at bp i)) = Some i"
proof -
  have "i \<in> snd ` set (page_table bp)" using assms by (auto simp: bp_inv_def table_inv_def)
  then obtain pid where mem: "(pid, i) \<in> set (page_table bp)" by force
  then have "frame_holds bp pid i" and d: "distinct (map fst (page_table bp))"
    using assms(1) by (auto simp: bp_inv_def table_inv_def)
  then have "page_id (page_at bp i) = pid" by (simp add: frame_holds_def)
  with map_of_is_SomeI [OF d mem] show ?thesis by simp
qed

lemma bp_inv_table_inj:
  assumes "bp_inv bp" and "map_of (page_table bp) p = Some i" and "map_of (page_table bp) q = Some i"
  shows "p = q"
  using bp_inv_table(2) [OF assms(1,2)] bp_inv_table(2) [OF assms(1,3)] by (simp add: frame_holds_def)

lemma frame_holds_valid:
  assumes "frame_holds bp pid i"
  shows "pid \<noteq> INVALID_PAGE_ID"
proof
  assume "pid = INVALID_PAGE_ID"
  with assms have "(- 1 :: PageId) < next_page_id (disk_manager bp)"
    by (simp add: frame_holds_def INVALID_PAGE_ID_def)
  then show False by (simp add: not_less [symmetric] word_order.extremum_strict)
qed

section \<open>Elementary changes that keep the invariant\<close>

lemma frames_inv_set_frame:
  assumes "frames_inv bp" and "wf_page (frame_page fr)" and "0 \<le> pin_count (frame_page fr)"
  shows "frames_inv (set_frame i fr bp)"
  using assms set_update_subset_insert [of "frames bp" i fr] by (auto simp: frames_inv_def)

lemma table_inv_cong:
  assumes "table_inv bp" and "page_table bp' = page_table bp" and "free_list bp' = free_list bp"
    and "pool_size bp' = pool_size bp"
    and "\<And>pid i. (pid, i) \<in> set (page_table bp) \<Longrightarrow> frame_holds bp pid i \<Longrightarrow> frame_holds bp' pid i"
    and "\<And>i. i \<in> set (free_list bp) \<Longrightarrow> \<not> is_dirty (page_at bp i) \<and> pin_count (page_at bp i) = 0 \<Longrightarrow>
      \<not> is_dirty (page_at bp' i) \<and> pin_count (page_at bp' i) = 0"
  shows "table_inv bp'"
  using assms by (auto simp: table_inv_def)

text \<open>Replacing a frame by one with the same identity and the same dirty flag.\<close>

lemma bp_inv_set_frame:
  assumes inv: "bp_inv bp" and i: "i < pool_size bp"
    and p: "page_id (frame_page fr) = page_id (page_at bp i)"
      "header_page_id (page_data (frame_page fr)) = header_page_id (page_data (page_at bp i))"
      "is_dirty (frame_page fr) = is_dirty (page_at bp i)"
    and wf: "wf_page (frame_page fr)" "0 \<le> pin_count (frame_page fr)"
    and free: "i \<in> set (free_list bp) \<Longrightarrow> pin_count (frame_page fr) = 0"
  shows "bp_inv (set_frame i fr bp)"
proof -
  have len: "i < length (frames bp)" using inv i by (simp add: bp_inv_def frames_inv_def)
  have "frames_inv (set_frame i fr bp)"
    using inv wf by (intro frames_inv_set_frame) (simp_all add: bp_inv_def)
  moreover have "table_inv (set_frame i fr bp)"
    by (rule table_inv_cong [of bp])
       (use inv p free in \<open>auto simp: bp_inv_def frame_holds_def page_at_set_frame\<close>)
  moreover have "counters_inv (set_frame i fr bp)"
    using inv dirty_frames_set_frame [OF len, of fr] p(3)
    by (auto simp: bp_inv_def counters_inv_def split: if_splits)
  ultimately show ?thesis using inv by (simp add: bp_inv_def)
qed

lemma bp_inv_disk:
  assumes "bp_inv bp" and "disk_inv dm" and "next_page_id (disk_manager bp) \<le> next_page_id dm"
  shows "bp_inv (bp\<lparr>disk_manager := dm\<rparr>)"
proof -
  have "table_inv (bp\<lparr>disk_manager := dm\<rparr>)"
    by (rule table_inv_cong [of bp]) (use assms in \<open>auto simp: bp_inv_def frame_holds_def\<close>)
  then show ?thesis using assms by (simp add: bp_inv_def frames_inv_def counters_inv_def)
qed

lemma bp_inv_clock [simp]: "bp_inv (bp\<lparr>clock_hand := h\<rparr>) = bp_inv bp"
  by (simp add: bp_inv_def frames_inv_def counters_inv_def table_inv_def frame_holds_def)

lemma decrement_eq_store:
  assumes "dirty_page_count_m (bp_metrics bp) = dirty_count bp"
  shows "decrement_dirty bp = store_dirty (dirty_count bp - 1) bp"
  using assms by (simp add: decrement_dirty_def store_dirty_def)

text \<open>A dirty flag that changes together with the counters.\<close>

lemma bp_inv_set_dirty:
  assumes inv: "bp_inv bp" and i: "i < pool_size bp"
    and p: "page_id (frame_page fr) = page_id (page_at bp i)"
      "header_page_id (page_data (frame_page fr)) = header_page_id (page_data (page_at bp i))"
    and wf: "wf_page (frame_page fr)" "0 \<le> pin_count (frame_page fr)"
    and nfree: "i \<notin> set (free_list bp)"
    and c: "if is_dirty (frame_page fr) then \<not> is_dirty (page_at bp i) \<and> c = dirty_count bp + 1
            else is_dirty (page_at bp i) \<and> c = dirty_count bp - 1"
  shows "bp_inv (store_dirty c (set_frame i fr bp))"
proof -
  have len: "i < length (frames bp)" and size: "length (frames bp) < 2 ^ 64"
    using inv i by (simp_all add: bp_inv_def frames_inv_def)
  let ?bp' = "set_frame i fr bp"
  have "frames_inv ?bp'"
    using inv wf by (intro frames_inv_set_frame) (simp_all add: bp_inv_def)
  then have 1: "frames_inv (store_dirty c ?bp')" by (simp add: frames_inv_def)
  have 2: "table_inv (store_dirty c ?bp')"
    by (rule table_inv_cong [of bp])
       (use inv p nfree in \<open>auto simp: bp_inv_def frame_holds_def page_at_set_frame\<close>)
  have count: "unat (dirty_count bp) = dirty_frames bp" using inv by (rule bp_invD)
  note d = dirty_frames_set_frame [OF len, of fr]
  have "unat c = dirty_frames ?bp'"
  proof (cases "is_dirty (frame_page fr)")
    case True
    with c d have "dirty_frames ?bp' = dirty_frames bp + 1" by simp
    moreover have "dirty_frames ?bp' < 2 ^ 64"
      using dirty_frames_le [of ?bp'] size by simp
    ultimately show ?thesis using c True count by (simp add: unat_word_ariths)
  next
    case False
    with c d have eq: "dirty_frames ?bp' + 1 = dirty_frames bp" by simp
    then have "dirty_count bp \<noteq> 0" using count by auto
    then have "unat (dirty_count bp - 1) = unat (dirty_count bp) - 1" by (rule unat_minus_one)
    with False c count eq show ?thesis by simp
  qed
  then have "counters_inv (store_dirty c ?bp')" by (simp add: counters_inv_def)
  with 1 2 inv show ?thesis by (simp add: bp_inv_def)
qed

text \<open>A clean frame leaves the table and becomes free.\<close>

lemma map_snd_delete:
  assumes "distinct (map fst al)" and "distinct (map snd al)" and "(k, v) \<in> set al"
  shows "snd ` set (AList.delete k al) = snd ` set al - {v}" and "distinct (map snd (AList.delete k al))"
proof -
  have "snd e \<noteq> v" if "e \<in> set al" "fst e \<noteq> k" for e
  proof
    assume "snd e = v"
    then have "e = (k, v)" using assms(2,3) that(1) inj_onD [of snd "set al" e "(k, v)"]
      by (simp add: distinct_map)
    with that(2) show False by simp
  qed
  moreover have "fst e \<noteq> k" if "e \<in> set al" "snd e \<noteq> v" for e
    using eq_key_imp_eq_value [OF assms(1,3), of "snd e"] that by (cases e) auto
  ultimately have "{e \<in> set al. fst e \<noteq> k} = {e \<in> set al. snd e \<noteq> v}" by blast
  then show "snd ` set (AList.delete k al) = snd ` set al - {v}"
    unfolding set_delete_alist by blast
  show "distinct (map snd (AList.delete k al))"
    using assms(2) by (simp add: AList.delete_eq distinct_map_filter)
qed

lemma bp_inv_release:
  assumes inv: "bp_inv bp" and t: "map_of (page_table bp) pid = Some i"
    and clean: "\<not> is_dirty (page_at bp i)"
    and fr: "frame_page fr = reset q"
    and fl: "distinct fl" "set fl = insert i (set (free_list bp))"
  shows "bp_inv ((set_frame i fr bp)\<lparr>page_table := AList.delete pid (page_table bp), free_list := fl\<rparr>)"
    (is "bp_inv ?bp'")
proof -
  have mem: "(pid, i) \<in> set (page_table bp)" using t by (rule map_of_SomeD)
  note i = bp_inv_table [OF inv t]
  have len: "i < length (frames bp)" using bp_invD(1) [OF inv] i(1) by simp
  have T: "table_inv bp" using inv by (simp add: bp_inv_def)
  have d: "distinct (map fst (page_table bp))" "distinct (map snd (page_table bp))"
    and disj: "set (free_list bp) \<inter> snd ` set (page_table bp) = {}"
    and all: "snd ` set (page_table bp) \<union> set (free_list bp) = {..<pool_size bp}"
    using T by (auto simp: table_inv_def)
  note del = map_snd_delete [OF d mem]
  have "frames_inv (set_frame i fr bp)"
    using inv by (intro frames_inv_set_frame) (simp_all add: bp_inv_def fr)
  then have "frames_inv ?bp'" by (simp add: frames_inv_def)
  moreover have "table_inv ?bp'"
    unfolding table_inv_def
  proof (intro conjI)
    show "distinct (map fst (page_table ?bp'))" using d(1) by (simp add: distinct_delete)
    show "distinct (map snd (page_table ?bp') @ free_list ?bp')"
      using del fl disj by auto
    show "set (map snd (page_table ?bp') @ free_list ?bp') = {..<pool_size ?bp'}"
      using del(1) fl(2) all i(5) by auto
    show "\<forall>(p, j) \<in> set (page_table ?bp'). frame_holds ?bp' p j"
    proof clarify
      fix p j assume pj: "(p, j) \<in> set (page_table ?bp')"
      then have "(p, j) \<in> set (page_table bp)" by (simp add: set_delete_alist)
      then have h: "frame_holds bp p j" using T by (auto simp: table_inv_def)
      have "j \<in> snd ` set (page_table ?bp')" using pj by force
      then have "j \<noteq> i" using del(1) by auto
      with h show "frame_holds ?bp' p j" by (simp add: frame_holds_def page_at_set_frame)
    qed
    show "\<forall>j \<in> set (free_list ?bp'). \<not> is_dirty (page_at ?bp' j) \<and> pin_count (page_at ?bp' j) = 0"
      using fl(2) T len by (auto simp: table_inv_def page_at_set_frame fr)
  qed
  moreover have "counters_inv ?bp'"
    using dirty_frames_set_frame [OF len, of fr] inv clean
    by (simp add: bp_inv_def counters_inv_def fr)
  ultimately show ?thesis using inv by (simp add: bp_inv_def)
qed

text \<open>A frame taken off the free list enters the table under a new identifier.\<close>

lemma bp_inv_acquire:
  assumes inv: "bp_inv (bp\<lparr>free_list := i # free_list bp\<rparr>)"
    and new: "map_of (page_table bp) pid = None"
    and fr: "page_id (frame_page fr) = pid" "header_page_id (page_data (frame_page fr)) = pid"
      "wf_page (frame_page fr)" "0 \<le> pin_count (frame_page fr)" "\<not> is_dirty (frame_page fr)"
    and lt: "pid < next_page_id (disk_manager bp)"
  shows "bp_inv ((set_frame i fr bp)\<lparr>page_table := AList.update pid i (page_table bp)\<rparr>)"
    (is "bp_inv ?bp'")
proof -
  let ?bp0 = "bp\<lparr>free_list := i # free_list bp\<rparr>"
  have T: "table_inv ?bp0" using inv by (simp add: bp_inv_def)
  have i: "i < pool_size bp" "\<not> is_dirty (page_at bp i)"
    using bp_inv_free [OF inv, of i] by simp_all
  have len: "i < length (frames bp)" using bp_invD(1) [OF inv] i(1) by simp
  have key: "pid \<notin> fst ` set (page_table bp)" using new by (simp add: map_of_eq_None_iff)
  note upd = update_new_key [OF key]
  have "frames_inv bp" using inv by (simp add: bp_inv_def frames_inv_def)
  then have "frames_inv (set_frame i fr bp)" using fr(3,4) by (rule frames_inv_set_frame)
  then have "frames_inv ?bp'" by (simp add: frames_inv_def)
  moreover have "table_inv ?bp'"
    unfolding table_inv_def
  proof (intro conjI)
    show "distinct (map fst (page_table ?bp'))" using T key by (auto simp: table_inv_def upd)
    show "distinct (map snd (page_table ?bp') @ free_list ?bp')" using T by (auto simp: table_inv_def upd)
    show "set (map snd (page_table ?bp') @ free_list ?bp') = {..<pool_size ?bp'}"
      using T by (auto simp: table_inv_def upd)
    show "\<forall>(p, j) \<in> set (page_table ?bp'). frame_holds ?bp' p j"
    proof clarify
      fix p j assume "(p, j) \<in> set (page_table ?bp')"
      then consider "(p, j) \<in> set (page_table bp)" | "p = pid" "j = i" by (auto simp: upd)
      then show "frame_holds ?bp' p j"
      proof cases
        case 1
        then have "frame_holds ?bp0 p j" and "j \<noteq> i"
          using T image_eqI [of j snd "(p, j)" "set (page_table bp)"] by (auto simp: table_inv_def)
        then show ?thesis by (simp add: frame_holds_def page_at_set_frame)
      next
        case 2
        then show ?thesis using fr lt len by (simp add: frame_holds_def page_at_set_frame)
      qed
    qed
    show "\<forall>j \<in> set (free_list ?bp'). \<not> is_dirty (page_at ?bp' j) \<and> pin_count (page_at ?bp' j) = 0"
      using T by (auto simp: table_inv_def page_at_set_frame)
  qed
  moreover have "counters_inv ?bp'"
    using dirty_frames_set_frame [OF len, of fr] inv fr(5) i(2)
    by (simp add: bp_inv_def counters_inv_def)
  ultimately show ?thesis using inv by (simp add: bp_inv_def)
qed

end
