(* ===== verification/Buffer_Pool_Inv.thy ===== *)
theory Buffer_Pool_Inv
  imports Buffer_Pool
begin

text \<open>
  Every operation of the buffer pool keeps the invariant \<open>bp_inv\<close>, and keeps the pages it is not
  meant to change: a page that is backed stays backed with the same content, and a pinned page stays
  in its frame. Both facts are composed from the elementary changes an operation makes: a frame
  rewritten in place, a page written back, a page marked clean, a frame released, a frame acquired.
\<close>

section \<open>Keeping a page\<close>

definition keeps :: "PageId \<Rightarrow> BufferPool \<Rightarrow> BufferPool \<Rightarrow> bool" where
  "keeps q bp bp' \<longleftrightarrow>
     (backed bp q \<longrightarrow> backed bp' q \<and> bp_view bp' q = bp_view bp q) \<and>
     (\<forall>j. map_of (page_table bp) q = Some j \<and> is_pinned (page_at bp j) \<longrightarrow>
        map_of (page_table bp') q = Some j \<and> pin_count (page_at bp j) \<le> pin_count (page_at bp' j) \<and>
        page_body (page_data (page_at bp' j)) = page_body (page_data (page_at bp j)))"

lemma keeps_refl [simp]: "keeps q bp bp"
  by (simp add: keeps_def)

lemma keeps_trans: "keeps q bp bp' \<Longrightarrow> keeps q bp' bp'' \<Longrightarrow> keeps q bp bp''"
  by (fastforce simp: keeps_def is_pinned_def)

text \<open>The page table and the frames are all that matters, besides the disk.\<close>

lemma keeps_cong:
  assumes "page_table bp' = page_table bp" and "frames bp' = frames bp"
    and "stored_page (disk_manager bp') q = stored_page (disk_manager bp) q"
  shows "keeps q bp bp'"
  using assms by (simp add: keeps_def backed_def bp_view_def page_at_def split: option.splits)

lemma keeps_record [simp]:
  "keeps q bp (bp'\<lparr>free_list := l\<rparr>) = keeps q bp bp'"
  "keeps q bp (bp'\<lparr>clock_hand := h\<rparr>) = keeps q bp bp'"
  "keeps q bp (store_dirty c bp') = keeps q bp bp'"
  "keeps q bp (decrement_dirty bp') = keeps q bp bp'"
  "keeps q (bp\<lparr>free_list := l\<rparr>) bp' = keeps q bp bp'"
  by (simp_all add: keeps_def backed_def bp_view_def split: option.splits)

lemma keeps_set_frame:
  assumes "bp_inv bp" and "i < pool_size bp"
    and "page_body (page_data (frame_page fr)) = page_body (page_data (page_at bp i))"
    and "is_dirty (page_at bp i) \<Longrightarrow> is_dirty (frame_page fr)"
    and "pin_count (page_at bp i) \<le> pin_count (frame_page fr) \<or> page_id (page_at bp i) \<noteq> q"
  shows "keeps q bp (set_frame i fr bp)"
proof -
  have "page_id (page_at bp j) = q" if "map_of (page_table bp) q = Some j" for j
    using bp_inv_table(2) [OF assms(1) that] by (simp add: frame_holds_def)
  then show ?thesis
    using assms by (auto simp: keeps_def backed_def bp_view_def page_at_set_frame split: option.splits)
qed

lemma set_page_set_frame: "set_page i p bp = set_frame i ((frames bp ! i)\<lparr>frame_page := p\<rparr>) bp"
  by (rule set_page_def)

lemma page_at_frame [simp]: "frame_page (frames bp ! i) = page_at bp i"
  by (simp add: page_at_def)

section \<open>Writing a page back\<close>

lemma bp_inv_write:
  assumes inv: "bp_inv bp" and t: "map_of (page_table bp) pid = Some i"
    and w: "write_page pid (page_at bp i) (disk_manager bp) = (ok, p', dm')"
  shows "bp_inv ((set_page i p' bp)\<lparr>disk_manager := dm'\<rparr>)"
proof -
  note i = bp_inv_table [OF inv t]
  have p': "p' = update_checksum (page_at bp i)" and n: "next_page_id dm' = next_page_id (disk_manager bp)"
    using write_page_unfold [OF w] by simp_all
  have "bp_inv (set_page i p' bp)"
    unfolding set_page_set_frame
    by (rule bp_inv_set_frame) (use inv i bp_inv_frame [OF inv i(1)] in \<open>simp_all add: p'\<close>)
  moreover have "disk_inv dm'" using write_page_inv [OF w] bp_invD(2) [OF inv] by blast
  ultimately show ?thesis by (intro bp_inv_disk) (simp_all add: n)
qed

lemma keeps_write:
  assumes inv: "bp_inv bp" and t: "map_of (page_table bp) pid = Some i" and d: "is_dirty (page_at bp i)"
    and w: "write_page pid (page_at bp i) (disk_manager bp) = (ok, p', dm')"
  shows "keeps q bp ((set_page i p' bp)\<lparr>disk_manager := dm'\<rparr>)" (is "keeps q bp ?bp'")
proof -
  note i = bp_inv_table [OF inv t]
  have p': "p' = update_checksum (page_at bp i)" using write_page_unfold [OF w] by simp
  have 1: "keeps q bp (set_page i p' bp)"
    unfolding set_page_set_frame by (rule keeps_set_frame) (use inv i in \<open>simp_all add: p'\<close>)
  have "keeps q (set_page i p' bp) ?bp'"
  proof (cases "q = pid")
    case True
    have "is_dirty (page_at (set_page i p' bp) i)"
      using i(1) d bp_invD(1) [OF inv] by (simp add: set_page_set_frame page_at_set_frame p')
    then show ?thesis using True t by (simp add: keeps_def backed_def bp_view_def)
  next
    case False
    have "stored_page dm' q = stored_page (disk_manager bp) q"
      using write_page_other [OF w bp_invD(2) [OF inv] i(4) False] .
    then show ?thesis by (intro keeps_cong) simp_all
  qed
  with 1 show ?thesis by (rule keeps_trans)
qed

text \<open>After a successful write the disk holds the content of the frame.\<close>

lemma stored_after_write:
  assumes inv: "bp_inv bp" and t: "map_of (page_table bp) pid = Some i"
    and w: "write_page pid (page_at bp i) (disk_manager bp) = (True, p', dm')"
  shows "stored_page dm' pid = Some (page_body (page_data p'))"
proof -
  note i = bp_inv_table [OF inv t]
  have "stored_page dm' pid = Some (page_body (page_data (page_at bp i)))"
    using write_page_same [OF w i(4)] i(2) by (simp add: frame_holds_def)
  then show ?thesis using write_page_unfold(1) [OF w] by simp
qed

section \<open>Marking clean\<close>

lemma bp_inv_clean:
  assumes inv: "bp_inv bp" and t: "map_of (page_table bp) pid = Some i" and d: "is_dirty (page_at bp i)"
  shows "bp_inv (store_dirty (dirty_count bp - 1) (set_page i (mark_clean (page_at bp i)) bp))"
proof -
  note i = bp_inv_table [OF inv t]
  show ?thesis unfolding set_page_set_frame
    by (rule bp_inv_set_dirty) (use inv i d bp_inv_frame [OF inv i(1)] in simp_all)
qed

lemma keeps_clean:
  assumes inv: "bp_inv bp" and t: "map_of (page_table bp) pid = Some i"
    and s: "stored_page (disk_manager bp) pid = Some (page_body (page_data (page_at bp i)))"
  shows "keeps q bp (set_page i (mark_clean (page_at bp i)) bp)"
proof -
  have len: "i < length (frames bp)" using bp_inv_table(1) [OF inv t] bp_invD(1) [OF inv] by simp
  show ?thesis
  proof (cases "map_of (page_table bp) q = Some i")
    case True
    then have "q = pid" using bp_inv_table_inj [OF inv True t] by simp
    with t s len show ?thesis
      by (simp add: keeps_def backed_def bp_view_def set_page_set_frame page_at_set_frame)
  next
    case False
    then show ?thesis
      by (auto simp: keeps_def backed_def bp_view_def set_page_set_frame page_at_set_frame split: option.splits)
  qed
qed

section \<open>Releasing and acquiring a frame\<close>

lemma keeps_release:
  assumes inv: "bp_inv bp" and t: "map_of (page_table bp) pid = Some i"
    and q: "q \<noteq> pid \<or> (\<not> is_dirty (page_at bp i) \<and> \<not> is_pinned (page_at bp i))"
  shows "keeps q bp ((set_frame i fr bp)\<lparr>page_table := AList.delete pid (page_table bp)\<rparr>)"
proof (cases "q = pid")
  case True
  with t q show ?thesis by (auto simp: keeps_def backed_def bp_view_def delete_conv')
next
  case False
  then have "map_of (page_table bp) q \<noteq> Some i" using bp_inv_table_inj [OF inv t] by blast
  with False show ?thesis
    by (auto simp: keeps_def backed_def bp_view_def delete_conv' page_at_set_frame split: option.splits)
qed

lemma keeps_acquire:
  assumes inv: "bp_inv (bp\<lparr>free_list := i # free_list bp\<rparr>)" and new: "map_of (page_table bp) pid = None"
    and q: "q \<noteq> pid \<or> stored_page (disk_manager bp) pid = Some (page_body (page_data (frame_page fr))) \<or>
            stored_page (disk_manager bp) pid = None"
  shows "keeps q bp ((set_frame i fr bp)\<lparr>page_table := AList.update pid i (page_table bp)\<rparr>)"
proof (cases "q = pid")
  case True
  have len: "i < length (frames bp)" using bp_inv_free(1) [OF inv, of i] bp_invD(1) [OF inv] by simp
  with True q new show ?thesis
    by (auto simp: keeps_def backed_def bp_view_def update_conv' page_at_set_frame)
next
  case False
  have "map_of (page_table bp) q \<noteq> Some i" using bp_inv_table(3) [OF inv, of q i] by auto
  with False show ?thesis
    by (auto simp: keeps_def backed_def bp_view_def update_conv' page_at_set_frame split: option.splits)
qed

section \<open>Eviction\<close>

lemma set_frame_twice [simp]: "set_frame i fr (store_dirty c (set_frame i fr' bp)) = set_frame i fr (store_dirty c bp)"
  by (simp add: set_frame_def store_dirty_def)

lemma evict_frame_clean:
  assumes inv: "bp_inv bp" and i: "i < pool_size bp" "i \<notin> set (free_list bp)"
    and d: "\<not> is_dirty (page_at bp i)" and e: "evict_frame i bp = (ok, bp')"
  shows "ok" and "bp_inv (bp'\<lparr>free_list := i # free_list bp'\<rparr>)"
    and "\<not> is_pinned (page_at bp i) \<Longrightarrow> keeps q bp bp'"
proof -
  let ?pid = "page_id (page_at bp i)"
  let ?fr = "\<lparr>frame_page = reset (page_at bp i), referenced = False\<rparr>"
  have t: "map_of (page_table bp) ?pid = Some i" using bp_inv_not_free [OF inv i] .
  have fl: "distinct (i # free_list bp)" using inv i by (auto simp: bp_inv_def table_inv_def)
  from e d show ok by (auto simp: evict_frame_def Let_def)
  from e d have bp': "bp' = (set_frame i ?fr bp)\<lparr>page_table := AList.delete ?pid (page_table bp)\<rparr>"
    by (auto simp: evict_frame_def Let_def)
  show "bp_inv (bp'\<lparr>free_list := i # free_list bp'\<rparr>)"
    using bp_inv_release [OF inv t d, of ?fr "page_at bp i" "i # free_list bp"] fl by (simp add: bp')
  show "keeps q bp bp'" if "\<not> is_pinned (page_at bp i)"
    unfolding bp' by (rule keeps_release [OF inv t]) (use d that in simp)
qed

lemma evict_frame_dirty:
  assumes inv: "bp_inv bp" and i: "i < pool_size bp" "i \<notin> set (free_list bp)"
    and d: "is_dirty (page_at bp i)" and e: "evict_frame i bp = (ok, bp')"
  shows "\<not> ok \<Longrightarrow> bp_inv bp'" and "ok \<Longrightarrow> bp_inv (bp'\<lparr>free_list := i # free_list bp'\<rparr>)"
    and "\<not> is_pinned (page_at bp i) \<Longrightarrow> keeps q bp bp'"
proof -
  let ?pid = "page_id (page_at bp i)"
  have t: "map_of (page_table bp) ?pid = Some i" using bp_inv_not_free [OF inv i] .
  obtain p' dm' where w: "write_page ?pid (page_at bp i) (disk_manager bp) = (ok, p', dm')"
    using e d by (auto simp: evict_frame_def Let_def split: prod.splits if_splits)
  let ?bp1 = "(set_page i p' bp)\<lparr>disk_manager := dm'\<rparr>"
  let ?bp2 = "store_dirty (dirty_count ?bp1 - 1) (set_page i (mark_clean (page_at ?bp1 i)) ?bp1)"
  let ?fr = "\<lparr>frame_page = reset p', referenced = False\<rparr>"
  have at1: "page_at ?bp1 i = p'"
    using i bp_invD(1) [OF inv] by (simp add: set_page_set_frame page_at_set_frame)
  have p': "p' = update_checksum (page_at bp i)" using write_page_unfold(1) [OF w] .
  have inv1: "bp_inv ?bp1" using bp_inv_write [OF inv t w] .
  have k1: "keeps q bp ?bp1" using keeps_write [OF inv t d w] .
  have t1: "map_of (page_table ?bp1) ?pid = Some i" and d1: "is_dirty (page_at ?bp1 i)"
    using t d at1 by (simp_all add: p')
  have fl: "distinct (i # free_list bp)" using inv i by (auto simp: bp_inv_def table_inv_def)
  have fail: "bp' = ?bp1" if "\<not> ok"
    using e d w that by (auto simp: evict_frame_def Let_def)
  show "bp_inv bp'" if "\<not> ok" using inv1 fail [OF that] by simp
  have bp': "bp' = (set_frame i ?fr ?bp2)\<lparr>page_table := AList.delete ?pid (page_table ?bp2)\<rparr>" if ok
  proof -
    have "dirty_page_count_m (bp_metrics ?bp1) = dirty_count ?bp1" using bp_invD(5) [OF inv1] .
    note dec = decrement_eq_store [OF this]
    show ?thesis using e d w that at1
      by (simp add: evict_frame_def dec set_page_set_frame [of i "mark_clean p'"] del: set_page_simps)
  qed
  have inv2: "bp_inv ?bp2" using bp_inv_clean [OF inv1 t1 d1] .
  have at2: "page_at ?bp2 i = mark_clean p'"
    using i bp_invD(1) [OF inv] at1 by (simp add: set_page_set_frame page_at_set_frame)
  have t2: "map_of (page_table ?bp2) ?pid = Some i" using t1 by simp
  show "bp_inv (bp'\<lparr>free_list := i # free_list bp'\<rparr>)" if ok
    using bp_inv_release [OF inv2 t2, of ?fr p' "i # free_list bp"] fl at2 by (simp add: bp' [OF that])
  show "keeps q bp bp'" if np: "\<not> is_pinned (page_at bp i)"
  proof (cases ok)
    case True
    have "stored_page (disk_manager ?bp1) ?pid = Some (page_body (page_data (page_at ?bp1 i)))"
      using stored_after_write [OF inv t] w True at1 by simp
    then have k2: "keeps q ?bp1 ?bp2" using keeps_clean [OF inv1 t1] by simp
    have "keeps q ?bp2 bp'"
      unfolding bp' [OF True] by (rule keeps_release [OF inv2 t2]) (use np at2 in \<open>simp add: is_pinned_def p'\<close>)
    with k1 k2 show ?thesis by (blast intro: keeps_trans)
  qed (use k1 fail in simp)
qed

lemma evict_frame_frame:
  assumes "evict_frame i bp = (ok, bp')"
  shows "pool_size bp' = pool_size bp" and "free_list bp' = free_list bp"
    and "clock_hand bp' = clock_hand bp"
    and "next_page_id (disk_manager bp') = next_page_id (disk_manager bp)"
    and "page_table bp' = page_table bp \<or>
      page_table bp' = AList.delete (page_id (page_at bp i)) (page_table bp)"
    and "j \<noteq> i \<Longrightarrow> frames bp' ! j = frames bp ! j" and "length (frames bp') = length (frames bp)"
  using assms write_page_unfold(2)
  by (auto simp: evict_frame_def Let_def set_page_set_frame split: prod.splits if_splits)

section \<open>The search for a victim\<close>

text \<open>
  The search either finds nothing and leaves a correct pool, or removes one frame from the table or
  the free list, so that returning the frame to the free list would give a correct pool.
\<close>

definition victim_ok :: "BufferPool \<Rightarrow> nat option \<Rightarrow> BufferPool \<Rightarrow> bool" where
  "victim_ok bp r bp' \<longleftrightarrow>
     pool_size bp' = pool_size bp \<and> (\<forall>q. keeps q bp bp') \<and>
     next_page_id (disk_manager bp') = next_page_id (disk_manager bp) \<and>
     (\<forall>q. map_of (page_table bp) q = None \<longrightarrow> map_of (page_table bp') q = None) \<and>
     (case r of None \<Rightarrow> bp_inv bp' | Some i \<Rightarrow> bp_inv (bp'\<lparr>free_list := i # free_list bp'\<rparr>))"

lemma victim_ok_trans:
  assumes "victim_ok bp None bp'" and "victim_ok bp' r bp''"
  shows "victim_ok bp r bp''"
  using assms by (auto simp: victim_ok_def intro: keeps_trans)

lemma map_of_delete_none: "map_of al q = None \<Longrightarrow> map_of (AList.delete k al) q = None"
  by (simp add: delete_conv')

lemma evict_frame_victim_ok:
  assumes inv: "bp_inv bp" and i: "i < pool_size bp" "i \<notin> set (free_list bp)"
    and np: "\<not> is_pinned (page_at bp i)" and e: "evict_frame i bp = (ok, bp')"
  shows "victim_ok bp (if ok then Some i else None) bp'"
proof -
  have "keeps q bp bp'" for q
    using evict_frame_clean(3) [OF inv i _ e np] evict_frame_dirty(3) [OF inv i _ e np] by blast
  moreover have "if ok then bp_inv (bp'\<lparr>free_list := i # free_list bp'\<rparr>) else bp_inv bp'"
    using evict_frame_clean(1,2) [OF inv i _ e] evict_frame_dirty(1,2) [OF inv i _ e] by auto
  moreover have "map_of (page_table bp') q = None" if "map_of (page_table bp) q = None" for q
    using evict_frame_frame(5) [OF e]
  proof
    assume "page_table bp' = page_table bp"
    then show ?thesis using that by simp
  next
    assume "page_table bp' = AList.delete (page_id (page_at bp i)) (page_table bp)"
    then show ?thesis using map_of_delete_none [OF that] by simp
  qed
  ultimately show ?thesis
    using evict_frame_frame(1,4) [OF e] by (simp add: victim_ok_def)
qed

lemma unreference_victim_ok:
  assumes "bp_inv bp" and "i < pool_size bp"
  shows "victim_ok bp None (set_frame i ((frames bp ! i)\<lparr>referenced := b\<rparr>) bp)"
proof -
  let ?bp' = "set_frame i ((frames bp ! i)\<lparr>referenced := b\<rparr>) bp"
  have "bp_inv ?bp'"
    by (rule bp_inv_set_frame [OF assms])
       (simp_all add: bp_inv_frame [OF assms] bp_inv_free(3) [OF assms(1)])
  moreover have "keeps q bp ?bp'" for q
    by (rule keeps_set_frame) (use assms in simp_all)
  ultimately show ?thesis by (simp add: victim_ok_def)
qed

lemma sweep_victim_ok:
  assumes "bp_inv bp" and "free_list bp = []" and "set xs \<subseteq> {..<pool_size bp}"
    and "sweep xs bp = (r, bp')"
  shows "victim_ok bp r bp'"
  using assms
proof (induction xs arbitrary: bp)
  case Nil
  then show ?case by (auto simp: victim_ok_def)
next
  case (Cons i xs)
  have i: "i < pool_size bp" "i \<notin> set (free_list bp)" using Cons.prems by auto
  have skip: ?case if "sweep xs bp2 = (r, bp')" "victim_ok bp None bp2" "free_list bp2 = []" for bp2
  proof -
    have "bp_inv bp2" "pool_size bp2 = pool_size bp" using that(2) by (simp_all add: victim_ok_def)
    then have "victim_ok bp2 r bp'" using Cons.IH [of bp2] Cons.prems(3) that by simp
    with that(2) show ?thesis by (rule victim_ok_trans)
  qed
  have same: "victim_ok bp None bp" using Cons.prems(1) by (simp add: victim_ok_def)
  consider (pass) "sweep xs bp = (r, bp')"
    | (ref) "sweep xs (set_frame i ((frames bp ! i)\<lparr>referenced := False\<rparr>) bp) = (r, bp')"
    | (evict) "\<not> is_pinned (page_at bp i)" "sweep (i # xs) bp = (case evict_frame i bp of
        (False, bp') \<Rightarrow> sweep xs bp'
      | (True, bp') \<Rightarrow> (Some i, bp'\<lparr>clock_hand := (i + 1) mod pool_size bp'\<rparr>))"
    using Cons.prems(4) by (auto split: if_splits)
  then show ?case
  proof cases
    case pass
    then show ?thesis using same Cons.prems(2) by (rule skip)
  next
    case ref
    from ref unreference_victim_ok [OF Cons.prems(1) i(1)] show ?thesis
      by (rule skip) (simp add: Cons.prems(2))
  next
    case evict
    obtain ok bp2 where e: "evict_frame i bp = (ok, bp2)" by fastforce
    note v = evict_frame_victim_ok [OF Cons.prems(1) i evict(1) e]
    show ?thesis
    proof (cases ok)
      case True
      with evict(2) e Cons.prems(4) have r: "r = Some i" and
        b: "bp' = bp2\<lparr>clock_hand := (i + 1) mod pool_size bp2\<rparr>" by simp_all
      have "bp'\<lparr>free_list := i # free_list bp'\<rparr> =
          (bp2\<lparr>free_list := i # free_list bp2\<rparr>)\<lparr>clock_hand := (i + 1) mod pool_size bp2\<rparr>"
        by (simp add: b)
      then have "bp_inv (bp'\<lparr>free_list := i # free_list bp'\<rparr>)"
        using v True by (simp only: bp_inv_clock) (simp add: victim_ok_def)
      then show ?thesis using v True r by (simp add: victim_ok_def b)
    next
      case False
      with evict(2) e Cons.prems(4) have "sweep xs bp2 = (r, bp')" by simp
      moreover have "free_list bp2 = []" using evict_frame_frame(2) [OF e] Cons.prems(2) by simp
      ultimately show ?thesis using skip v False by simp
    qed
  qed
qed

lemma clock_pass_range: "set (clock_pass bp) \<subseteq> {..<pool_size bp}"
  by (auto simp: clock_pass_def)

lemma find_victim_ok:
  assumes inv: "bp_inv bp" and v: "find_victim_frame bp = (r, bp')"
  shows "victim_ok bp r bp'"
proof (cases "free_list bp")
  case Nil
  with v have "sweep (clock_pass bp @ clock_pass bp) bp = (r, bp')"
    by (simp add: find_victim_frame_def clock_sweep_def)
  then show ?thesis using inv Nil clock_pass_range by (intro sweep_victim_ok) auto
next
  case (Cons i rest)
  with v have "r = Some i" "bp' = bp\<lparr>free_list := rest\<rparr>" by (auto simp: find_victim_frame_def)
  moreover have "bp\<lparr>free_list := i # rest\<rparr> = bp" by (simp flip: Cons)
  ultimately show ?thesis using inv by (simp add: victim_ok_def)
qed

section \<open>Fetching a page\<close>

lemma read_page_inv:
  assumes "read_page i p dm = (b, p', dm')" and "disk_inv dm"
  shows "disk_inv dm'"
proof -
  have "fs_fail (data_file dm')" if "fs_fail (data_file dm)"
    using failed_stream_ops(2) [OF that, of i p] assms(1) by simp
  then show ?thesis using assms(2) read_page_frame [OF assms(1)] by (auto simp: disk_inv_def)
qed

lemma read_page_clean:
  assumes "read_page i p dm = (b, p', dm')" and "\<not> is_dirty p"
  shows "\<not> is_dirty p'"
  using assms by (auto simp: read_page_def Let_def split: if_splits prod.splits)

lemma bp_inv_set_free:
  assumes inv: "bp_inv bp" and i: "i \<in> set (free_list bp)"
    and fr: "wf_page (frame_page fr)" "\<not> is_dirty (frame_page fr)" "pin_count (frame_page fr) = 0"
  shows "bp_inv (set_frame i fr bp)"
proof -
  note free = bp_inv_free [OF inv i]
  have len: "i < length (frames bp)" using free(1) bp_invD(1) [OF inv] by simp
  have T: "table_inv bp" using inv by (simp add: bp_inv_def)
  have nt: "j \<noteq> i" if "(p, j) \<in> set (page_table bp)" for p j
    using T i that image_eqI [of j snd "(p, j)" "set (page_table bp)"] by (auto simp: table_inv_def)
  have "frames_inv (set_frame i fr bp)"
    using inv fr by (intro frames_inv_set_frame) (simp_all add: bp_inv_def)
  moreover have "table_inv (set_frame i fr bp)"
    by (rule table_inv_cong [OF T])
       (use fr nt in \<open>auto simp: frame_holds_def page_at_set_frame\<close>)
  moreover have "counters_inv (set_frame i fr bp)"
    using inv dirty_frames_set_frame [OF len, of fr] fr(2) free(2)
    by (simp add: bp_inv_def counters_inv_def)
  ultimately show ?thesis using inv by (simp add: bp_inv_def)
qed

lemma bp_inv_free_perm:
  assumes "bp_inv (bp\<lparr>free_list := l\<rparr>)" and "distinct l'" and "set l' = set l"
  shows "bp_inv (bp\<lparr>free_list := l'\<rparr>)"
  using assms
  by (simp add: bp_inv_def frames_inv_def counters_inv_def table_inv_def frame_holds_def)

lemma bp_inv_free_distinct: "bp_inv bp \<Longrightarrow> distinct (free_list bp)"
  by (simp add: bp_inv_def table_inv_def)

lemma keeps_set_free:
  assumes "bp_inv bp" and "i \<in> set (free_list bp)"
  shows "keeps q bp (set_frame i fr bp)"
proof -
  have "map_of (page_table bp) q \<noteq> Some i" using bp_inv_table(3) [OF assms(1), of q i] assms(2) by auto
  then show ?thesis by (auto simp: keeps_def backed_def bp_view_def page_at_set_frame split: option.splits)
qed

lemma fetch_page_hit:
  assumes inv: "bp_inv bp" and t: "map_of (page_table bp) pid = Some i"
  shows "bp_inv (snd (fetch_page pid bp))" and "keeps q bp (snd (fetch_page pid bp))"
proof -
  note i = bp_inv_table [OF inv t]
  let ?fr = "\<lparr>frame_page = pin (page_at bp i), referenced = True\<rparr>"
  have bp': "snd (fetch_page pid bp) = set_frame i ?fr bp" by (simp add: fetch_page_def t)
  show "bp_inv (snd (fetch_page pid bp))" unfolding bp'
    by (rule bp_inv_set_frame [OF inv i(1)]) (simp_all add: i bp_inv_frame [OF inv i(1)])
  show "keeps q bp (snd (fetch_page pid bp))" unfolding bp'
    by (rule keeps_set_frame [OF inv i(1)]) simp_all
qed

text \<open>A miss: the frame that was found, the page read into it, and the two outcomes.\<close>

lemma set_frame_disk_twice [simp]:
  "set_frame i fr ((set_frame i fr' bp)\<lparr>disk_manager := dm\<rparr>) = (set_frame i fr bp)\<lparr>disk_manager := dm\<rparr>"
  by (simp add: set_frame_def)

lemma free_disk_commute:
  "bp\<lparr>free_list := l, disk_manager := dm\<rparr> = bp\<lparr>disk_manager := dm, free_list := l\<rparr>"
  for bp :: BufferPool
  by (cases bp) simp

lemma free_frame_commute: "set_frame i fr (bp\<lparr>free_list := l\<rparr>) = (set_frame i fr bp)\<lparr>free_list := l\<rparr>"
  by (cases bp) (simp add: set_frame_def)

lemma fetch_page_read:
  assumes v: "victim_ok bp (Some i) bp1" and t: "map_of (page_table bp) pid = None"
    and r: "read_page pid (page_at bp1 i) (disk_manager bp1) = (ok, p, dm')"
  defines "bp2 \<equiv> (set_page i p bp1)\<lparr>disk_manager := dm'\<rparr>"
  shows "bp_inv (bp2\<lparr>free_list := free_list bp2 @ [i]\<rparr>)" and "keeps q bp bp2"
    and "ok \<Longrightarrow> bp_inv ((set_frame i \<lparr>frame_page = mark_clean (pin p), referenced = True\<rparr> bp2)
          \<lparr>page_table := AList.update pid i (page_table bp2)\<rparr>)"
    and "ok \<Longrightarrow> keeps q bp ((set_frame i \<lparr>frame_page = mark_clean (pin p), referenced = True\<rparr> bp2)
          \<lparr>page_table := AList.update pid i (page_table bp2)\<rparr>)"
proof -
  let ?fl = "i # free_list bp1"
  let ?bp1 = "bp1\<lparr>free_list := ?fl\<rparr>"
  have inv1: "bp_inv ?bp1" and k1: "keeps q bp bp1" and t1: "map_of (page_table bp1) pid = None"
    using v t by (simp_all add: victim_ok_def)
  have "page_at ?bp1 i = page_at bp1 i" by simp
  note free = bp_inv_free [OF inv1, of i, simplified]
  have wf: "wf_page (page_at bp1 i)" using bp_inv_frame(1) [OF inv1, of i] free(1) by simp
  note frm = read_page_frame [OF r]
  have p: "wf_page p" "pin_count p = 0" "\<not> is_dirty p"
    using read_page_data_length [OF wf r] frm(5) free(3) read_page_clean [OF r free(2)] by simp_all
  let ?bp1' = "bp1\<lparr>disk_manager := dm'\<rparr>"
  have dm': "disk_inv dm'" using read_page_inv [OF r] bp_invD(2) [OF inv1] by simp
  have inv1': "bp_inv (?bp1'\<lparr>free_list := i # free_list ?bp1'\<rparr>)"
    using bp_inv_disk [OF inv1 dm'] frm(2) by (simp add: free_disk_commute)
  have k1': "keeps q bp1 ?bp1'" by (rule keeps_cong) (simp_all add: frm(4))
  have bp2: "bp2 = set_frame i ((frames bp1 ! i)\<lparr>frame_page := p\<rparr>) ?bp1'"
    by (simp add: bp2_def set_page_def set_frame_def)
  have "bp_inv (set_frame i ((frames bp1 ! i)\<lparr>frame_page := p\<rparr>) (?bp1'\<lparr>free_list := ?fl\<rparr>))"
    by (rule bp_inv_set_free) (use inv1' p in simp_all)
  then have inv2: "bp_inv (bp2\<lparr>free_list := ?fl\<rparr>)" by (simp add: bp2 free_frame_commute)
  show "bp_inv (bp2\<lparr>free_list := free_list bp2 @ [i]\<rparr>)"
    by (rule bp_inv_free_perm [OF inv2]) (use bp_inv_free_distinct [OF inv2] in \<open>auto simp: bp2\<close>)
  have "keeps q ?bp1' bp2"
    using keeps_set_free [OF inv1', of i q "(frames bp1 ! i)\<lparr>frame_page := p\<rparr>"]
    by (simp add: bp2 free_frame_commute)
  with k1 k1' show "keeps q bp bp2" by (blast intro: keeps_trans)
  let ?fr = "\<lparr>frame_page = mark_clean (pin p), referenced = True\<rparr>"
  let ?bp3 = "(set_frame i ?fr bp2)\<lparr>page_table := AList.update pid i (page_table bp2)\<rparr>"
  have bp3: "?bp3 = (set_frame i ?fr ?bp1')\<lparr>page_table := AList.update pid i (page_table ?bp1')\<rparr>"
    by (simp add: bp2 set_frame_def)
  have t1': "map_of (page_table ?bp1') pid = None" using t1 by simp
  show "bp_inv ?bp3" if ok
  proof -
    have ok': "read_page pid (page_at bp1 i) (disk_manager bp1) = (True, p, dm')" using r that by simp
    note pg = read_page_ok [OF ok' wf]
    have hd: "header_page_id (page_data p) = pid"
      by (simp add: pg(2) block_image_def header_page_id_def u32c.field_get_set)
    show ?thesis unfolding bp3
      by (rule bp_inv_acquire [OF inv1' t1']) (use pg p hd frm(2) in simp_all)
  qed
  show "keeps q bp ?bp3" if ok
  proof -
    have ok': "read_page pid (page_at bp1 i) (disk_manager bp1) = (True, p, dm')" using r that by simp
    have "keeps q ?bp1' ?bp3" unfolding bp3
      by (rule keeps_acquire [OF inv1' t1']) (use read_page_ok(1) [OF ok' wf] frm(4) in simp)
    with k1 k1' show ?thesis by (blast intro: keeps_trans)
  qed
qed

lemma fetch_page_keeps:
  assumes inv: "bp_inv bp"
  shows "bp_inv (snd (fetch_page pid bp))" and "keeps q bp (snd (fetch_page pid bp))"
proof -
  obtain r bp1 where v: "find_victim_frame bp = (r, bp1)" by fastforce
  note vok = find_victim_ok [OF inv v]
  show "bp_inv (snd (fetch_page pid bp))"
  proof (cases "map_of (page_table bp) pid")
    case None
    then show ?thesis
      using fetch_page_read(1,3) [of bp _ bp1 pid] vok v
      by (cases r) (auto simp: fetch_page_def victim_ok_def [of bp None] Let_def split: prod.splits)
  qed (rule fetch_page_hit(1) [OF inv])
  show "keeps q bp (snd (fetch_page pid bp))"
  proof (cases "map_of (page_table bp) pid")
    case None
    then show ?thesis
      using fetch_page_read(2,4) [of bp _ bp1 pid] vok v
      by (cases r) (auto simp: fetch_page_def victim_ok_def [of bp None] Let_def split: prod.splits)
  qed (rule fetch_page_hit(2) [OF inv])
qed

section \<open>Creating a page\<close>

lemma keeps_unknown:
  assumes "bp_inv bp" and "\<not> q < next_page_id (disk_manager bp)"
  shows "map_of (page_table bp) q = None" and "keeps q bp bp'"
proof -
  show t: "map_of (page_table bp) q = None"
  proof (cases "map_of (page_table bp) q")
    case (Some i)
    then show ?thesis using bp_inv_table(2) [OF assms(1) Some] assms(2) by (simp add: frame_holds_def)
  qed
  show "keeps q bp bp'" using t assms(2) by (simp add: keeps_def backed_def stored_page_def)
qed

lemma bp_inv_without_free:
  assumes "bp_inv (bp\<lparr>free_list := i # free_list bp\<rparr>)" and "map_of (page_table bp) q = Some j"
  shows "q < next_page_id (disk_manager bp)"
  using bp_inv_table(2) [OF assms(1), of q j] assms(2) by (simp add: frame_holds_def)

lemma new_page_keeps:
  assumes inv: "bp_inv bp" and lim: "next_page_id (disk_manager bp) \<noteq> - 1"
  shows "bp_inv (snd (new_page bp))" and "keeps q bp (snd (new_page bp))"
proof -
  obtain r bp1 where v: "find_victim_frame bp = (r, bp1)" by fastforce
  note vok = find_victim_ok [OF inv v]
  have "bp_inv (snd (new_page bp)) \<and> keeps q bp (snd (new_page bp))"
  proof (cases r)
    case None
    then show ?thesis using vok v by (simp add: new_page_def victim_ok_def)
  next
    case (Some i)
    obtain n dm' where a: "allocate_page (disk_manager bp1) = (n, dm')" by fastforce
    let ?p = "mark_clean (pin (set_page_id n (reset (page_at bp1 i))))"
    let ?fr = "\<lparr>frame_page = ?p, referenced = True\<rparr>"
    let ?bp1' = "bp1\<lparr>disk_manager := dm'\<rparr>"
    let ?bp' = "(set_frame i ?fr ?bp1')\<lparr>page_table := AList.update n i (page_table ?bp1')\<rparr>"
    have bp': "snd (new_page bp) = ?bp'" by (simp add: new_page_def v Some a Let_def set_frame_def)
    have inv1: "bp_inv (bp1\<lparr>free_list := i # free_list bp1\<rparr>)" and k1: "keeps q bp bp1"
      and next1: "next_page_id (disk_manager bp1) = next_page_id (disk_manager bp)"
      using vok Some by (simp_all add: victim_ok_def)
    have n: "n = next_page_id (disk_manager bp)" and next': "next_page_id dm' = n + 1"
      using allocate_page_unfold(1,2) [OF a] next1 by simp_all
    have nl: "n \<noteq> - 1" using lim n by simp
    have lt: "n < n + 1" using u32_suc_unat [OF nl] by (simp add: word_less_nat_alt)
    have d1: "disk_inv (disk_manager bp1)" using bp_invD(2) [OF inv1] by simp
    have "disk_inv dm'" using allocate_page_inv [OF a nl d1] .
    with inv1 have inv1': "bp_inv (?bp1'\<lparr>free_list := i # free_list ?bp1'\<rparr>)"
      using bp_inv_disk [OF inv1, of dm'] lt n next1 next' by (simp add: free_disk_commute)
    have t1: "map_of (page_table ?bp1') n = None"
    proof (cases "map_of (page_table bp1) n")
      case (Some j)
      then show ?thesis using bp_inv_without_free [OF inv1 Some] n next1 by simp
    qed simp
    have "bp_inv ?bp'" by (rule bp_inv_acquire [OF inv1' t1]) (use lt next' in simp_all)
    moreover have "keeps q bp ?bp'"
    proof (cases "q < n")
      case True
      have "stored_page dm' q = stored_page (disk_manager bp1) q"
        using allocate_page_other [OF a nl d1] True n next1 by simp
      then have "keeps q bp1 ?bp1'" by (intro keeps_cong) simp_all
      moreover have "keeps q ?bp1' ?bp'" by (rule keeps_acquire [OF inv1' t1]) (use True in auto)
      ultimately show ?thesis using k1 by (blast intro: keeps_trans)
    next
      case False
      then show ?thesis using keeps_unknown(2) [OF inv] n by simp
    qed
    ultimately show ?thesis by (simp add: bp')
  qed
  then show "bp_inv (snd (new_page bp))" and "keeps q bp (snd (new_page bp))" by simp_all
qed

section \<open>Unpinning, flushing, deleting\<close>

lemma unpin_page_keeps:
  assumes inv: "bp_inv bp"
  shows "bp_inv (snd (unpin_page pid dirty bp))" and "q \<noteq> pid \<Longrightarrow> keeps q bp (snd (unpin_page pid dirty bp))"
proof -
  have "bp_inv (snd (unpin_page pid dirty bp)) \<and> (q \<noteq> pid \<longrightarrow> keeps q bp (snd (unpin_page pid dirty bp)))"
  proof (cases "map_of (page_table bp) pid")
    case None
    then show ?thesis using inv by (simp add: unpin_page_def)
  next
    case (Some i)
    note i = bp_inv_table [OF inv Some]
    note fr = bp_inv_frame [OF inv i(1)]
    have len: "i < length (frames bp)" using i(1) bp_invD(1) [OF inv] by simp
    have id: "page_id (page_at bp i) = pid" using i(2) by (simp add: frame_holds_def)
    let ?bp1 = "set_page i (unpin (page_at bp i)) bp"
    let ?bp2 = "set_page i (mark_dirty (page_at ?bp1 i)) ?bp1"
    have inv1: "bp_inv ?bp1" unfolding set_page_set_frame
      by (rule bp_inv_set_frame [OF inv i(1)]) (simp_all add: i fr)
    have at1: "page_at ?bp1 i = unpin (page_at bp i)" using len by (simp add: set_page_set_frame page_at_set_frame)
    have k1: "keeps q bp ?bp1" if "q \<noteq> pid" unfolding set_page_set_frame
      by (rule keeps_set_frame [OF inv i(1)]) (use id that in simp_all)
    have inv2: "bp_inv (store_dirty (dirty_count ?bp1 + 1) ?bp2)" if "\<not> is_dirty (page_at bp i)"
      unfolding set_page_set_frame [of i _ ?bp1]
      by (rule bp_inv_set_dirty [OF inv1]) (use i fr at1 that in simp_all)
    have k2: "keeps q ?bp1 ?bp2" if "q \<noteq> pid" unfolding set_page_set_frame [of i _ ?bp1]
      by (rule keeps_set_frame [OF inv1]) (use i id that at1 in simp_all)
    show ?thesis using Some inv inv1 inv2 k1 k2 at1
      by (auto simp: unpin_page_def Let_def intro: keeps_trans)
  qed
  then show "bp_inv (snd (unpin_page pid dirty bp))"
    and "q \<noteq> pid \<Longrightarrow> keeps q bp (snd (unpin_page pid dirty bp))" by simp_all
qed

text \<open>Unpinning the page itself keeps its content, too; only the pin goes.\<close>

lemma unpin_page_backed:
  assumes inv: "bp_inv bp" and b: "backed bp pid"
  shows "backed (snd (unpin_page pid dirty bp)) pid"
    and "bp_view (snd (unpin_page pid dirty bp)) pid = bp_view bp pid"
  using b bp_inv_table(1) [OF inv, of pid] bp_invD(1) [OF inv]
  by (auto simp: unpin_page_def Let_def backed_def bp_view_def set_page_set_frame page_at_set_frame
      split: option.splits)

lemma flush_page_keeps:
  assumes inv: "bp_inv bp"
  shows "bp_inv (snd (flush_page pid bp))" and "keeps q bp (snd (flush_page pid bp))"
proof -
  have "bp_inv (snd (flush_page pid bp)) \<and> keeps q bp (snd (flush_page pid bp))"
  proof (cases "\<exists>i. map_of (page_table bp) pid = Some i \<and> is_dirty (page_at bp i)")
    case False
    then show ?thesis using inv by (auto simp: flush_page_def split: option.split)
  next
    case True
    then obtain i where t: "map_of (page_table bp) pid = Some i" and d: "is_dirty (page_at bp i)" by blast
    have len: "i < length (frames bp)" using bp_inv_table(1) [OF inv t] bp_invD(1) [OF inv] by simp
    obtain ok p' dm' where w: "write_page pid (page_at bp i) (disk_manager bp) = (ok, p', dm')"
      using prod_cases3 by blast
    let ?bp1 = "(set_page i p' bp)\<lparr>disk_manager := dm'\<rparr>"
    have at1: "page_at ?bp1 i = p'" using len by (simp add: set_page_set_frame page_at_set_frame)
    have p': "is_dirty p'" using write_page_unfold(1) [OF w] d by simp
    have inv1: "bp_inv ?bp1" using bp_inv_write [OF inv t w] .
    have k1: "keeps q bp ?bp1" using keeps_write [OF inv t d w] .
    have t1: "map_of (page_table ?bp1) pid = Some i" using t by simp
    have inv2: "bp_inv (store_dirty (dirty_count ?bp1 - 1) (set_page i (mark_clean p') ?bp1))"
      using bp_inv_clean [OF inv1 t1] p' at1 by simp
    have k2: "keeps q ?bp1 (set_page i (mark_clean p') ?bp1)" if ok
      using keeps_clean [OF inv1 t1] stored_after_write [OF inv t] w that at1 by simp
    show ?thesis using t d w inv1 k1 inv2 k2
      by (auto simp: flush_page_def Let_def intro: keeps_trans)
  qed
  then show "bp_inv (snd (flush_page pid bp))" and "keeps q bp (snd (flush_page pid bp))" by simp_all
qed

lemma flush_pages_keeps:
  assumes "bp_inv bp"
  shows "bp_inv (snd (flush_pages pids bp))" and "keeps q bp (snd (flush_pages pids bp))"
proof -
  have "bp_inv (snd (flush_pages pids bp)) \<and> keeps q bp (snd (flush_pages pids bp))"
    using assms
  proof (induction pids arbitrary: bp)
    case (Cons p pids)
    then have "bp_inv (snd (flush_page p bp))" "keeps q bp (snd (flush_page p bp))"
      using flush_page_keeps by blast+
    with Cons.IH [of "snd (flush_page p bp)"] show ?case
      by (auto simp: Let_def split: prod.split intro: keeps_trans)
  qed simp
  then show "bp_inv (snd (flush_pages pids bp))" and "keeps q bp (snd (flush_pages pids bp))" by simp_all
qed

lemma sync_all_keeps:
  assumes "bp_inv bp"
  shows "bp_inv (sync_all bp)" and "keeps q bp (sync_all bp)"
proof -
  show "bp_inv (sync_all bp)" unfolding sync_all_def
    using disk_sync_inv [OF bp_invD(2) [OF assms]] by (intro bp_inv_disk assms) simp_all
  show "keeps q bp (sync_all bp)" by (rule keeps_cong) (simp_all add: sync_all_def)
qed


lemma delete_page_keeps:
  assumes inv: "bp_inv bp"
  shows "bp_inv (snd (delete_page pid bp))" and "q \<noteq> pid \<Longrightarrow> keeps q bp (snd (delete_page pid bp))"
proof -
  have "bp_inv (snd (delete_page pid bp)) \<and> (q \<noteq> pid \<longrightarrow> keeps q bp (snd (delete_page pid bp)))"
  proof (cases "\<exists>i. map_of (page_table bp) pid = Some i \<and> \<not> is_pinned (page_at bp i)")
    case False
    then show ?thesis using inv by (auto simp: delete_page_def split: option.split)
  next
    case True
    then obtain i where t: "map_of (page_table bp) pid = Some i" and np: "\<not> is_pinned (page_at bp i)" by blast
    note i = bp_inv_table [OF inv t]
    let ?c = "if is_dirty (page_at bp i) then dirty_count bp - 1 else dirty_count bp"
    let ?bp1 = "if is_dirty (page_at bp i)
      then store_dirty (dirty_count bp - 1) (set_page i (mark_clean (page_at bp i)) bp) else bp"
    let ?fr = "(frames bp ! i)\<lparr>frame_page := reset (page_at bp i)\<rparr>"
    let ?fl = "free_list bp @ [i]"
    let ?bp' = "(set_frame i ?fr ?bp1)\<lparr>page_table := AList.delete pid (page_table ?bp1), free_list := ?fl\<rparr>"
    have "dirty_page_count_m (bp_metrics bp) = dirty_count bp" using bp_invD(5) [OF inv] .
    note dec = decrement_eq_store [OF this]
    have bp': "snd (delete_page pid bp) = ?bp'"
      by (rule BufferPool.equality) (simp_all add: delete_page_def t np dec deallocate_page_def
          set_page_def set_frame_def store_dirty_def reset_def Let_def)
    have inv1: "bp_inv ?bp1" using bp_inv_clean [OF inv t] inv by simp
    have t1: "map_of (page_table ?bp1) pid = Some i" using t by simp
    have at1: "\<not> is_dirty (page_at ?bp1 i)"
      using i(1) bp_invD(1) [OF inv] by (simp add: set_page_set_frame page_at_set_frame)
    have fl: "distinct ?fl" "set ?fl = insert i (set (free_list ?bp1))"
      using bp_inv_free_distinct [OF inv] i(3) by auto
    have "bp_inv ?bp'" by (rule bp_inv_release [OF inv1 t1 at1 _ fl]) simp
    moreover have "keeps q bp ?bp'" if "q \<noteq> pid"
    proof -
      have "map_of (page_table bp) q \<noteq> Some i" using bp_inv_table_inj [OF inv t] that by blast
      then have "keeps q bp ?bp1"
        by (auto simp: keeps_def backed_def bp_view_def set_page_set_frame page_at_set_frame split: option.splits)
      moreover have "keeps q ?bp1 ((set_frame i ?fr ?bp1)\<lparr>page_table := AList.delete pid (page_table ?bp1)\<rparr>)"
        by (rule keeps_release [OF inv1 t1]) (use that in simp)
      then have "keeps q ?bp1 ?bp'" by (simp only: keeps_record)
      ultimately show ?thesis by (rule keeps_trans)
    qed
    ultimately show ?thesis unfolding bp' by blast
  qed
  then show "bp_inv (snd (delete_page pid bp))"
    and "q \<noteq> pid \<Longrightarrow> keeps q bp (snd (delete_page pid bp))" by simp_all
qed

lemma client_write_keeps:
  assumes inv: "bp_inv bp" and t: "map_of (page_table bp) pid = Some i"
  shows "bp_inv (client_write i off bs bp)" and "q \<noteq> pid \<Longrightarrow> keeps q bp (client_write i off bs bp)"
proof -
  note i = bp_inv_table [OF inv t]
  let ?d = "page_data (page_at bp i)"
  let ?p = "(page_at bp i)\<lparr>page_data := write_at (PageHeader_SIZE + off) bs ?d\<rparr>"
  have len: "length ?d = PAGE_SIZE" using i(4) by (simp add: wf_page_def)
  have hd: "header_page_id (page_data ?p) = header_page_id ?d"
    using len by (simp add: header_page_id_def layout_defs read_write_before)
  show "bp_inv (client_write i off bs bp)"
  proof (cases "PageHeader_SIZE + off + length bs \<le> PAGE_SIZE")
    case True
    then have "wf_page ?p" using len by (simp add: wf_page_def)
    then have "bp_inv (set_page i ?p bp)" unfolding set_page_set_frame
      by (intro bp_inv_set_frame [OF inv i(1)]) (simp_all add: hd [simplified] bp_inv_frame [OF inv i(1)] i)
    then show ?thesis using True by (simp add: client_write_def)
  qed (simp add: client_write_def inv)
  assume "q \<noteq> pid"
  then have "map_of (page_table bp) q \<noteq> Some i" using bp_inv_table_inj [OF inv t] by blast
  then show "keeps q bp (client_write i off bs bp)"
    by (auto simp: client_write_def keeps_def backed_def bp_view_def set_page_set_frame page_at_set_frame
        split: option.splits)
qed

lemma BufferPool_new_inv:
  assumes "disk_inv dm" and "n < 2 ^ 64" and "dirty_page_count_m m = 0"
  shows "bp_inv (BufferPool_new n dm m)"
  using assms by (auto simp: bp_inv_def frames_inv_def table_inv_def counters_inv_def BufferPool_new_def
      dirty_frames_def page_at_def Page_default_def wf_page_def atLeast0LessThan)

lemma BufferPool_destroy_keeps:
  assumes "bp_inv bp"
  shows "bp_inv (BufferPool_destroy bp)" and "keeps q bp (BufferPool_destroy bp)"
proof -
  let ?b = "snd (flush_pages (get_dirty_pages bp) bp)"
  note f = flush_pages_keeps [OF assms, where pids = "get_dirty_pages bp"]
  show "bp_inv (BufferPool_destroy bp)"
    using assms sync_all_keeps(1) [OF f(1)] by (simp add: BufferPool_destroy_def Let_def)
  show "keeps q bp (BufferPool_destroy bp)"
    using keeps_trans [OF f(2) sync_all_keeps(2) [OF f(1)]] by (simp add: BufferPool_destroy_def Let_def)
qed

end
