(* ===== verification/Buffer_Pool_Runs.thy ===== *)
theory Buffer_Pool_Runs
  imports Buffer_Pool_Inv
begin

text \<open>
  Runs of the buffer pool. A step is one call of the class or one store of a client into a page it
  has pinned; every operation takes the latch, so a run of several threads is a sequence of such
  steps in some order. The invariant and the content of a page are lifted to runs through
  \<open>transition_invariant\<close>; the other sections show that the clock sweep finds a victim whenever there
  is one, and what flushing achieves.
\<close>

section \<open>Steps\<close>

datatype bp_op =
    Fetch PageId | New | Unpin PageId bool | Flush PageId | FlushMany "PageId list" | Delete PageId
  | SyncAll | Store PageId nat bytes

text \<open>
  \<open>New\<close> is guarded by the exhaustion of identifiers, and \<open>Store\<close> by the pin that gives the client
  its pointer.
\<close>

inductive bp_step :: "bp_op \<Rightarrow> BufferPool \<Rightarrow> BufferPool \<Rightarrow> bool" where
  step_fetch: "bp_step (Fetch p) bp (snd (fetch_page p bp))"
| step_new: "next_page_id (disk_manager bp) \<noteq> - 1 \<Longrightarrow> bp_step New bp (snd (new_page bp))"
| step_unpin: "bp_step (Unpin p d) bp (snd (unpin_page p d bp))"
| step_flush: "bp_step (Flush p) bp (snd (flush_page p bp))"
| step_flush_many: "bp_step (FlushMany ps) bp (snd (flush_pages ps bp))"
| step_delete: "bp_step (Delete p) bp (snd (delete_page p bp))"
| step_sync: "bp_step SyncAll bp (sync_all bp)"
| step_store: "map_of (page_table bp) p = Some i \<Longrightarrow> is_pinned (page_at bp i) \<Longrightarrow>
    bp_step (Store p off bs) bp (client_write i off bs bp)"

inductive_cases bp_stepE: "bp_step op bp bp'"

text \<open>The steps that may change the content under an identifier, and those that may drop its pin.\<close>

fun leaves_content :: "PageId \<Rightarrow> bp_op \<Rightarrow> bool" where
  "leaves_content q (Delete p) = (p \<noteq> q)"
| "leaves_content q (Store p off bs) = (p \<noteq> q)"
| "leaves_content q op = True"

fun leaves_pin :: "PageId \<Rightarrow> bp_op \<Rightarrow> bool" where
  "leaves_pin q (Delete p) = (p \<noteq> q)"
| "leaves_pin q (Store p off bs) = (p \<noteq> q)"
| "leaves_pin q (Unpin p d) = (p \<noteq> q)"
| "leaves_pin q op = True"

lemma bp_step_inv:
  assumes "bp_step op bp bp'" and "bp_inv bp"
  shows "bp_inv bp'"
  using assms
  by (cases rule: bp_step.cases)
     (simp_all add: fetch_page_keeps new_page_keeps unpin_page_keeps flush_page_keeps flush_pages_keeps
        delete_page_keeps sync_all_keeps client_write_keeps)

lemma bp_step_keeps:
  assumes "bp_step op bp bp'" and "bp_inv bp" and "leaves_pin q op"
  shows "keeps q bp bp'"
  using assms
  by (cases rule: bp_step.cases)
     (auto simp: fetch_page_keeps new_page_keeps unpin_page_keeps flush_page_keeps flush_pages_keeps
        delete_page_keeps sync_all_keeps client_write_keeps)

lemma bp_step_content:
  assumes "bp_step op bp bp'" and "bp_inv bp" and "leaves_content q op" and "backed bp q"
  shows "backed bp' q" and "bp_view bp' q = bp_view bp q"
proof -
  have "backed bp' q \<and> bp_view bp' q = bp_view bp q"
  proof (cases "\<exists>d. op = Unpin q d")
    case True
    with assms show ?thesis using unpin_page_backed by (auto elim: bp_stepE)
  next
    case False
    with assms(3) have "leaves_pin q op" by (cases op) auto
    with bp_step_keeps [OF assms(1,2)] assms(4) show ?thesis by (simp add: keeps_def)
  qed
  then show "backed bp' q" and "bp_view bp' q = bp_view bp q" by simp_all
qed

definition bp_any_step :: "BufferPool \<Rightarrow> BufferPool \<Rightarrow> bool" where
  "bp_any_step bp bp' \<longleftrightarrow> (\<exists>op. bp_step op bp bp')"

definition bp_step_leaving :: "PageId \<Rightarrow> BufferPool \<Rightarrow> BufferPool \<Rightarrow> bool" where
  "bp_step_leaving q bp bp' \<longleftrightarrow> (\<exists>op. leaves_content q op \<and> bp_step op bp bp')"

interpretation pool: transition_invariant bp_any_step bp_inv
  by unfold_locales (auto simp: bp_any_step_def intro: bp_step_inv)

interpretation pool_content: transition_invariant "bp_step_leaving q"
  "\<lambda>bp. bp_inv bp \<and> backed bp q \<and> bp_view bp q = v" for q v
  by unfold_locales (auto simp: bp_step_leaving_def intro: bp_step_inv bp_step_content)

section \<open>The clock sweep\<close>

lemma sweep_append:
  "sweep (xs @ ys) bp = (case sweep xs bp of (None, bp') \<Rightarrow> sweep ys bp' | (Some i, bp') \<Rightarrow> (Some i, bp'))"
  by (induction xs bp rule: sweep.induct) (auto split: prod.splits bool.splits)

lemma evict_frame_reliable:
  assumes "bp_inv bp" and "disk_reliable (disk_manager bp)" and "evict_frame i bp = (ok, bp')"
  shows "ok" and "disk_reliable (disk_manager bp')"
proof -
  obtain b p' dm' where w: "write_page (page_id (page_at bp i)) (page_at bp i) (disk_manager bp) = (b, p', dm')"
    using prod_cases3 by blast
  note rel = write_page_reliable [OF w bp_invD(2) [OF assms(1)] assms(2)]
  show ok using assms(3) w rel by (auto simp: evict_frame_def Let_def split: if_splits)
  show "disk_reliable (disk_manager bp')"
    using assms(2,3) w rel by (auto simp: evict_frame_def Let_def split: if_splits)
qed

text \<open>A frame that a fruitless pass has visited is pinned or has lost its reference bit.\<close>

lemma sweep_none:
  assumes "sweep xs bp = (None, bp')" and "bp_inv bp" and "free_list bp = []"
    and "set xs \<subseteq> {..<pool_size bp}" and "disk_reliable (disk_manager bp)"
  shows "bp_inv bp' \<and> free_list bp' = [] \<and> pool_size bp' = pool_size bp \<and>
    clock_hand bp' = clock_hand bp \<and> disk_manager bp' = disk_manager bp \<and> page_at bp' = page_at bp \<and>
    (\<forall>i. referenced (frames bp' ! i) \<longrightarrow> referenced (frames bp ! i)) \<and>
    (\<forall>i \<in> set xs. \<not> is_pinned (page_at bp i) \<longrightarrow> referenced (frames bp ! i) \<and> \<not> referenced (frames bp' ! i))"
  using assms
proof (induction xs arbitrary: bp)
  case (Cons i xs)
  have i: "i < pool_size bp" "i < length (frames bp)"
    using Cons.prems(4) bp_invD(1) [OF Cons.prems(2)] by auto
  have "map_of (page_table bp) (page_id (page_at bp i)) = Some i"
    using bp_inv_not_free [OF Cons.prems(2) i(1)] Cons.prems(3) by simp
  then have valid: "page_id (page_at bp i) \<noteq> INVALID_PAGE_ID"
    using frame_holds_valid bp_inv_table(2) [OF Cons.prems(2)] by blast
  show ?case
  proof (cases "is_pinned (page_at bp i)")
    case True
    with Cons.prems(1) have "sweep xs bp = (None, bp')" by simp
    from Cons.IH [OF this] Cons.prems True show ?thesis by simp
  next
    case False
    have ref: "referenced (frames bp ! i)"
    proof (rule ccontr)
      assume "\<not> referenced (frames bp ! i)"
      with False valid Cons.prems(1) evict_frame_reliable(1) [OF Cons.prems(2,5)]
      show False by (auto split: prod.splits bool.splits)
    qed
    let ?bp1 = "set_frame i ((frames bp ! i)\<lparr>referenced := False\<rparr>) bp"
    have "sweep xs ?bp1 = (None, bp')" using Cons.prems(1) False valid ref by simp
    moreover have "bp_inv ?bp1"
      using unreference_victim_ok [OF Cons.prems(2) i(1)] by (simp add: victim_ok_def)
    moreover have at: "page_at ?bp1 = page_at bp" by (rule ext) (simp add: page_at_set_frame)
    ultimately have IH: "bp_inv bp' \<and> free_list bp' = [] \<and> pool_size bp' = pool_size bp \<and>
      clock_hand bp' = clock_hand bp \<and> disk_manager bp' = disk_manager bp \<and> page_at bp' = page_at bp \<and>
      (\<forall>j. referenced (frames bp' ! j) \<longrightarrow> referenced (frames ?bp1 ! j)) \<and>
      (\<forall>j \<in> set xs. \<not> is_pinned (page_at bp j) \<longrightarrow> referenced (frames ?bp1 ! j) \<and> \<not> referenced (frames bp' ! j))"
      using Cons.IH [of ?bp1] Cons.prems by simp
    have nth: "referenced (frames ?bp1 ! j) = (referenced (frames bp ! j) \<and> j \<noteq> i)" for j
      using i(2) by (auto simp: nth_list_update)
    from IH ref show ?thesis unfolding nth by auto
  qed
qed auto

lemma clock_pass_covers: "i < pool_size bp \<Longrightarrow> i \<in> set (clock_pass bp)"
proof -
  assume i: "i < pool_size bp"
  let ?n = "pool_size bp" and ?h = "clock_hand bp mod pool_size bp"
  let ?k = "(i + ?n - ?h) mod ?n"
  have h: "?h < ?n" using i by simp
  have "(clock_hand bp + ?k) mod ?n = (?h + (i + ?n - ?h)) mod ?n"
    by (metis mod_add_left_eq mod_add_right_eq)
  also have "?h + (i + ?n - ?h) = i + ?n" using h by linarith
  finally have "(clock_hand bp + ?k) mod ?n = i" using i by simp
  then show ?thesis using i by (auto simp: clock_pass_def intro!: image_eqI [of _ _ ?k])
qed

text \<open>Two passes are enough: the first one clears the reference bits, the second one meets an unpinned frame.\<close>

lemma clock_sweep_finds:
  assumes inv: "bp_inv bp" and fl: "free_list bp = []" and rel: "disk_reliable (disk_manager bp)"
    and i: "i < pool_size bp" "\<not> is_pinned (page_at bp i)"
  shows "fst (clock_sweep bp) \<noteq> None"
proof
  assume "fst (clock_sweep bp) = None"
  then obtain bp2 where "sweep (clock_pass bp @ clock_pass bp) bp = (None, bp2)"
    unfolding clock_sweep_def by (metis prod.collapse)
  then obtain bp1 where 1: "sweep (clock_pass bp) bp = (None, bp1)" and 2: "sweep (clock_pass bp) bp1 = (None, bp2)"
    by (auto simp: sweep_append split: prod.splits option.splits)
  have mem: "i \<in> set (clock_pass bp)" using clock_pass_covers i(1) .
  note first = sweep_none [OF 1 inv fl clock_pass_range rel]
  then have "\<not> referenced (frames bp1 ! i)" using mem i(2) by blast
  moreover have "referenced (frames bp1 ! i)"
    using sweep_none [OF 2] first clock_pass_range [of bp] rel mem i(2) by simp
  ultimately show False by blast
qed

lemma find_victim_finds:
  assumes "bp_inv bp" and "disk_reliable (disk_manager bp)" and "i < pool_size bp" and "\<not> is_pinned (page_at bp i)"
  shows "fst (find_victim_frame bp) \<noteq> None"
  using clock_sweep_finds [OF assms(1) _ assms(2-4)]
  by (auto simp: find_victim_frame_def split: list.split)

lemma sweep_all_pinned: "\<forall>i \<in> set xs. is_pinned (page_at bp i) \<Longrightarrow> sweep xs bp = (None, bp)"
  by (induction xs) auto

lemma find_victim_all_pinned:
  assumes inv: "bp_inv bp" and p: "\<forall>i < pool_size bp. is_pinned (page_at bp i)"
  shows "find_victim_frame bp = (None, bp)"
proof -
  have "free_list bp = []"
  proof (cases "free_list bp")
    case (Cons i l)
    then have "i < pool_size bp" "\<not> is_pinned (page_at bp i)"
      using bp_inv_free [OF inv, of i] by (simp_all add: is_pinned_def)
    then show ?thesis using p by blast
  qed
  then show ?thesis
    using sweep_all_pinned [of "clock_pass bp @ clock_pass bp" bp] clock_pass_range [of bp] p
    by (auto simp: find_victim_frame_def clock_sweep_def)
qed


text \<open>The search leaves the stored content of a page that is not cached alone, and a reliable disk reliable.\<close>

lemma evict_frame_stored:
  assumes inv: "bp_inv bp" and i: "i < pool_size bp" "i \<notin> set (free_list bp)"
    and t: "map_of (page_table bp) q = None" and e: "evict_frame i bp = (ok, bp')"
  shows "stored_page (disk_manager bp') q = stored_page (disk_manager bp) q"
proof -
  let ?pid = "page_id (page_at bp i)"
  obtain b p' dm' where w: "write_page ?pid (page_at bp i) (disk_manager bp) = (b, p', dm')"
    using prod_cases3 by blast
  have "map_of (page_table bp) ?pid = Some i" using bp_inv_not_free [OF inv i] .
  then have "q \<noteq> ?pid" using t by auto
  from write_page_other [OF w bp_invD(2) [OF inv] bp_inv_frame(1) [OF inv i(1)] this]
  show ?thesis using e w by (auto simp: evict_frame_def Let_def split: if_splits)
qed

lemma sweep_stored:
  assumes "sweep xs bp = (r, bp')" and "bp_inv bp" and "free_list bp = []"
    and "set xs \<subseteq> {..<pool_size bp}" and "disk_reliable (disk_manager bp)" and "map_of (page_table bp) q = None"
  shows "stored_page (disk_manager bp') q = stored_page (disk_manager bp) q \<and> disk_reliable (disk_manager bp')"
  using assms
proof (induction xs arbitrary: bp)
  case (Cons i xs)
  have i: "i < pool_size bp" "i \<notin> set (free_list bp)" using Cons.prems by auto
  obtain ok bp2 where e: "evict_frame i bp = (ok, bp2)" by fastforce
  note rel = evict_frame_reliable [OF Cons.prems(2,5) e]
  have inv1: "bp_inv (set_frame i ((frames bp ! i)\<lparr>referenced := False\<rparr>) bp)"
    using unreference_victim_ok [OF Cons.prems(2) i(1)] by (simp add: victim_ok_def)
  show ?case
    using Cons.prems Cons.IH [of bp] Cons.IH [of "set_frame i ((frames bp ! i)\<lparr>referenced := False\<rparr>) bp"]
      e rel inv1 evict_frame_stored [OF Cons.prems(2) i Cons.prems(6) e]
    by (auto split: if_splits)
qed auto

lemma find_victim_stored:
  assumes "find_victim_frame bp = (r, bp')" and "bp_inv bp" and "disk_reliable (disk_manager bp)"
    and "map_of (page_table bp) q = None"
  shows "stored_page (disk_manager bp') q = stored_page (disk_manager bp) q"
    and "disk_reliable (disk_manager bp')"
proof -
  have "stored_page (disk_manager bp') q = stored_page (disk_manager bp) q \<and> disk_reliable (disk_manager bp')"
  proof (cases "free_list bp")
    case Nil
    then show ?thesis
      using assms sweep_stored [of "clock_pass bp @ clock_pass bp" bp r bp' q] clock_pass_range [of bp]
      by (simp add: find_victim_frame_def clock_sweep_def)
  qed (use assms in \<open>auto simp: find_victim_frame_def\<close>)
  then show "stored_page (disk_manager bp') q = stored_page (disk_manager bp) q"
    and "disk_reliable (disk_manager bp')" by simp_all
qed

section \<open>The outcome of a fetch\<close>

text \<open>A page that is returned is in the table, pinned, and shows the content of its identifier.\<close>

lemma fetch_page_some:
  assumes inv: "bp_inv bp" and f: "fetch_page pid bp = (Some i, bp')"
  shows "map_of (page_table bp') pid = Some i" and "is_pinned (page_at bp' i)"
    and "page_body (page_data (page_at bp' i)) = the (bp_view bp' pid)"
proof -
  have "map_of (page_table bp') pid = Some i \<and> is_pinned (page_at bp' i)"
  proof (cases "map_of (page_table bp) pid")
    case (Some k)
    have "k < length (frames bp)" "0 \<le> pin_count (page_at bp k)"
      using bp_inv_table(1) [OF inv Some] bp_invD(1) [OF inv] bp_inv_frame(2) [OF inv] by auto
    then show ?thesis using f Some by (auto simp: fetch_page_def page_at_set_frame is_pinned_def)
  next
    case None
    obtain r bp1 where v: "find_victim_frame bp = (r, bp1)" by fastforce
    with f None obtain ok p dm' where r: "r = Some i"
      and rd: "read_page pid (page_at bp1 i) (disk_manager bp1) = (ok, p, dm')" and ok
      and b: "bp' = (set_frame i \<lparr>frame_page = mark_clean (pin p), referenced = True\<rparr>
            ((set_page i p bp1)\<lparr>disk_manager := dm'\<rparr>))
          \<lparr>page_table := AList.update pid i (page_table bp1)\<rparr>"
      by (cases r) (auto simp: fetch_page_def Let_def split: prod.splits if_splits)
    have inv1: "bp_inv (bp1\<lparr>free_list := i # free_list bp1\<rparr>)"
      using find_victim_ok [OF inv v] r by (simp add: victim_ok_def)
    note free = bp_inv_free [OF inv1, of i, simplified]
    have "i < length (frames bp1)" using free(1) bp_invD(1) [OF inv1] by simp
    moreover have "pin_count p = 0" using read_page_frame(5) [OF rd] free(3) by simp
    ultimately show ?thesis by (simp add: b update_conv' page_at_set_frame is_pinned_def)
  qed
  then show t: "map_of (page_table bp') pid = Some i" and "is_pinned (page_at bp' i)" by simp_all
  show "page_body (page_data (page_at bp' i)) = the (bp_view bp' pid)" by (simp add: bp_view_def t)
qed

lemma fetch_page_outcome:
  assumes inv: "bp_inv bp" and rel: "disk_reliable (disk_manager bp)"
  shows "fst (fetch_page pid bp) \<noteq> None \<longleftrightarrow>
    map_of (page_table bp) pid \<noteq> None \<or>
    (stored_page (disk_manager bp) pid \<noteq> None \<and> (\<exists>i < pool_size bp. \<not> is_pinned (page_at bp i)))"
proof (cases "map_of (page_table bp) pid")
  case None
  obtain r bp1 where v: "find_victim_frame bp = (r, bp1)" by fastforce
  note vok = find_victim_ok [OF inv v]
  show ?thesis
  proof (cases "\<exists>i < pool_size bp. \<not> is_pinned (page_at bp i)")
    case False
    then have "find_victim_frame bp = (None, bp)" using find_victim_all_pinned [OF inv] by blast
    then show ?thesis using False None by (auto simp: fetch_page_def)
  next
    case True
    then obtain i where r: "r = Some i" using find_victim_finds [OF inv rel] v by fastforce
    note st = find_victim_stored [OF v inv rel None]
    have inv1: "bp_inv (bp1\<lparr>free_list := i # free_list bp1\<rparr>)" using vok r by (simp add: victim_ok_def)
    have "wf_page (page_at bp1 i)"
      using bp_inv_frame(1) [OF inv1, of i] bp_inv_free(1) [OF inv1, of i] by simp
    then have "fst (read_page pid (page_at bp1 i) (disk_manager bp1)) \<longleftrightarrow>
        stored_page (disk_manager bp1) pid \<noteq> None"
      using bp_invD(2) [OF inv1] st(2) by (intro read_page_reliable) simp_all
    then show ?thesis using True None v r st(1)
      by (auto simp: fetch_page_def Let_def split: prod.splits)
  qed
qed (simp add: fetch_page_def)


section \<open>Dirty pages and flushing\<close>

lemma get_dirty_pages_iff:
  assumes "bp_inv bp"
  shows "pid \<in> set (get_dirty_pages bp) \<longleftrightarrow> (\<exists>i. map_of (page_table bp) pid = Some i \<and> is_dirty (page_at bp i))"
  using map_of_eq_Some_iff [OF bp_invD(3) [OF assms]] by (force simp: get_dirty_pages_def)

lemma get_dirty_pages_count:
  assumes inv: "bp_inv bp"
  shows "length (get_dirty_pages bp) = unat (dirty_count bp)" and "distinct (get_dirty_pages bp)"
proof -
  let ?D = "\<lambda>i. is_dirty (page_at bp i)"
  have T: "table_inv bp" and len: "length (frames bp) = pool_size bp"
    using inv by (simp_all add: bp_inv_def frames_inv_def)
  have d: "distinct (map snd (page_table bp))" using T by (simp add: table_inv_def)
  have "get_dirty_pages bp = map fst (filter (\<lambda>e. ?D (snd e)) (page_table bp))"
    by (simp add: get_dirty_pages_def case_prod_beta')
  then have "length (get_dirty_pages bp) = length (filter ?D (map snd (page_table bp)))"
    by (simp add: filter_map comp_def)
  also have "\<dots> = card (set (filter ?D (map snd (page_table bp))))"
    using d by (intro distinct_card [symmetric] distinct_filter)
  also have "set (filter ?D (map snd (page_table bp))) = {i. i < length (frames bp) \<and> ?D i}"
  proof -
    have all: "snd ` set (page_table bp) \<union> set (free_list bp) = {..<pool_size bp}"
      and clean: "\<forall>i \<in> set (free_list bp). \<not> ?D i"
      using T by (simp_all add: table_inv_def)
    have "i \<in> snd ` set (page_table bp) \<and> ?D i \<longleftrightarrow> i < length (frames bp) \<and> ?D i" for i
    proof -
      have "i \<in> snd ` set (page_table bp) \<or> i \<in> set (free_list bp) \<longleftrightarrow> i < length (frames bp)"
        using all unfolding len by (metis Un_iff lessThan_iff)
      with clean show ?thesis by metis
    qed
    then show ?thesis by (auto simp only: set_filter set_map)
  qed
  also have "card \<dots> = dirty_frames bp"
    by (simp add: dirty_frames_def length_filter_conv_card)
  finally show "length (get_dirty_pages bp) = unat (dirty_count bp)" using bp_invD(4) [OF inv] by simp
  show "distinct (get_dirty_pages bp)"
    using bp_invD(3) [OF inv] by (simp add: get_dirty_pages_def distinct_map_filter)
qed

text \<open>A flush that reports success leaves the content of the page on disk.\<close>

lemma flush_page_stored:
  assumes inv: "bp_inv bp" and t: "map_of (page_table bp) pid = Some i" and d: "is_dirty (page_at bp i)"
    and f: "flush_page pid bp = (True, bp')"
  shows "stored_page (disk_manager bp') pid = bp_view bp pid"
proof -
  obtain ok p' dm' where w: "write_page pid (page_at bp i) (disk_manager bp) = (ok, p', dm')"
    using prod_cases3 by blast
  with f t d have ok and dm': "disk_manager bp' = dm'" by (auto simp: flush_page_def Let_def split: if_splits)
  then show ?thesis
    using stored_after_write [OF inv t] w write_page_unfold(1) [OF w] by (simp add: bp_view_def t)
qed

lemma flush_page_other_stored:
  assumes inv: "bp_inv bp" and q: "q \<noteq> pid" and f: "flush_page pid bp = (ok, bp')"
  shows "stored_page (disk_manager bp') q = stored_page (disk_manager bp) q"
proof (cases "map_of (page_table bp) pid")
  case (Some i)
  obtain b p' dm' where w: "write_page pid (page_at bp i) (disk_manager bp) = (b, p', dm')"
    using prod_cases3 by blast
  from write_page_other [OF w bp_invD(2) [OF inv] bp_inv_table(4) [OF inv Some] q] show ?thesis
    using f Some w by (auto simp: flush_page_def Let_def split: if_splits)
qed (use f in \<open>auto simp: flush_page_def\<close>)

lemma flush_page_reliable:
  assumes inv: "bp_inv bp" and rel: "disk_reliable (disk_manager bp)" and f: "flush_page pid bp = (ok, bp')"
  shows "ok" and "disk_reliable (disk_manager bp')" and "page_table bp' = page_table bp"
    and "get_dirty_pages bp' = filter (\<lambda>q. q \<noteq> pid) (get_dirty_pages bp)"
    and "bp_view bp' q = bp_view bp q"
    and "q \<in> set (get_dirty_pages bp) \<Longrightarrow> q \<notin> set (get_dirty_pages bp') \<Longrightarrow>
      stored_page (disk_manager bp') q = bp_view bp q"
proof -
  have main: "ok \<and> disk_reliable (disk_manager bp') \<and> page_table bp' = page_table bp \<and>
      (\<forall>j. is_dirty (page_at bp' j) \<longleftrightarrow> is_dirty (page_at bp j) \<and> map_of (page_table bp) pid \<noteq> Some j) \<and>
      (\<forall>j. page_body (page_data (page_at bp' j)) = page_body (page_data (page_at bp j))) \<and>
      (\<forall>q. map_of (page_table bp) q = None \<longrightarrow>
        stored_page (disk_manager bp') q = stored_page (disk_manager bp) q)"
  proof (cases "map_of (page_table bp) pid")
    case None
    then show ?thesis using f rel by (auto simp: flush_page_def)
  next
    case (Some i)
    have len: "i < length (frames bp)" using bp_inv_table(1) [OF inv Some] bp_invD(1) [OF inv] by simp
    obtain b p' dm' where w: "write_page pid (page_at bp i) (disk_manager bp) = (b, p', dm')"
      using prod_cases3 by blast
    note r = write_page_reliable [OF w bp_invD(2) [OF inv] rel]
    have p': "p' = update_checksum (page_at bp i)" using write_page_unfold(1) [OF w] .
    have "stored_page (disk_manager bp') q = stored_page (disk_manager bp) q"
      if "map_of (page_table bp) q = None" for q
      by (rule flush_page_other_stored [OF inv _ f]) (use that Some in auto)
    then show ?thesis using f Some w r len rel
      by (cases "is_dirty (page_at bp i)")
         (auto simp: flush_page_def Let_def set_page_set_frame page_at_set_frame p' split: if_splits)
  qed
  then show ok: "ok" and "disk_reliable (disk_manager bp')" and t: "page_table bp' = page_table bp" by simp_all
  show dp: "get_dirty_pages bp' = filter (\<lambda>q. q \<noteq> pid) (get_dirty_pages bp)"
  proof -
    have "filter (\<lambda>(p, j). is_dirty (page_at bp' j)) (page_table bp) =
        filter (\<lambda>(p, j). is_dirty (page_at bp j) \<and> p \<noteq> pid) (page_table bp)"
    proof (rule filter_cong [OF refl], clarify)
      fix p j assume "(p, j) \<in> set (page_table bp)"
      then have "map_of (page_table bp) p = Some j" using bp_invD(3) [OF inv] by simp
      then have "map_of (page_table bp) pid \<noteq> Some j \<longleftrightarrow> p \<noteq> pid" using bp_inv_table_inj [OF inv] by auto
      then show "is_dirty (page_at bp' j) = (is_dirty (page_at bp j) \<and> p \<noteq> pid)" using main by simp
    qed
    then show ?thesis by (simp add: get_dirty_pages_def t filter_map comp_def case_prod_beta' conj_commute)
  qed
  show "bp_view bp' q = bp_view bp q" using main by (simp add: bp_view_def t split: option.split)
  assume "q \<in> set (get_dirty_pages bp)" and "q \<notin> set (get_dirty_pages bp')"
  with dp have q: "q = pid" "\<exists>i. map_of (page_table bp) pid = Some i \<and> is_dirty (page_at bp i)"
    using get_dirty_pages_iff [OF inv] by auto
  then show "stored_page (disk_manager bp') q = bp_view bp q"
    using flush_page_stored [OF inv _ _ f [simplified ok]] by auto
qed

lemma flush_pages_reliable:
  assumes "bp_inv bp" and "disk_reliable (disk_manager bp)" and "flush_pages pids bp = (ok, bp')"
  shows "ok \<and> disk_reliable (disk_manager bp') \<and> page_table bp' = page_table bp \<and>
    get_dirty_pages bp' = filter (\<lambda>q. q \<notin> set pids) (get_dirty_pages bp) \<and>
    (\<forall>q. bp_view bp' q = bp_view bp q) \<and>
    (\<forall>q \<in> set (get_dirty_pages bp). q \<in> set pids \<longrightarrow> stored_page (disk_manager bp') q = bp_view bp q) \<and>
    (\<forall>q. q \<notin> set pids \<or> q \<notin> set (get_dirty_pages bp) \<longrightarrow>
      stored_page (disk_manager bp') q = stored_page (disk_manager bp) q)"
  using assms
proof (induction pids arbitrary: bp ok)
  case (Cons p pids)
  obtain ok1 bp1 where f: "flush_page p bp = (ok1, bp1)" by fastforce
  obtain ok2 where fs: "flush_pages pids bp1 = (ok2, bp')" and ok: "ok = (ok1 \<and> ok2)"
    using Cons.prems(3) f by (auto simp: Let_def split: prod.splits)
  note r = flush_page_reliable [OF Cons.prems(1,2) f]
  have inv1: "bp_inv bp1" using flush_page_keeps(1) [OF Cons.prems(1), of p] f by simp
  note IH = Cons.IH [OF inv1 r(2) fs]
  have keep: "stored_page (disk_manager bp1) q = stored_page (disk_manager bp) q"
    if "q \<noteq> p \<or> q \<notin> set (get_dirty_pages bp)" for q
  proof (cases "q = p")
    case True
    with that have "\<not> (\<exists>i. map_of (page_table bp) p = Some i \<and> is_dirty (page_at bp i))"
      using get_dirty_pages_iff [OF Cons.prems(1)] by simp
    then show ?thesis using f by (auto simp: flush_page_def split: option.splits)
  qed (rule flush_page_other_stored [OF Cons.prems(1) _ f])
  have "stored_page (disk_manager bp') q = bp_view bp q"
    if q: "q \<in> set (get_dirty_pages bp)" "q \<in> set (p # pids)" for q
  proof (cases "q \<in> set pids \<and> q \<noteq> p")
    case True
    then have "q \<in> set (get_dirty_pages bp1)" using q r(4) by simp
    with True IH r(5) show ?thesis by simp
  next
    case False
    with q(2) have qp: "q = p" by auto
    have v: "stored_page (disk_manager bp1) q = bp_view bp q"
      using r(4) by (intro r(6) q(1)) (simp add: qp)
    have "q \<notin> set (get_dirty_pages bp1)" by (simp add: r(4) qp)
    then have "stored_page (disk_manager bp') q = stored_page (disk_manager bp1) q" using IH by blast
    with v show ?thesis by simp
  qed
  moreover have "stored_page (disk_manager bp') q = stored_page (disk_manager bp) q"
    if q: "q \<notin> set (p # pids) \<or> q \<notin> set (get_dirty_pages bp)" for q
  proof -
    have "q \<notin> set pids \<or> q \<notin> set (get_dirty_pages bp1)" using q by (auto simp: r(4))
    then have "stored_page (disk_manager bp') q = stored_page (disk_manager bp1) q" using IH by blast
    with keep [of q] q show ?thesis by auto
  qed
  moreover have "get_dirty_pages bp' = filter (\<lambda>q. q \<notin> set (p # pids)) (get_dirty_pages bp)"
    using IH by (auto simp: r(4) intro: filter_cong)
  ultimately show ?case using IH r(1,3,5) by (simp add: ok)
qed (auto simp: get_dirty_pages_def)

end
