(* ===== verification/Buffer_Pool_Props.thy ===== *)
theory Buffer_Pool_Props
  imports Buffer_Pool_Runs
begin

text \<open>
  The correctness of the buffer pool over whole runs, with a small pool on an empty reliable disk as
  the example the theorems are applied to.
\<close>

section \<open>An example pool\<close>

text \<open>One frame over a data file that did not exist, and the pool after the creation of page 0.\<close>

definition demo_disk :: DiskManager where
  "demo_disk = snd (disk_initialize (DiskManager_new None (\<lambda>_. IoOk)))"

definition demo_disk1 :: DiskManager where
  "demo_disk1 = snd (allocate_page demo_disk)"

definition demo_pool :: BufferPool where
  "demo_pool = BufferPool_new 1 demo_disk (initial_metrics 0)"

definition demo_created :: BufferPool where
  "demo_created = snd (new_page demo_pool)"

definition demo_dirty :: BufferPool where
  "demo_dirty = snd (unpin_page 0 True demo_created)"

lemma demo_disk_init: "disk_initialize (DiskManager_new None (\<lambda>_. IoOk)) = (True, demo_disk)"
  and demo_disk_next: "next_page_id demo_disk = 0"
  and demo_disk_reliable: "disk_reliable demo_disk"
  and demo_disk_file: "file_bytes demo_disk = []"
  by (simp_all add: demo_disk_def disk_initialize_def DiskManager_new_def disk_count_pages_def Let_def
      fs_op_defs fs_tell_def disk_reliable_def fs_reliable_def file_bytes_def)

lemma demo_disk_inv: "disk_inv demo_disk"
  by (rule disk_initialize_inv [OF demo_disk_init]) (simp add: DiskManager_new_def)

lemma demo_pool_inv: "bp_inv demo_pool"
  unfolding demo_pool_def
  by (rule BufferPool_new_inv) (simp_all add: demo_disk_inv initial_metrics_def)

lemma demo_pool_disk: "disk_manager demo_pool = demo_disk"
  by (simp add: demo_pool_def BufferPool_new_def)

lemma demo_alloc: "allocate_page demo_disk = (0, demo_disk1)"
  and demo_alloc_next: "next_page_id demo_disk1 = 1"
proof -
  obtain i dm' where a: "allocate_page demo_disk = (i, dm')" by fastforce
  then show "allocate_page demo_disk = (0, demo_disk1)" and "next_page_id demo_disk1 = 1"
    using allocate_page_unfold(1,2) [OF a] demo_disk_next by (simp_all add: demo_disk1_def)
qed

lemma demo_new: "new_page demo_pool = (Some (0, 0), demo_created)"
  by (simp add: demo_created_def demo_pool_def BufferPool_new_def new_page_def find_victim_frame_def
      demo_alloc Let_def)

lemma demo_created_inv: "bp_inv demo_created"
  using new_page_keeps(1) [OF demo_pool_inv] by (simp add: demo_created_def demo_pool_disk demo_disk_next)

lemma demo_created_state:
  "page_table demo_created = [(0, 0)]" "free_list demo_created = []" "pool_size demo_created = 1"
  "is_pinned (page_at demo_created 0)" "\<not> is_dirty (page_at demo_created 0)"
  "pin_count (page_at demo_created 0) = 1" "next_page_id (disk_manager demo_created) = 1"
  by (simp_all add: demo_created_def demo_pool_def BufferPool_new_def new_page_def find_victim_frame_def
      demo_alloc Let_def demo_alloc_next page_at_set_frame is_pinned_def)

lemma demo_created_reliable: "disk_reliable (disk_manager demo_created)"
  using allocate_page_reliable [OF demo_alloc _ demo_disk_inv demo_disk_reliable]
  by (simp add: demo_created_def demo_pool_def BufferPool_new_def new_page_def find_victim_frame_def Let_def
      demo_alloc)

lemma demo_dirty_unpin: "unpin_page 0 True demo_created = (True, demo_dirty)"
  by (simp add: demo_dirty_def unpin_page_def demo_created_state Let_def)

lemma demo_dirty_inv: "bp_inv demo_dirty"
  using unpin_page_keeps(1) [OF demo_created_inv] by (simp add: demo_dirty_def)

lemma demo_dirty_state:
  "page_table demo_dirty = [(0, 0)]" "free_list demo_dirty = []" "pool_size demo_dirty = 1"
  "is_dirty (page_at demo_dirty 0)" "\<not> is_pinned (page_at demo_dirty 0)"
  "disk_manager demo_dirty = disk_manager demo_created"
  using demo_created_state bp_invD(1) [OF demo_created_inv]
  by (simp_all add: demo_dirty_def unpin_page_def Let_def set_page_set_frame page_at_set_frame is_pinned_def)

section \<open>The invariant in every reachable state\<close>

text \<open>C11. In every state that a pool over a successfully opened data file reaches by any sequence of
  calls and client stores, under any pattern of I/O failures, the page table, the free list and the
  frames are consistent: each frame is cached under exactly one identifier or free, it holds the page
  of its identifier, pin counts are not negative, and both dirty counters equal the number of dirty
  frames.\<close>

theorem pool_runs_keep_invariant:
  assumes "disk_initialize dm = (True, dm')" and "\<not> dm_initialized dm" and "n < 2 ^ 64"
    and "dirty_page_count_m m = 0" and "reach bp_any_step (BufferPool_new n dm' m) bp"
  shows "bp_inv bp"
  using pool.reach_inv [OF assms(5)] BufferPool_new_inv [OF disk_initialize_inv(1) [OF assms(1,2)] assms(3,4)]
  by blast

theorem pool_runs_keep_invariant_witness:
  "disk_initialize (DiskManager_new None (\<lambda>_. IoOk)) = (True, demo_disk) \<and>
   reach bp_any_step (BufferPool_new 1 demo_disk (initial_metrics 0)) demo_dirty \<and> bp_inv demo_dirty"
proof -
  have "bp_any_step demo_pool demo_created" unfolding bp_any_step_def demo_created_def
    using step_new [of demo_pool] by (auto simp: demo_pool_disk demo_disk_next)
  moreover have "bp_any_step demo_created demo_dirty" unfolding bp_any_step_def demo_dirty_def
    using step_unpin by blast
  ultimately have r: "reach bp_any_step (BufferPool_new 1 demo_disk (initial_metrics 0)) demo_dirty"
    unfolding demo_pool_def [symmetric] by (blast intro: reach.intros)
  show ?thesis
    using pool_runs_keep_invariant [OF demo_disk_init _ _ _ r] r demo_disk_init
    by (simp add: DiskManager_new_def initial_metrics_def)
qed

section \<open>Pages are not lost\<close>

text \<open>C10. The content of a page that is dirty, or equal to what the disk holds, survives every run of
  other operations, evictions and failed writes included: what a client sees under its identifier stays the
  same as long as no step deletes that page or stores into it.\<close>

theorem pool_content_survives:
  assumes "bp_inv bp" and "backed bp q" and "reach (bp_step_leaving q) bp bp'"
  shows "bp_view bp' q = bp_view bp q \<and> backed bp' q"
  using pool_content.reach_inv [OF assms(3), of "bp_view bp q"] assms(1,2) by blast

theorem pool_content_survives_witness:
  "backed demo_dirty 0 \<and>
   reach (bp_step_leaving 0) demo_dirty (snd (new_page demo_dirty)) \<and>
   bp_view (snd (new_page demo_dirty)) 0 = bp_view demo_dirty 0"
proof -
  have b: "backed demo_dirty 0" by (simp add: backed_def demo_dirty_state)
  have "bp_step_leaving 0 demo_dirty (snd (new_page demo_dirty))"
    unfolding bp_step_leaving_def
    by (rule exI [of _ New]) (simp add: step_new demo_dirty_state demo_created_state)
  then have r: "reach (bp_step_leaving 0) demo_dirty (snd (new_page demo_dirty))"
    by (blast intro: reach.intros)
  show ?thesis using pool_content_survives [OF demo_dirty_inv b r] b r by simp
qed

text \<open>What a dirty unpin after a store leaves: the stored bytes are the content of the page, and backed.\<close>

lemma client_write_view:
  assumes inv: "bp_inv bp" and f: "fetch_page pid bp = (Some i, bp1)"
    and fits: "PageHeader_SIZE + off + length bs \<le> PAGE_SIZE"
    and u: "unpin_page pid True (client_write i off bs bp1) = (True, bp2)"
    and run: "reach (bp_step_leaving pid) bp2 bp3"
  shows "bp_inv bp3" and "backed bp3 pid"
    and "bp_view bp3 pid = Some (page_body (write_at (PageHeader_SIZE + off) bs (page_data (page_at bp1 i))))"
proof -
  let ?w = "client_write i off bs bp1"
  have inv1: "bp_inv bp1" using fetch_page_keeps(1) [OF inv, of pid] f by simp
  note t1 = fetch_page_some(1) [OF inv f]
  note i = bp_inv_table [OF inv1 t1]
  have invw: "bp_inv ?w" using client_write_keeps(1) [OF inv1 t1] .
  have inv2: "bp_inv bp2" using unpin_page_keeps(1) [OF invw, of pid True] u by simp
  have len: "i < length (frames bp1)" using i(1) bp_invD(1) [OF inv1] by simp
  let ?d = "write_at (PageHeader_SIZE + off) bs (page_data (page_at bp1 i))"
  have "backed bp2 pid" and v2: "bp_view bp2 pid = Some (page_body ?d)"
    using u t1 len fits
    by (auto simp: unpin_page_def client_write_def Let_def backed_def bp_view_def set_page_set_frame
        page_at_set_frame split: if_splits)
  then show "bp_inv bp3" "backed bp3 pid" "bp_view bp3 pid = Some (page_body ?d)"
    using pool_content.reach_inv [OF run, of "Some (page_body ?d)"] inv2 v2 by blast+
qed

text \<open>A fetch returns the content, if it is backed, and the stored bytes are in the payload.\<close>

lemma fetch_view:
  assumes "bp_inv bp" and "backed bp pid" and "fetch_page pid bp = (Some j, bp')"
  shows "Some (page_body (page_data (page_at bp' j))) = bp_view bp pid"
proof -
  have "keeps pid bp bp'" using fetch_page_keeps(2) [of bp pid pid] assms by simp
  then have "bp_view bp' pid = bp_view bp pid" using assms(2) by (simp add: keeps_def)
  then show ?thesis using fetch_page_some(1) [OF assms(1,3)] by (simp add: bp_view_def)
qed

lemma payload_of_body:
  assumes "page_body (page_data p) = page_body (write_at (PageHeader_SIZE + off) bs d)"
  shows "read_at off (length bs) (payload p) = bs"
proof -
  have tail: "read_at (PageHeader_SIZE + off) n d = read_at (PageHeader_SIZE + off) n (page_body d)" for n d
    by (simp add: page_body_def layout_defs read_write_after)
  have "read_at off (length bs) (payload p) = read_at (PageHeader_SIZE + off) (length bs) (page_data p)"
    by (simp add: payload_def read_at_def add.commute)
  also have "\<dots> = read_at (PageHeader_SIZE + off) (length bs) (write_at (PageHeader_SIZE + off) bs d)"
    using assms tail by metis
  finally show ?thesis by simp
qed

text \<open>C2. Read your writes: bytes that a client stores into a fetched page and unpins as dirty are what any
  later fetch of the page returns, whatever happens to the pool in between.\<close>

theorem pool_read_your_writes:
  assumes inv: "bp_inv bp" and f: "fetch_page pid bp = (Some i, bp1)"
    and fits: "PageHeader_SIZE + off + length bs \<le> PAGE_SIZE"
    and u: "unpin_page pid True (client_write i off bs bp1) = (True, bp2)"
    and run: "reach (bp_step_leaving pid) bp2 bp3" and f': "fetch_page pid bp3 = (Some j, bp4)"
  shows "read_at off (length bs) (payload (page_at bp4 j)) = bs"
proof -
  note w = client_write_view [OF inv f fits u run]
  show ?thesis using payload_of_body fetch_view [OF w(1,2) f'] w(3) by simp
qed

definition demo_fetched :: BufferPool where
  "demo_fetched = snd (fetch_page 0 demo_dirty)"

definition demo_written :: BufferPool where
  "demo_written = snd (unpin_page 0 True (client_write 0 0 [7] demo_fetched))"

lemma demo_fetched_state:
  "fetch_page 0 demo_dirty = (Some 0, demo_fetched)" "page_table demo_fetched = [(0, 0)]"
  "pin_count (page_at demo_fetched 0) = 1" "length (frames demo_fetched) = 1"
  "is_dirty (page_at demo_fetched 0)"
  using demo_dirty_state bp_invD(1) [OF demo_dirty_inv] bp_inv_frame(2) [OF demo_dirty_inv, of 0]
  by (simp_all add: demo_fetched_def fetch_page_def page_at_set_frame is_pinned_def)

lemma demo_written_state:
  "unpin_page 0 True (client_write 0 0 [7] demo_fetched) = (True, demo_written)"
  "page_table demo_written = [(0, 0)]"
  using demo_fetched_state
  by (simp_all add: demo_written_def unpin_page_def client_write_def Let_def set_page_set_frame
      page_at_set_frame)

theorem pool_read_your_writes_witness:
  "read_at 0 1 (payload (page_at (snd (fetch_page 0 (snd (flush_page 0 demo_written)))) 0)) = [7]"
proof -
  let ?b = "snd (flush_page 0 demo_written)"
  have "bp_step_leaving 0 demo_written ?b" unfolding bp_step_leaving_def
    by (rule exI [of _ "Flush 0"]) (simp add: step_flush)
  then have r: "reach (bp_step_leaving 0) demo_written ?b" by (blast intro: reach.intros)
  have "page_table ?b = [(0, 0)]"
    using demo_written_state(2) by (simp add: flush_page_def Let_def split: prod.split)
  then have "fetch_page 0 ?b = (Some 0, snd (fetch_page 0 ?b))" by (simp add: fetch_page_def)
  from pool_read_your_writes [OF demo_dirty_inv demo_fetched_state(1) _ demo_written_state(1) r this]
  show ?thesis by (simp add: layout_defs PAGE_SIZE_def)
qed

text \<open>C33. A pinned page stays in its frame with its content: no step but its own unpin, its own
  deletion (which is refused) or a store into it moves or changes it, so the pointer a client holds stays valid.\<close>

theorem pool_pinned_page_stays:
  assumes "bp_inv bp" and "bp_step op bp bp'" and "leaves_pin q op"
    and "map_of (page_table bp) q = Some i" and "is_pinned (page_at bp i)"
  shows "map_of (page_table bp') q = Some i \<and> is_pinned (page_at bp' i) \<and>
    page_body (page_data (page_at bp' i)) = page_body (page_data (page_at bp i))"
  using bp_step_keeps [OF assms(2,1,3)] assms(4,5) by (fastforce simp: keeps_def is_pinned_def)

theorem pool_pinned_page_stays_witness:
  "map_of (page_table (snd (new_page demo_created))) 0 = Some 0 \<and>
   is_pinned (page_at (snd (new_page demo_created)) 0)"
proof -
  have "bp_step New demo_created (snd (new_page demo_created))"
    by (rule step_new) (simp add: demo_created_state)
  from pool_pinned_page_stays [OF demo_created_inv this, of 0 0] show ?thesis
    by (simp add: demo_created_state)
qed

section \<open>Progress\<close>

text \<open>C31. Without I/O failures a fetch returns a frame exactly when the page is cached, or the disk holds a
  valid page under the identifier and some frame is not pinned: the two passes of the clock find a victim
  whenever there is one.\<close>

theorem pool_fetch_outcome:
  assumes "bp_inv bp" and "disk_reliable (disk_manager bp)"
  shows "fst (fetch_page pid bp) \<noteq> None \<longleftrightarrow>
    map_of (page_table bp) pid \<noteq> None \<or>
    (stored_page (disk_manager bp) pid \<noteq> None \<and> (\<exists>i < pool_size bp. \<not> is_pinned (page_at bp i)))"
  using assms by (rule fetch_page_outcome)

theorem pool_fetch_outcome_witness:
  "fst (fetch_page 0 demo_created) \<noteq> None \<and> fst (fetch_page 1 demo_created) = None"
  using pool_fetch_outcome [OF demo_created_inv demo_created_reliable, of 0]
    pool_fetch_outcome [OF demo_created_inv demo_created_reliable, of 1]
  by (simp add: demo_created_state)

text \<open>Without I/O failures \<open>new_page\<close> returns a page exactly when some frame is not pinned; the page is
  cached under a fresh identifier, pinned and zeroed except for the identifier in its header.\<close>

lemma pool_new_page_outcome:
  assumes inv: "bp_inv bp" and rel: "disk_reliable (disk_manager bp)"
  shows "(\<forall>i < pool_size bp. is_pinned (page_at bp i)) \<and> new_page bp = (None, bp) \<or>
    (\<exists>i bp'. new_page bp = (Some (i, next_page_id (disk_manager bp)), bp') \<and>
      map_of (page_table bp') (next_page_id (disk_manager bp)) = Some i \<and> is_pinned (page_at bp' i) \<and>
      page_data (page_at bp' i) = page_data (Page_new (next_page_id (disk_manager bp))) \<and>
      next_page_id (disk_manager bp') = next_page_id (disk_manager bp) + 1)"
proof (cases "\<forall>i < pool_size bp. is_pinned (page_at bp i)")
  case True
  then show ?thesis using find_victim_all_pinned [OF inv True] by (simp add: new_page_def)
next
  case False
  obtain r bp1 where v: "find_victim_frame bp = (r, bp1)" by fastforce
  with False obtain i where r: "r = Some i" using find_victim_finds [OF inv rel] by fastforce
  obtain n dm' where a: "allocate_page (disk_manager bp1) = (n, dm')" by fastforce
  have inv1: "bp_inv (bp1\<lparr>free_list := i # free_list bp1\<rparr>)"
    and next1: "next_page_id (disk_manager bp1) = next_page_id (disk_manager bp)"
    using find_victim_ok [OF inv v] r by (simp_all add: victim_ok_def)
  have len: "i < length (frames bp1)" using bp_inv_free(1) [OF inv1, of i] bp_invD(1) [OF inv1] by simp
  show ?thesis
    using v r a len allocate_page_unfold(1,2) [OF a] next1
    by (simp add: new_page_def Let_def update_conv' page_at_set_frame is_pinned_def Page_new_def
        set_page_id_def reset_def)
qed

section \<open>Counters and flushing\<close>

text \<open>The dirty counter that drives the checkpoint triggers, and its copy in the metrics, is exactly the
  number of pages that \<open>get_dirty_pages\<close> lists, each once; the 64-bit counter never wraps.\<close>

lemma pool_dirty_count_exact:
  assumes "bp_inv bp"
  shows "length (get_dirty_pages bp) = unat (dirty_count bp) \<and> distinct (get_dirty_pages bp) \<and>
    dirty_page_count_m (bp_metrics bp) = dirty_count bp \<and> unat (dirty_count bp) \<le> pool_size bp"
  using get_dirty_pages_count [OF assms] bp_invD [OF assms] dirty_frames_le [of bp] by simp


text \<open>Without I/O failures, flushing the list that \<open>get_dirty_pages\<close> returns succeeds, leaves no dirty page,
  changes no content, and every page that was dirty is on disk.\<close>

lemma pool_flush_all:
  assumes inv: "bp_inv bp" and rel: "disk_reliable (disk_manager bp)"
    and f: "flush_pages (get_dirty_pages bp) bp = (ok, bp')"
  shows "ok \<and> get_dirty_pages bp' = [] \<and> dirty_count bp' = 0 \<and> (\<forall>q. bp_view bp' q = bp_view bp q) \<and>
    (\<forall>q. q \<in> set (get_dirty_pages bp) \<longrightarrow> stored_page (disk_manager bp') q = bp_view bp q)"
proof -
  note r = flush_pages_reliable [OF inv rel f]
  have inv': "bp_inv bp'" using flush_pages_keeps(1) [OF inv, of "get_dirty_pages bp"] f by simp
  have nil: "get_dirty_pages bp' = []" using r by (simp add: filter_empty_conv)
  then have "unat (dirty_count bp') = 0" using get_dirty_pages_count(1) [OF inv'] by simp
  then have "dirty_count bp' = 0" by (simp add: unat_eq_0)
  with r nil show ?thesis by auto
qed


end
