(* ===== verification/Disk_Props.thy ===== *)
theory Disk_Props
  imports Buffer_Pool_Props
begin

text \<open>
  The properties of the page format, its checksum and the disk manager: what is written is read back,
  corruption is detected, pages do not disturb each other even when a write fails half-way, and the
  behaviour on the error paths: a stream in error, a page that was allocated and never written, and a
  data file that could not be opened.
\<close>

section \<open>Checksum and page format\<close>

text \<open>C36. The table-driven checksum step uses the table of the IEEE polynomial except for the four entries 111, 237, 238
  and 239, which differ from the bit-serial reference.\<close>

theorem crc_table_vs_reference:
  assumes "i < 256"
  shows "CRC32_TABLE ! i = (crc_bit ^^ 8) (of_nat i) \<longleftrightarrow> i \<notin> {111, 237, 238, 239}"
  using crc_table_entry [OF assms] by (simp add: crc_byte_def crc_bad_entries_def)

theorem crc_table_vs_reference_witness:
  "CRC32_TABLE ! 1 = (crc_bit ^^ 8) (of_nat 1) \<and> CRC32_TABLE ! 111 \<noteq> (crc_bit ^^ 8) (of_nat 111)"
  using crc_table_vs_reference [of 1] crc_table_vs_reference [of 111] by simp

text \<open>C35. A page whose checksum was just updated verifies, and after the change of any single byte of the page, the bytes
  of the checksum field included, it no longer does.\<close>

theorem page_checksum_detects_corruption:
  assumes "wf_page p" and "k < PAGE_SIZE" and "b \<noteq> page_data (update_checksum p) ! k"
  shows "verify_checksum (update_checksum p) \<and>
    \<not> verify_checksum ((update_checksum p)\<lparr>page_data := (page_data (update_checksum p))[k := b]\<rparr>)"
  using update_checksum_verifies [OF assms(1)] verify_detects_byte [of "update_checksum p" k b] assms by simp

theorem page_checksum_detects_corruption_witness:
  "verify_checksum (update_checksum (Page_new 3)) \<and>
   \<not> verify_checksum ((update_checksum (Page_new 3))\<lparr>page_data :=
      (page_data (update_checksum (Page_new 3)))[100 := page_data (update_checksum (Page_new 3)) ! 100 + 1]\<rparr>)"
  by (rule page_checksum_detects_corruption) (simp_all add: PAGE_SIZE_def)

text \<open>The packed page header: the six fields written in the declared order fill the first 24 bytes and each is read
  back from its offset.\<close>

lemma page_header_roundtrip:
  "header_view (header_bytes h @ rest) = h \<and> length (header_bytes h) = PageHeader_SIZE"
  by (simp add: header_view_bytes)

section \<open>Reading and writing\<close>

text \<open>C34. A page that was written successfully under its own identifier is read back: a read that succeeds returns exactly
  its bytes with a fresh checksum, and without I/O failures the read does succeed.\<close>

theorem disk_write_then_read:
  assumes inv: "disk_inv dm" and wf: "wf_page p" "header_page_id (page_data p) = i" and lt: "i < next_page_id dm"
    and w: "write_page i p dm = (True, p', dm')" and wf': "wf_page q"
    and r: "read_page i q dm' = (ok, q', dm'')"
  shows "(disk_reliable dm \<longrightarrow> ok) \<and> (ok \<longrightarrow> page_data q' = page_data (update_checksum p) \<and> page_id q' = i)"
proof -
  have s: "stored_page dm' i = Some (page_body (page_data p))" using write_page_same [OF w wf lt] .
  have inv': "disk_inv dm'" using write_page_inv [OF w inv] .
  have "ok" if "disk_reliable dm"
    using read_page_reliable [OF inv' write_page_reliable(2) [OF w inv that] wf', of i] s r by simp
  moreover have "page_data q' = page_data (update_checksum p) \<and> page_id q' = i" if ok
  proof -
    have r': "read_page i q dm' = (True, q', dm'')" using r that by simp
    have p': "p' = update_checksum p" using write_page_unfold(1) [OF w] .
    have wfp: "wf_page p'" using wf(1) by (simp add: p')
    have "block_at (file_bytes dm') i = page_data p'"
      using write_page_file(2) [OF w _ wf(1)] wfp read_write_same [of "unat i * PAGE_SIZE" "page_data p'"]
      by (simp add: block_at_def wf_page_def)
    moreover have "header_page_id (page_data p') = i" using wf by (simp add: p')
    ultimately have "block_image (file_bytes dm') i = page_data p'"
      using set_page_id_same [OF wfp] by (simp add: block_image_def set_page_id_def)
    then show ?thesis using read_page_ok(2,3) [OF r' wf'] by (simp add: p')
  qed
  ultimately show ?thesis by blast
qed

theorem disk_write_then_read_witness:
  "page_data (fst (snd (read_page 0 Page_default (snd (snd (write_page 0 (Page_new 0) demo_disk1)))))) =
   page_data (update_checksum (Page_new 0))"
proof -
  have inv: "disk_inv demo_disk1" using allocate_page_inv [OF demo_alloc _ demo_disk_inv] by simp
  have rel: "disk_reliable demo_disk1"
    using allocate_page_reliable [OF demo_alloc _ demo_disk_inv demo_disk_reliable] by simp
  obtain b p' dm' where w: "write_page 0 (Page_new 0) demo_disk1 = (b, p', dm')" using prod_cases3 by blast
  obtain ok q' dm'' where r: "read_page 0 Page_default dm' = (ok, q', dm'')" using prod_cases3 by blast
  have b: "b" using write_page_reliable(1) [OF w inv rel] .
  have "header_page_id (page_data (Page_new 0)) = 0"
    by (simp add: Page_new_def header_page_id_def u32c.field_get_set)
  then show ?thesis
    using disk_write_then_read [OF inv _ _ _ _ _ r, of "Page_new 0" p'] w b rel r by (simp add: demo_alloc_next)
qed

text \<open>Pages do not disturb each other: a write, even one that fails half-way, and an allocation leave what the disk
  holds under every other identifier unchanged.\<close>

lemma disk_pages_independent:
  assumes "disk_inv dm" and "wf_page p" and "write_page i p dm = (b, p', dm')" and "j \<noteq> i"
    and "allocate_page dm = (k, dm'')" and "k \<noteq> - 1" and "j < next_page_id dm"
  shows "stored_page dm' j = stored_page dm j \<and> stored_page dm'' j = stored_page dm j \<and>
    disk_inv dm' \<and> disk_inv dm''"
  using write_page_other [OF assms(3,1,2,4)] allocate_page_other [OF assms(5,6,1,7)]
    write_page_inv [OF assms(3,1)] allocate_page_inv [OF assms(5,6,1)] by blast

section \<open>Error paths\<close>

text \<open>The error state of the data file is never cleared: once one I/O call has failed, every later read and write
  fails, for every page and for ever, because each operation leaves the stream in error.\<close>

lemma disk_error_is_permanent:
  assumes "fs_fail (data_file dm)"
  shows "\<not> fst (read_page i p dm) \<and> fs_fail (data_file (snd (snd (read_page i p dm)))) \<and>
    \<not> fst (write_page i p dm) \<and> fs_fail (data_file (snd (snd (write_page i p dm)))) \<and>
    fs_fail (data_file (snd (allocate_page dm))) \<and> fs_fail (data_file (disk_sync dm))"
  using failed_stream_ops [OF assms] by blast

lemma disk_error_is_permanent_example:
  "\<not> fst (write_page 0 Page_default (demo_disk1\<lparr>data_file := (data_file demo_disk1)\<lparr>fs_fail := True\<rparr>\<rparr>))"
  using disk_error_is_permanent [of "demo_disk1\<lparr>data_file := (data_file demo_disk1)\<lparr>fs_fail := True\<rparr>\<rparr>"] by simp

text \<open>A page that was allocated and never written is not readable: its block is zero, so its stored checksum is 0,
  and the read is refused unless the computed checksum happens to be 0 as well; of any two identifiers below 256 at
  most one can be read.\<close>

lemma disk_fresh_page_unreadable:
  assumes "allocate_page dm = (i, dm')" and "i \<noteq> - 1" and "disk_inv dm" and "disk_reliable dm"
    and "length (file_bytes dm) = unat (next_page_id dm) * PAGE_SIZE" and "wf_page p"
  shows "(fst (read_page i p dm') \<longleftrightarrow> compute_checksum (Page_new i) = 0) \<and>
    (\<forall>j < 256. i < 256 \<and> j \<noteq> i \<and> compute_checksum (Page_new j) = 0 \<longrightarrow> \<not> fst (read_page i p dm'))"
proof -
  have "fst (read_page i p dm') \<longleftrightarrow> stored_page dm' i \<noteq> None"
    by (rule read_page_reliable) (use allocate_page_inv [OF assms(1-3)] allocate_page_reliable [OF assms(1-4)] assms(6) in simp_all)
  also have "\<dots> \<longleftrightarrow> compute_checksum (Page_new i) = 0"
    using fresh_page_stored [OF assms(1-5)] by (simp add: compute_checksum_def)
  finally have main: "fst (read_page i p dm') \<longleftrightarrow> compute_checksum (Page_new i) = 0" .
  moreover have "\<not> fst (read_page i p dm')"
    if "j < 256" "i < 256" "j \<noteq> i" "compute_checksum (Page_new j) = 0" for j
    using fresh_page_checksums_differ [of i j] that main by (auto simp: compute_checksum_def)
  ultimately show ?thesis by blast
qed

text \<open>Opening: a data file that is there and opens keeps its bytes and offers one identifier per complete block; but
  if the first attempt to open it fails and the second succeeds, the file is truncated, although it existed.\<close>

lemma disk_initialize_contents:
  "(disk_initialize (DiskManager_new (Some c) (\<lambda>_. IoOk)) = (True, dm) \<longrightarrow>
      file_bytes dm = c \<and> (length c < 2 ^ 44 \<longrightarrow> unat (next_page_id dm) = length c div PAGE_SIZE)) \<and>
   (disk_initialize (DiskManager_new (Some c) (\<lambda>n. if n = 1 then IoFail 0 else IoOk)) = (True, dm) \<longrightarrow>
      file_bytes dm = [] \<and> next_page_id dm = 0)"
proof (rule conjI)
  show "disk_initialize (DiskManager_new (Some c) (\<lambda>_. IoOk)) = (True, dm) \<longrightarrow>
      file_bytes dm = c \<and> (length c < 2 ^ 44 \<longrightarrow> unat (next_page_id dm) = length c div PAGE_SIZE)"
    by (rule disk_reopen [of c]) auto
  show "disk_initialize (DiskManager_new (Some c) (\<lambda>n. if n = 1 then IoFail 0 else IoOk)) = (True, dm) \<longrightarrow>
      file_bytes dm = [] \<and> next_page_id dm = 0"
    by (auto simp: disk_initialize_def DiskManager_new_def disk_count_pages_def Let_def fs_op_defs file_bytes_def)
qed

lemma disk_initialize_contents_example:
  "file_bytes (snd (disk_initialize (DiskManager_new (Some [1, 2, 3]) (\<lambda>n. if n = 1 then IoFail 0 else IoOk)))) = []"
proof -
  have "disk_initialize (DiskManager_new (Some [1, 2, 3]) (\<lambda>n. if n = 1 then IoFail 0 else IoOk)) =
    (True, snd (disk_initialize (DiskManager_new (Some [1, 2, 3]) (\<lambda>n. if n = 1 then IoFail 0 else IoOk))))"
    by (simp add: disk_initialize_def DiskManager_new_def Let_def fs_op_defs)
  then show ?thesis using disk_initialize_contents by blast
qed

end
