(* ===== verification/Decimal.thy ===== *)
theory Decimal
  imports Datyre_Prelude
begin

text \<open>
  Decimal text of unsigned integers as the C++ standard library writes and reads it:
  \<open>std::to_string\<close> and \<open>std::stoull\<close>. The write-ahead log names its segments with the one and finds
  them again with the other.
\<close>

section \<open>Definitions\<close>

definition digit_char :: "nat \<Rightarrow> char" where
  "digit_char d = char_of (48 + d)"

definition digit_val :: "char \<Rightarrow> nat option" where
  "digit_val c = (let n = of_char c :: nat in if 48 \<le> n \<and> n \<le> 57 then Some (n - 48) else None)"

fun to_string :: "nat \<Rightarrow> string" where
  "to_string n = (if n < 10 then [digit_char n] else to_string (n div 10) @ [digit_char (n mod 10)])"

declare to_string.simps [simp del]

text \<open>\<open>isspace\<close> in the C locale.\<close>

definition is_space :: "char \<Rightarrow> bool" where
  "is_space c = (let n = of_char c :: nat in n = 32 \<or> 9 \<le> n \<and> n \<le> 13)"

text \<open>The longest prefix of digits, with the number of digits read.\<close>

fun read_digits :: "nat \<Rightarrow> string \<Rightarrow> nat" where
  "read_digits acc [] = acc"
| "read_digits acc (c # cs) =
     (case digit_val c of None \<Rightarrow> acc | Some d \<Rightarrow> read_digits (10 * acc + d) cs)"

definition starts_with_digit :: "string \<Rightarrow> bool" where
  "starts_with_digit s = (case s of [] \<Rightarrow> False | c # _ \<Rightarrow> digit_val c \<noteq> None)"

text \<open>
  \<open>stoull\<close>: leading white space, an optional sign, digits up to the first other character. No digit is
  \<open>invalid_argument\<close>, a value of \<open>2 ^ 64\<close> or more is \<open>out_of_range\<close>, and a minus sign negates
  modulo \<open>2 ^ 64\<close>. Both exceptions are \<open>None\<close>.
\<close>

definition stoull :: "string \<Rightarrow> u64 option" where
  "stoull s =
     (let t = dropWhile is_space s;
          neg = (t \<noteq> [] \<and> hd t = CHR ''-'');
          u = (if t \<noteq> [] \<and> (hd t = CHR ''-'' \<or> hd t = CHR ''+'') then tl t else t)
      in if \<not> starts_with_digit u then None
         else let n = read_digits 0 u
              in if 2 ^ 64 \<le> n then None
                 else Some (if neg then - of_nat n else of_nat n))"

section \<open>Reading what was written\<close>

lemma digit_val_char [simp]: "d < 10 \<Longrightarrow> digit_val (digit_char d) = Some d"
  by (simp add: digit_val_def digit_char_def)

lemma to_string_digits: "c \<in> set (to_string n) \<Longrightarrow> digit_val c \<noteq> None"
proof (induction n rule: to_string.induct)
  case (1 n)
  then show ?case by (cases "n < 10") (auto simp: to_string.simps [of n])
qed

lemma to_string_nonempty [simp]: "to_string n \<noteq> []"
  by (simp add: to_string.simps [of n])

lemma read_digits_append:
  assumes "\<forall>c \<in> set s. digit_val c \<noteq> None"
  shows "read_digits acc (s @ t) = read_digits (read_digits acc s) t"
  using assms by (induction s arbitrary: acc) auto

lemma read_digits_to_string: "read_digits 0 (to_string n) = n"
proof (induction n rule: to_string.induct)
  case (1 n)
  show ?case
  proof (cases "n < 10")
    case True
    then show ?thesis by (simp add: to_string.simps [of n])
  next
    case False
    then show ?thesis
      using 1 to_string_digits read_digits_append [of "to_string (n div 10)"]
      by (simp add: to_string.simps [of n])
  qed
qed

lemma digit_not_special: "digit_val c \<noteq> None \<Longrightarrow> \<not> is_space c \<and> c \<noteq> CHR ''-'' \<and> c \<noteq> CHR ''+''"
proof -
  assume d: "digit_val c \<noteq> None"
  then have "48 \<le> (of_char c :: nat)" by (simp add: digit_val_def Let_def split: if_splits)
  then have "\<not> is_space c" by (simp add: is_space_def Let_def)
  moreover have "digit_val CHR ''-'' = None" "digit_val CHR ''+'' = None"
    by (simp_all add: digit_val_def)
  ultimately show ?thesis using d by metis
qed

lemma stoull_to_string:
  assumes "n < 2 ^ 64"
  shows "stoull (to_string n) = Some (of_nat n)"
proof -
  obtain c cs where s: "to_string n = c # cs" by (cases "to_string n") simp_all
  then have "digit_val c \<noteq> None" using to_string_digits [of c n] by simp
  with digit_not_special [OF this] assms show ?thesis
    using read_digits_to_string [of n] by (auto simp: stoull_def s Let_def starts_with_digit_def)
qed

lemma to_string_inj: "to_string m = to_string n \<Longrightarrow> m = n"
  using read_digits_to_string by metis

end
