(* ===== verification/Wal.thy ===== *)
theory Wal
  imports Storage_Types Decimal File_Stream
begin

text \<open>
  \<open>src/storage/wal.hpp\<close> and \<open>wal.cpp\<close>: the log records and their byte format, and the write-ahead log
  as a directory of segment files. \<open>wal_dir\<close> holds the regular files of the directory with everything
  written to them, \<open>wal_durable\<close> the files as of the last flush. The stream \<open>current_segment_\<close> writes
  at the end of its file in both of its open modes, so its state is whether it is open and whether it
  is in error. \<open>append_mutex_\<close> makes each operation atomic. The metrics object is shared with the
  buffer pool; operations that store into it take and return it.
\<close>

section \<open>Log records\<close>

record LogRecord =
  lr_type :: LogRecordType
  lr_lsn :: Lsn
  lr_txn_id :: TxnId
  lr_page_id :: PageId
  lr_offset :: u16
  lr_length :: u16
  lr_prev_lsn :: Lsn
  lr_data :: bytes

definition LogRecord_default :: LogRecord where
  "LogRecord_default =
     \<lparr>lr_type = LR_INVALID, lr_lsn = INVALID_LSN, lr_txn_id = 0, lr_page_id = INVALID_PAGE_ID,
      lr_offset = 0, lr_length = 0, lr_prev_lsn = INVALID_LSN, lr_data = []\<rparr>"

definition serialized_size :: "LogRecord \<Rightarrow> nat" where
  "serialized_size r = 1 + 8 + 8 + 4 + 2 + 2 + 8 + 4 + length (lr_data r)"

definition serialize :: "LogRecord \<Rightarrow> bytes" where
  "serialize r =
     le_bytes 1 (log_record_type_byte (lr_type r)) @ le_bytes 8 (lr_lsn r) @ le_bytes 8 (lr_txn_id r) @
     le_bytes 4 (lr_page_id r) @ le_bytes 2 (lr_offset r) @ le_bytes 2 (lr_length r) @
     le_bytes 8 (lr_prev_lsn r) @ le_bytes 4 (of_nat (length (lr_data r)) :: u32) @ lr_data r"

text \<open>
  \<open>deserialize\<close> ignores the size of the buffer; reading beyond the buffer is undefined in C++ and
  \<open>None\<close> here.
\<close>

definition deserialize :: "bytes \<Rightarrow> LogRecord option" where
  "deserialize buf =
     (if length buf < 37 then None
      else let data_size = unat (le_word (read_at 33 4 buf) :: u32)
           in if length buf < 37 + data_size then None
              else Some \<lparr>lr_type = log_record_type_of_byte (le_word (read_at 0 1 buf)),
                lr_lsn = le_word (read_at 1 8 buf), lr_txn_id = le_word (read_at 9 8 buf),
                lr_page_id = le_word (read_at 17 4 buf), lr_offset = le_word (read_at 21 2 buf),
                lr_length = le_word (read_at 23 2 buf), lr_prev_lsn = le_word (read_at 25 8 buf),
                lr_data = read_at 37 data_size buf\<rparr>)"

section \<open>The log\<close>

type_synonym directory = "(string \<times> bytes) list"

record WriteAheadLog =
  segment_size :: u64
  wal_dir :: directory
  wal_durable :: directory
  seg_is_open :: bool
  seg_fail :: bool
  current_segment_id :: u64
  current_segment_pos :: u64
  next_lsn :: Lsn
  flushed_lsn :: Lsn
  wal_current_size :: u64
  wal_initialized :: bool
  wal_env :: "nat \<Rightarrow> io_outcome"
  wal_tick :: nat

definition WriteAheadLog_new :: "directory \<Rightarrow> u64 \<Rightarrow> (nat \<Rightarrow> io_outcome) \<Rightarrow> WriteAheadLog" where
  "WriteAheadLog_new dir seg env =
     \<lparr>segment_size = seg, wal_dir = dir, wal_durable = dir, seg_is_open = False, seg_fail = False,
      current_segment_id = 0, current_segment_pos = 0, next_lsn = 1, flushed_lsn = 0,
      wal_current_size = 0, wal_initialized = False, wal_env = env, wal_tick = 0\<rparr>"

definition segment_path :: "u64 \<Rightarrow> string" where
  "segment_path k = ''wal_'' @ to_string (unat k)"

text \<open>The identifier that a file name is taken for: \<open>filename.find("wal_") == 0\<close> and \<open>stoull\<close> of the rest.\<close>

definition segment_id_of :: "string \<Rightarrow> u64 option" where
  "segment_id_of name = (if take 4 name = ''wal_'' then stoull (drop 4 name) else None)"

definition wal_io :: "WriteAheadLog \<Rightarrow> io_outcome \<times> WriteAheadLog" where
  "wal_io w = (wal_env w (wal_tick w), w\<lparr>wal_tick := Suc (wal_tick w)\<rparr>)"

definition current_path :: "WriteAheadLog \<Rightarrow> string" where
  "current_path w = segment_path (current_segment_id w)"

definition file_of :: "directory \<Rightarrow> string \<Rightarrow> bytes" where
  "file_of dir name = (case map_of dir name of None \<Rightarrow> [] | Some c \<Rightarrow> c)"

subsection \<open>The stream of the current segment\<close>

definition seg_flush :: "WriteAheadLog \<Rightarrow> WriteAheadLog" where
  "seg_flush w =
     (if seg_fail w \<or> \<not> seg_is_open w then w
      else case wal_io w of
        (IoOk, w') \<Rightarrow> w'\<lparr>wal_durable := AList.update (current_path w) (file_of (wal_dir w) (current_path w)) (wal_durable w)\<rparr>
      | (IoFail _, w') \<Rightarrow> w'\<lparr>seg_fail := True\<rparr>)"

definition seg_close :: "WriteAheadLog \<Rightarrow> WriteAheadLog" where
  "seg_close w =
     (if \<not> seg_is_open w then w\<lparr>seg_fail := True\<rparr>
      else case wal_io w of
        (IoOk, w') \<Rightarrow> w'\<lparr>seg_is_open := False,
          wal_durable := AList.update (current_path w) (file_of (wal_dir w) (current_path w)) (wal_durable w)\<rparr>
      | (IoFail _, w') \<Rightarrow> w'\<lparr>seg_is_open := False, seg_fail := True\<rparr>)"

text \<open>\<open>open\<close> with \<open>app\<close> keeps an existing file or creates it; with \<open>out\<close> alone it truncates or creates it.\<close>

definition seg_open_app :: "WriteAheadLog \<Rightarrow> WriteAheadLog" where
  "seg_open_app w =
     (if seg_is_open w then w\<lparr>seg_fail := True\<rparr>
      else case wal_io w of
        (IoOk, w') \<Rightarrow> w'\<lparr>seg_is_open := True, seg_fail := False,
          wal_dir := AList.update (current_path w) (file_of (wal_dir w) (current_path w)) (wal_dir w),
          wal_durable := AList.update (current_path w) (file_of (wal_durable w) (current_path w)) (wal_durable w)\<rparr>
      | (IoFail _, w') \<Rightarrow> w'\<lparr>seg_fail := True\<rparr>)"

definition seg_open_out :: "WriteAheadLog \<Rightarrow> WriteAheadLog" where
  "seg_open_out w =
     (if seg_is_open w then w\<lparr>seg_fail := True\<rparr>
      else case wal_io w of
        (IoOk, w') \<Rightarrow> w'\<lparr>seg_is_open := True, seg_fail := False,
          wal_dir := AList.update (current_path w) [] (wal_dir w),
          wal_durable := AList.update (current_path w) [] (wal_durable w)\<rparr>
      | (IoFail _, w') \<Rightarrow> w'\<lparr>seg_fail := True\<rparr>)"

definition seg_write :: "bytes \<Rightarrow> WriteAheadLog \<Rightarrow> WriteAheadLog" where
  "seg_write bs w =
     (if seg_fail w \<or> \<not> seg_is_open w then w\<lparr>seg_fail := True\<rparr>
      else case wal_io w of
        (IoOk, w') \<Rightarrow> w'\<lparr>wal_dir := AList.map_entry (current_path w) (\<lambda>c. c @ bs) (wal_dir w)\<rparr>
      | (IoFail k, w') \<Rightarrow> w'\<lparr>wal_dir := AList.map_entry (current_path w) (\<lambda>c. c @ take k bs) (wal_dir w),
          seg_fail := True\<rparr>)"

text \<open>\<open>seekp(0, end)\<close> followed by \<open>tellp\<close>, which is minus one on a stream in error.\<close>

definition seg_seek_end :: "WriteAheadLog \<Rightarrow> u64 \<times> WriteAheadLog" where
  "seg_seek_end w =
     (if seg_fail w \<or> \<not> seg_is_open w then (- 1, w\<lparr>seg_fail := True\<rparr>)
      else case wal_io w of
        (IoOk, w') \<Rightarrow> (of_nat (length (file_of (wal_dir w) (current_path w))), w')
      | (IoFail _, w') \<Rightarrow> (- 1, w'\<lparr>seg_fail := True\<rparr>))"

subsection \<open>Operations\<close>

definition max_segment :: "directory \<Rightarrow> u64" where
  "max_segment dir =
     fold (\<lambda>(name, _) m. case segment_id_of name of None \<Rightarrow> m | Some k \<Rightarrow> max m k) dir 0"

definition total_size :: "directory \<Rightarrow> u64" where
  "total_size dir = fold (\<lambda>(_, c) s. s + of_nat (length c)) dir 0"

definition wal_open_finish :: "WriteAheadLog \<Rightarrow> CheckpointMetrics \<Rightarrow> bool \<times> WriteAheadLog \<times> CheckpointMetrics" where
  "wal_open_finish w m =
     (let (pos, w1) = seg_seek_end w; total = total_size (wal_dir w1)
      in (True, w1\<lparr>current_segment_pos := pos, wal_current_size := total, wal_initialized := True\<rparr>,
          m\<lparr>current_wal_size := total\<rparr>))"

definition wal_initialize :: "WriteAheadLog \<Rightarrow> CheckpointMetrics \<Rightarrow> bool \<times> WriteAheadLog \<times> CheckpointMetrics" where
  "wal_initialize w m =
     (if wal_initialized w then (True, w, m)
      else case wal_io w of
        (IoFail _, w0) \<Rightarrow> (False, w0, m) \<comment> \<open>\<open>create_directories\<close> failed\<close>
      | (IoOk, w0) \<Rightarrow>
          (let w1 = seg_open_app (w0\<lparr>current_segment_id := max_segment (wal_dir w0)\<rparr>)
           in if seg_is_open w1 then wal_open_finish w1 m
              else let w2 = seg_open_out w1
                   in if \<not> seg_is_open w2 then (False, w2, m)
                      else wal_open_finish (seg_open_app (seg_close w2)) m))"

definition wal_shutdown :: "WriteAheadLog \<Rightarrow> WriteAheadLog" where
  "wal_shutdown w =
     (if \<not> wal_initialized w then w
      else (if seg_is_open w then seg_close (seg_flush w) else w)\<lparr>wal_initialized := False\<rparr>)"

definition rotate_segment :: "WriteAheadLog \<Rightarrow> bool \<times> WriteAheadLog" where
  "rotate_segment w =
     (let w1 = seg_close (seg_flush w);
          w2 = w1\<lparr>current_segment_id := current_segment_id w1 + 1, current_segment_pos := 0\<rparr>;
          w3 = seg_open_out w2
      in (seg_is_open w3, w3))"

definition wal_append :: "LogRecord \<Rightarrow> WriteAheadLog \<Rightarrow> CheckpointMetrics \<Rightarrow> Lsn \<times> WriteAheadLog \<times> CheckpointMetrics" where
  "wal_append r w m =
     (let rec_lsn = next_lsn w;
          buffer = serialize (r\<lparr>lr_lsn := rec_lsn\<rparr>);
          size = of_nat (length buffer) :: u64;
          w1 = w\<lparr>next_lsn := next_lsn w + 1\<rparr>;
          (ok, w2) = (if segment_size w < current_segment_pos w1 + size then rotate_segment w1 else (True, w1))
      in if \<not> ok then (INVALID_LSN, w2, m)
         else let w3 = seg_write buffer w2;
                  w4 = w3\<lparr>current_segment_pos := current_segment_pos w3 + size,
                          wal_current_size := wal_current_size w3 + size\<rparr>
              in (rec_lsn, w4, m\<lparr>current_wal_size := wal_current_size w4\<rparr>))"

definition force :: "Lsn \<Rightarrow> WriteAheadLog \<Rightarrow> WriteAheadLog" where
  "force l w = (seg_flush w)\<lparr>flushed_lsn := l\<rparr>"

definition write_checkpoint_begin :: "WriteAheadLog \<Rightarrow> CheckpointMetrics \<Rightarrow> Lsn \<times> WriteAheadLog \<times> CheckpointMetrics" where
  "write_checkpoint_begin w m =
     wal_append (LogRecord_default\<lparr>lr_type := LR_CHECKPOINT_BEGIN, lr_txn_id := 0, lr_page_id := INVALID_PAGE_ID\<rparr>) w m"

definition write_checkpoint_end :: "Lsn \<Rightarrow> WriteAheadLog \<Rightarrow> CheckpointMetrics \<Rightarrow> Lsn \<times> WriteAheadLog \<times> CheckpointMetrics" where
  "write_checkpoint_end begin_lsn w m =
     (let (l, w1, m1) = wal_append (LogRecord_default\<lparr>lr_type := LR_CHECKPOINT_END, lr_txn_id := 0,
            lr_page_id := INVALID_PAGE_ID, lr_prev_lsn := begin_lsn\<rparr>) w m
      in (l, force l w1, m1))"

text \<open>
  The loop of \<open>truncate_before\<close>. Asking for the size and removing the file may both throw, which
  skips the entry; the size has been counted by then if it is the removal that fails.
\<close>

fun truncate_loop :: "directory \<Rightarrow> u64 \<Rightarrow> WriteAheadLog \<Rightarrow> u64 \<times> WriteAheadLog" where
  "truncate_loop [] freed w = (freed, w)"
| "truncate_loop ((name, c) # es) freed w =
     (case segment_id_of name of
        None \<Rightarrow> truncate_loop es freed w
      | Some k \<Rightarrow>
          (if k + 2 \<le> current_segment_id w
           then (case wal_io w of
                   (IoFail _, w1) \<Rightarrow> truncate_loop es freed w1
                 | (IoOk, w1) \<Rightarrow>
                     (case wal_io w1 of
                        (IoFail _, w2) \<Rightarrow> truncate_loop es (freed + of_nat (length c)) w2
                      | (IoOk, w2) \<Rightarrow> truncate_loop es (freed + of_nat (length c))
                          (w2\<lparr>wal_dir := AList.delete name (wal_dir w2),
                              wal_durable := AList.delete name (wal_durable w2)\<rparr>)))
           else truncate_loop es freed w))"

definition truncate_before :: "Lsn \<Rightarrow> WriteAheadLog \<Rightarrow> CheckpointMetrics \<Rightarrow> WriteAheadLog \<times> CheckpointMetrics" where
  "truncate_before l w m =
     (let (freed, w1) = truncate_loop (wal_dir w) 0 w
      in if 0 < freed
         then let w2 = w1\<lparr>wal_current_size := wal_current_size w1 - freed\<rparr>
              in (w2, m\<lparr>current_wal_size := wal_current_size w2\<rparr>)
         else (w1, m))"

end
