(* ===== verification/Wal_Refinement.thy ===== *)
theory Wal_Refinement
  imports Wal "HOL-Library.Sublist"
begin

text \<open>
  The write-ahead log against its abstract meaning: a list of segments, each a list of records.
  Records survive the byte format, a segment file can be read back record by record, and on an
  operating system that does not fail every operation of the log is the corresponding operation on
  the abstract log: \<open>append\<close> adds one record at the end with the next log sequence number, rotation
  starts a new segment, truncation removes a prefix.
\<close>

section \<open>The record format\<close>

definition wf_record :: "LogRecord \<Rightarrow> bool" where
  "wf_record r \<longleftrightarrow> wf_log_record_type (lr_type r) \<and> length (lr_data r) < 2 ^ 32"

lemma length_serialize [simp]: "length (serialize r) = serialized_size r"
  by (simp add: serialize_def serialized_size_def)

lemma serialized_size_lsn [simp]: "serialized_size (r\<lparr>lr_lsn := l\<rparr>) = serialized_size r"
  by (simp add: serialized_size_def)

lemma wf_record_lsn [simp]: "wf_record (r\<lparr>lr_lsn := l\<rparr>) = wf_record r"
  by (simp add: wf_record_def)

lemma deserialize_serialize:
  assumes "wf_record r"
  shows "deserialize (serialize r @ rest) = Some r"
proof -
  have n: "unat (of_nat (length (lr_data r)) :: u32) = length (lr_data r)"
    using assms by (simp add: wf_record_def unat_of_nat)
  have sz: "le_word (read_at 33 4 (serialize r @ rest)) = (of_nat (length (lr_data r)) :: u32)"
    by (simp add: serialize_def read_at_def u32c.dec_enc)
  have len: "37 + length (lr_data r) \<le> length (serialize r @ rest)"
    by (simp add: serialized_size_def)
  have d: "read_at 37 (length (lr_data r)) (serialize r @ rest) = lr_data r"
    by (simp add: serialize_def read_at_def)
  have t: "log_record_type_of_byte (le_word (read_at 0 1 (serialize r @ rest))) = lr_type r"
    using assms by (simp add: serialize_def read_at_def u8c.dec_enc [simplified] wf_record_def)
  show ?thesis
    unfolding deserialize_def sz Let_def n t d
    using len by (simp add: serialize_def read_at_def u16c.dec_enc u32c.dec_enc u64c.dec_enc)
qed

function parse_log :: "bytes \<Rightarrow> LogRecord list option" where
  "parse_log buf =
     (if buf = [] then Some []
      else case deserialize buf of
        None \<Rightarrow> None
      | Some r \<Rightarrow> map_option (\<lambda>rs. r # rs) (parse_log (drop (serialized_size r) buf)))"
  by pat_completeness auto
termination
  by (relation "measure length") (auto simp: serialized_size_def)

declare parse_log.simps [simp del]

definition seg_bytes :: "LogRecord list \<Rightarrow> bytes" where
  "seg_bytes rs = concat (map serialize rs)"

lemma seg_bytes_simps [simp]:
  "seg_bytes [] = []" "seg_bytes (r # rs) = serialize r @ seg_bytes rs"
  "seg_bytes (rs @ rs') = seg_bytes rs @ seg_bytes rs'"
  by (simp_all add: seg_bytes_def)

lemma parse_seg_bytes:
  assumes "\<forall>r \<in> set rs. wf_record r"
  shows "parse_log (seg_bytes rs) = Some rs"
  using assms
proof (induction rs)
  case (Cons r rs)
  have "serialize r @ seg_bytes rs \<noteq> []" by (auto simp: serialize_def le_bytes_def)
  moreover have "deserialize (serialize r @ seg_bytes rs) = Some r"
    using Cons.prems by (intro deserialize_serialize) simp
  ultimately show ?case using Cons by (simp add: parse_log.simps [of "serialize r @ seg_bytes rs"])
qed (simp add: parse_log.simps)

section \<open>Segment names\<close>

lemma segment_id_of_path [simp]: "segment_id_of (segment_path k) = Some k"
  using stoull_to_string [of "unat k"] unsigned_less [of k, where ?'a = nat]
  by (simp add: segment_id_of_def segment_path_def)

lemma segment_path_inj [simp]: "segment_path j = segment_path k \<longleftrightarrow> j = k"
  by (metis option.inject segment_id_of_path)

section \<open>The abstract log\<close>

type_synonym segments = "(nat \<times> LogRecord list) list"

definition log_records :: "segments \<Rightarrow> LogRecord list" where
  "log_records segs = concat (map snd segs)"

definition log_append :: "nat \<Rightarrow> LogRecord \<Rightarrow> segments \<Rightarrow> segments" where
  "log_append cap r segs =
     (let (k, rs) = last segs
      in if cap < length (seg_bytes rs) + serialized_size r then segs @ [(k + 1, [r])]
         else butlast segs @ [(k, rs @ [r])])"

definition log_truncate :: "segments \<Rightarrow> segments" where
  "log_truncate segs = filter (\<lambda>(k, rs). fst (last segs) < k + 2) segs"

lemma log_records_append:
  assumes "segs \<noteq> []"
  shows "log_records (log_append cap r segs) = log_records segs @ [r]"
proof -
  obtain k rs where l: "last segs = (k, rs)" by fastforce
  have "segs = butlast segs @ [(k, rs)]" using assms l append_butlast_last_id by metis
  then have "log_records segs = log_records (butlast segs) @ rs"
    by (metis concat.simps concat_append list.simps(8,9) log_records_def map_append snd_conv append_Nil2)
  then show ?thesis by (simp add: log_append_def l log_records_def)
qed

definition seg_file :: "nat \<times> LogRecord list \<Rightarrow> string \<times> bytes" where
  "seg_file e = (segment_path (of_nat (fst e)), seg_bytes (snd e))"

text \<open>Identifiers increase and stay below the range in which \<open>seg_id + 2\<close> would wrap around.\<close>

definition wf_segments :: "nat \<Rightarrow> segments \<Rightarrow> bool" where
  "wf_segments cap segs \<longleftrightarrow>
     segs \<noteq> [] \<and> sorted_wrt (<) (map fst segs) \<and> fst (last segs) < 2 ^ 64 - 2 \<and>
     (\<forall>(k, rs) \<in> set segs. (\<forall>r \<in> set rs. wf_record r) \<and> (length (seg_bytes rs) \<le> cap \<or> length rs \<le> 1))"

definition wal_rel :: "segments \<Rightarrow> WriteAheadLog \<Rightarrow> bool" where
  "wal_rel segs w \<longleftrightarrow>
     wf_segments (unat (segment_size w)) segs \<and> unat (segment_size w) < 2 ^ 63 \<and>
     wal_dir w = map seg_file segs \<and> current_segment_id w = of_nat (fst (last segs)) \<and>
     seg_is_open w \<and> \<not> seg_fail w \<and> (\<forall>n. wal_env w n = IoOk) \<and>
     current_segment_pos w = of_nat (length (seg_bytes (snd (last segs)))) \<and>
     wal_current_size w = total_size (wal_dir w) \<and>
     (\<forall>name. name \<noteq> current_path w \<longrightarrow> map_of (wal_durable w) name = map_of (wal_dir w) name)"

lemma wal_relD:
  assumes "wal_rel segs w"
  shows "segs \<noteq> []" and "sorted_wrt (<) (map fst segs)" and "fst (last segs) < 2 ^ 64 - 2"
    and "wal_dir w = map seg_file segs" and "current_segment_id w = of_nat (fst (last segs))"
    and "seg_is_open w" and "\<not> seg_fail w" and "wal_env w n = IoOk"
    and "unat (segment_size w) < 2 ^ 63"
    and "current_segment_pos w = of_nat (length (seg_bytes (snd (last segs))))"
    and "wal_current_size w = total_size (wal_dir w)"
    and "name \<noteq> current_path w \<Longrightarrow> map_of (wal_durable w) name = map_of (wal_dir w) name"
  using assms by (auto simp: wal_rel_def wf_segments_def)

lemma total_size_sum: "total_size d = of_nat (sum_list (map (length \<circ> snd) d))"
proof -
  have "fold (\<lambda>(_, c) s. s + of_nat (length c)) d s = s + (of_nat (sum_list (map (length \<circ> snd) d)) :: u64)" for s
    by (induction d arbitrary: s) (auto simp: algebra_simps)
  then show ?thesis by (simp add: total_size_def)
qed

lemma total_size_append:
  "total_size (d @ e) = total_size d + total_size e" "total_size [] = 0"
  "total_size ((n, c) # e) = of_nat (length c) + total_size e"
  by (simp_all add: total_size_sum)

section \<open>Writing and rotating\<close>

lemma u64_of_nat_inj: "m < 2 ^ 64 \<Longrightarrow> n < 2 ^ 64 \<Longrightarrow> (of_nat m :: u64) = of_nat n \<longleftrightarrow> m = n"
proof -
  assume "m < 2 ^ 64" "n < 2 ^ 64"
  then have "unat (of_nat m :: u64) = m" "unat (of_nat n :: u64) = n" by (simp_all add: unat_of_nat)
  then show ?thesis by metis
qed

lemma wal_rel_pre:
  assumes "wal_rel (pre @ [(k, rs)]) w" and "e \<in> set pre"
  shows "fst e < k" and "fst (seg_file e) \<noteq> current_path w"
proof -
  show lt: "fst e < k" using wal_relD(2) [OF assms(1)] assms(2) by (auto simp: sorted_wrt_append)
  have "k < 2 ^ 64" using wal_relD(3) [OF assms(1)] by simp
  with lt show "fst (seg_file e) \<noteq> current_path w"
    using wal_relD(5) [OF assms(1)] u64_of_nat_inj [of "fst e" k]
    by (simp add: seg_file_def current_path_def)
qed

lemma wal_rel_current:
  assumes "wal_rel (pre @ [(k, rs)]) w"
  shows "current_path w = segment_path (of_nat k)"
    and "wal_dir w = map seg_file pre @ [(current_path w, seg_bytes rs)]"
    and "file_of (wal_dir w) (current_path w) = seg_bytes rs"
    and "AList.map_entry (current_path w) f (wal_dir w) = map seg_file pre @ [(current_path w, f (seg_bytes rs))]"
    and "map_of (wal_dir w) (current_path w) = Some (seg_bytes rs)"
proof -
  show path: "current_path w = segment_path (of_nat k)"
    using wal_relD(5) [OF assms] by (simp add: current_path_def)
  show dir: "wal_dir w = map seg_file pre @ [(current_path w, seg_bytes rs)]"
    using wal_relD(4) [OF assms] path by (simp add: seg_file_def)
  have ne: "\<forall>e \<in> set pre. fst (seg_file e) \<noteq> current_path w" using wal_rel_pre(2) [OF assms] by blast
  then have "map_of (map seg_file pre) (current_path w) = None" by (auto simp: map_of_eq_None_iff)
  then show "map_of (wal_dir w) (current_path w) = Some (seg_bytes rs)" by (simp add: dir map_add_def)
  then show "file_of (wal_dir w) (current_path w) = seg_bytes rs" by (simp add: file_of_def)
  have "AList.map_entry p f (d @ d') = AList.map_entry p f d @ AList.map_entry p f d'"
    if "p \<notin> fst ` set d" for p and d d' :: directory using that by (induction d) auto
  moreover have "AList.map_entry p f d = d" if "p \<notin> fst ` set d" for p and d :: directory
    using that by (induction d) auto
  moreover have "current_path w \<notin> fst ` set (map seg_file pre)" using ne by auto
  ultimately show "AList.map_entry (current_path w) f (wal_dir w) =
      map seg_file pre @ [(current_path w, f (seg_bytes rs))]" by (simp add: dir)
qed

lemma seg_length_bound:
  assumes "wal_rel segs w" and "(k, rs) \<in> set segs"
  shows "length (seg_bytes rs) < 2 ^ 63"
proof -
  have rs: "\<forall>r \<in> set rs. wf_record r" "length (seg_bytes rs) \<le> unat (segment_size w) \<or> length rs \<le> 1"
    using assms by (auto simp: wal_rel_def wf_segments_def)
  show ?thesis
  proof (cases "length rs \<le> 1")
    case True
    then show ?thesis using rs(1) by (cases rs) (auto simp: serialized_size_def wf_record_def)
  next
    case False
    then show ?thesis using rs(2) wal_relD(9) [OF assms(1)] by simp
  qed
qed

lemma seg_write_rel:
  assumes rel: "wal_rel (pre @ [(k, rs)]) w" and r: "wf_record r"
    and fits: "length (seg_bytes rs) + serialized_size r \<le> unat (segment_size w) \<or> rs = []"
  shows "wal_rel (pre @ [(k, rs @ [r])])
    ((seg_write (serialize r) w)\<lparr>current_segment_pos := current_segment_pos w + of_nat (serialized_size r),
       wal_current_size := wal_current_size w + of_nat (serialized_size r)\<rparr>)"
proof -
  note cur = wal_rel_current [OF rel]
  have "wf_segments (unat (segment_size w)) (pre @ [(k, rs @ [r])])"
    using rel r fits by (auto simp: wal_rel_def wf_segments_def)
  moreover have "total_size (map seg_file pre @ [(current_path w, seg_bytes rs @ serialize r)]) =
      total_size (wal_dir w) + of_nat (serialized_size r)"
    by (simp add: cur(2) total_size_append)
  moreover have w': "seg_write (serialize r) w = w\<lparr>wal_tick := Suc (wal_tick w),
      wal_dir := map seg_file pre @ [(current_path w, seg_bytes rs @ serialize r)]\<rparr>"
    using wal_relD(6-8) [OF rel] by (simp add: seg_write_def wal_io_def cur(4))
  moreover have "map_of (wal_durable w) name = map_of (map seg_file pre) name" if "name \<noteq> current_path w" for name
    using wal_relD(12) [OF rel that] that by (simp add: cur(2) map_add_def split: option.split)
  moreover have "map_of (map seg_file pre @ [(current_path w, c)]) name = map_of (map seg_file pre) name"
    if "name \<noteq> current_path w" for name c using that by (simp add: map_add_def split: option.split)
  ultimately show ?thesis using rel wal_relD(11) [OF rel]
    unfolding wal_rel_def by (simp add: current_path_def seg_file_def [of "(k, _)"])
qed

lemma rotate_rel:
  assumes rel: "wal_rel (pre @ [(k, rs)]) w" and lim: "k + 1 < 2 ^ 64 - 2"
    and rot: "rotate_segment w = (ok, w')"
  shows "ok" and "wal_rel (pre @ [(k, rs), (k + 1, [])]) w'" and "next_lsn w' = next_lsn w"
    and "segment_size w' = segment_size w"
proof -
  note cur = wal_rel_current [OF rel]
  let ?segs = "pre @ [(k, rs)]"
  let ?path' = "segment_path (of_nat k + 1)"
  have id: "current_segment_id w = of_nat k" using wal_relD(5) [OF rel] by simp
  have new: "?path' \<notin> fst ` set (wal_dir w)"
  proof
    assume "?path' \<in> fst ` set (wal_dir w)"
    then obtain e where e: "e \<in> set ?segs" "segment_path (of_nat (fst e)) = ?path'"
      using wal_relD(4) [OF rel] by (force simp: seg_file_def)
    from e(1) have "e \<in> set pre \<or> fst e = k" by auto
    then have le: "fst e \<le> k" using wal_rel_pre(1) [OF rel, of e] by auto
    have "(of_nat (fst e) :: u64) = of_nat (k + 1)" using e(2) by simp
    then have "fst e = k + 1" using le lim u64_of_nat_inj [of "fst e" "k + 1"] by simp
    with le show False by simp
  qed
  have st: "seg_is_open w" "\<not> seg_fail w" "\<And>n. wal_env w n = IoOk" using wal_relD(6-8) [OF rel] by auto
  have w': "w' = w\<lparr>wal_durable := AList.update ?path' []
        (AList.update (current_path w) (seg_bytes rs) (AList.update (current_path w) (seg_bytes rs) (wal_durable w))),
      wal_dir := wal_dir w @ [(?path', [])], current_segment_id := of_nat k + 1, current_segment_pos := 0,
      wal_tick := Suc (Suc (Suc (wal_tick w)))\<rparr>" and ok: ok
    using rot st cur(3) id update_new_key [OF new, of "[]"]
    by (auto simp: rotate_segment_def seg_flush_def seg_close_def seg_open_out_def wal_io_def Let_def
        current_path_def)
  show ok by (rule ok)
  have "wf_segments (unat (segment_size w)) (pre @ [(k, rs), (k + 1, [])])"
    using rel lim less_SucI [OF wal_rel_pre(1) [OF rel]]
    by (auto simp: wal_rel_def wf_segments_def sorted_wrt_append)
  moreover have "map_of (wal_durable w') name = map_of (wal_dir w') name" if "name \<noteq> ?path'" for name
  proof (cases "name = current_path w")
    case True
    then show ?thesis using cur(5) that by (simp add: w' update_conv' map_add_def)
  next
    case False
    then show ?thesis using that wal_relD(12) [OF rel False]
      by (simp add: w' update_conv' map_add_def split: option.split)
  qed
  ultimately show "wal_rel (pre @ [(k, rs), (k + 1, [])]) w'"
    using rel st by (simp add: wal_rel_def w' seg_file_def current_path_def total_size_append)
  show "next_lsn w' = next_lsn w" "segment_size w' = segment_size w" by (simp_all add: w')
qed


section \<open>The operations refine the abstract log\<close>

lemma wal_rel_cong:
  assumes "wal_rel segs w"
  shows "wal_rel segs (w\<lparr>next_lsn := l\<rparr>)" and "wal_rel segs (w\<lparr>flushed_lsn := l\<rparr>)"
    and "wal_rel segs (w\<lparr>wal_initialized := b\<rparr>)"
  using assms by (simp_all add: wal_rel_def current_path_def)

text \<open>The 64-bit comparison that decides on a rotation is the comparison of the lengths.\<close>

lemma rotation_test:
  assumes rel: "wal_rel (pre @ [(k, rs)]) w" and r: "wf_record r"
  shows "segment_size w < current_segment_pos w + of_nat (serialized_size r) \<longleftrightarrow>
    unat (segment_size w) < length (seg_bytes rs) + serialized_size r"
proof -
  have "length (seg_bytes rs) < 2 ^ 63" using seg_length_bound [OF rel, of k rs] by simp
  moreover have "serialized_size r < 2 ^ 63" using r by (simp add: serialized_size_def wf_record_def)
  ultimately have "unat (of_nat (length (seg_bytes rs)) + of_nat (serialized_size r) :: u64) =
      length (seg_bytes rs) + serialized_size r"
    by (simp add: unat_word_ariths unat_of_nat)
  then show ?thesis using wal_relD(10) [OF rel] by (simp add: word_less_nat_alt)
qed

lemma append_refines:
  assumes rel: "wal_rel segs w" and r: "wf_record r" and lim: "fst (last segs) + 1 < 2 ^ 64 - 2"
    and a: "wal_append r w m = (l, w', m')"
  shows "l = next_lsn w" and "next_lsn w' = next_lsn w + 1"
    and "wal_rel (log_append (unat (segment_size w)) (r\<lparr>lr_lsn := next_lsn w\<rparr>) segs) w'"
    and "m' = m\<lparr>current_wal_size := wal_current_size w'\<rparr>" and "segment_size w' = segment_size w"
proof -
  obtain pre k rs where segs: "segs = pre @ [(k, rs)]"
    using wal_relD(1) [OF rel] by (metis append_butlast_last_id surj_pair)
  let ?r = "r\<lparr>lr_lsn := next_lsn w\<rparr>" and ?w1 = "w\<lparr>next_lsn := next_lsn w + 1\<rparr>"
  let ?fin = "\<lambda>w2. (seg_write (serialize ?r) w2)\<lparr>current_segment_pos := current_segment_pos w2 + of_nat (serialized_size r),
       wal_current_size := wal_current_size w2 + of_nat (serialized_size r)\<rparr>"
  have rel1: "wal_rel (pre @ [(k, rs)]) ?w1" using wal_rel_cong(1) [OF rel] segs by simp
  have wf: "wf_record ?r" using r by simp
  note test = rotation_test [OF rel [unfolded segs] r]
  have pos: "current_segment_pos (seg_write bs w2) = current_segment_pos w2"
    "wal_current_size (seg_write bs w2) = wal_current_size w2" "next_lsn (seg_write bs w2) = next_lsn w2"
    "segment_size (seg_write bs w2) = segment_size w2" for bs w2
    by (simp_all add: seg_write_def wal_io_def split: io_outcome.split)
  have main: "l = next_lsn w \<and> next_lsn w' = next_lsn w + 1 \<and>
      wal_rel (log_append (unat (segment_size w)) ?r segs) w' \<and>
      m' = m\<lparr>current_wal_size := wal_current_size w'\<rparr> \<and> segment_size w' = segment_size w"
  proof (cases "unat (segment_size w) < length (seg_bytes rs) + serialized_size r")
    case False
    have "wal_rel (pre @ [(k, rs @ [?r])]) (?fin ?w1)"
      using seg_write_rel [OF rel1 wf] False by simp
    moreover have "w' = ?fin ?w1" "l = next_lsn w" "m' = m\<lparr>current_wal_size := wal_current_size w'\<rparr>"
      using a False test by (auto simp: wal_append_def Let_def pos)
    ultimately show ?thesis using False by (simp add: segs log_append_def pos)
  next
    case True
    obtain ok w2 where rot: "rotate_segment ?w1 = (ok, w2)" by fastforce
    have "k + 1 < 2 ^ 64 - 2" using lim by (simp add: segs)
    note ro = rotate_rel [OF rel1 this rot]
    have "wal_rel ((pre @ [(k, rs)]) @ [(k + 1, [] @ [?r])]) (?fin w2)"
      using seg_write_rel [of "pre @ [(k, rs)]" "k + 1" "[]" w2 ?r] ro(2) wf by simp
    moreover have "w' = ?fin w2" "l = next_lsn w" "m' = m\<lparr>current_wal_size := wal_current_size w'\<rparr>"
      using a True test rot ro(1) by (auto simp: wal_append_def Let_def pos)
    ultimately show ?thesis using True ro(3,4) by (simp add: segs log_append_def pos)
  qed
  then show "l = next_lsn w" and "next_lsn w' = next_lsn w + 1"
    and "wal_rel (log_append (unat (segment_size w)) ?r segs) w'"
    and "m' = m\<lparr>current_wal_size := wal_current_size w'\<rparr>" and "segment_size w' = segment_size w" by simp_all
qed

text \<open>After \<open>force\<close> everything that was appended is durable.\<close>

lemma force_refines:
  assumes rel: "wal_rel segs w"
  shows "wal_rel segs (force l w)" and "map_of (wal_durable (force l w)) = map_of (wal_dir (force l w))"
    and "wal_dir (force l w) = wal_dir w" and "flushed_lsn (force l w) = l"
    and "next_lsn (force l w) = next_lsn w" and "segment_size (force l w) = segment_size w"
    and "wal_current_size (force l w) = wal_current_size w"
proof -
  obtain pre k rs where segs: "segs = pre @ [(k, rs)]"
    using wal_relD(1) [OF rel] by (metis append_butlast_last_id surj_pair)
  note cur = wal_rel_current [OF rel [unfolded segs]]
  have f: "force l w = w\<lparr>wal_tick := Suc (wal_tick w), flushed_lsn := l,
      wal_durable := AList.update (current_path w) (seg_bytes rs) (wal_durable w)\<rparr>"
    using wal_relD(6-8) [OF rel] cur(3) by (simp add: force_def seg_flush_def wal_io_def)
  show "wal_rel segs (force l w)" using rel by (simp add: f wal_rel_def current_path_def update_conv')
  show "map_of (wal_durable (force l w)) = map_of (wal_dir (force l w))"
  proof
    fix name
    show "map_of (wal_durable (force l w)) name = map_of (wal_dir (force l w)) name"
      using cur(5) wal_relD(12) [OF rel, of name] by (simp add: f update_conv')
  qed
qed (use wal_relD(6-8) [OF rel] in \<open>simp_all add: force_def seg_flush_def wal_io_def\<close>)


section \<open>Truncation\<close>

definition obsolete :: "u64 \<Rightarrow> string \<Rightarrow> bool" where
  "obsolete cur name \<longleftrightarrow> (case segment_id_of name of None \<Rightarrow> False | Some k \<Rightarrow> k + 2 \<le> cur)"

lemma map_of_filter_key:
  "map_of (filter (\<lambda>e. Q (fst e)) d) name = (if Q name then map_of d name else None)"
  by (induction d) auto

lemma delete_as_filter: "AList.delete k al = filter (\<lambda>e. fst e \<noteq> k) al"
  unfolding AList.delete_eq by (rule filter_cong) auto

text \<open>Without failures the loop removes the obsolete entries of its list and counts their sizes.\<close>

lemma truncate_loop_effect:
  assumes "\<forall>n. wal_env w n = IoOk"
  shows "\<exists>t. truncate_loop es freed w =
    (freed + total_size (filter (\<lambda>e. obsolete (current_segment_id w) (fst e)) es),
     w\<lparr>wal_dir := filter (\<lambda>e. \<not> (obsolete (current_segment_id w) (fst e) \<and> fst e \<in> fst ` set es)) (wal_dir w),
       wal_durable := filter (\<lambda>e. \<not> (obsolete (current_segment_id w) (fst e) \<and> fst e \<in> fst ` set es)) (wal_durable w),
       wal_tick := t\<rparr>)"
  using assms
proof (induction es arbitrary: freed w)
  case Nil
  show ?case by (rule exI [of _ "wal_tick w"]) (simp add: total_size_append(2))
next
  case (Cons e es)
  obtain name c where e: "e = (name, c)" by fastforce
  let ?cur = "current_segment_id w"
  let ?rem = "\<lambda>es e. obsolete ?cur (fst e) \<and> fst e \<in> fst ` set es"
  show ?case
  proof (cases "obsolete ?cur name")
    case False
    then have step: "truncate_loop (e # es) freed w = truncate_loop es freed w"
      by (auto simp: obsolete_def e split: option.splits)
    have filt: "filter (\<lambda>x. \<not> ?rem (e # es) x) d = filter (\<lambda>x. \<not> ?rem es x) d" for d :: directory
      by (rule filter_cong) (use False in \<open>auto simp: e\<close>)
    have "filter (\<lambda>x. obsolete ?cur (fst x)) (e # es) = filter (\<lambda>x. obsolete ?cur (fst x)) es"
      using False by (simp add: e)
    then show ?thesis unfolding step filt using Cons.IH [OF Cons.prems, of freed] by simp
  next
    case True
    let ?w = "w\<lparr>wal_tick := Suc (Suc (wal_tick w)), wal_dir := AList.delete name (wal_dir w),
      wal_durable := AList.delete name (wal_durable w)\<rparr>"
    have step: "truncate_loop (e # es) freed w = truncate_loop es (freed + of_nat (length c)) ?w"
      using True Cons.prems by (auto simp: obsolete_def e wal_io_def split: option.splits)
    have filt: "filter (\<lambda>x. \<not> ?rem (e # es) x) d = filter (\<lambda>x. \<not> ?rem es x) (AList.delete name d)"
      for d :: directory
      unfolding delete_as_filter filter_filter by (rule filter_cong) (use True in \<open>auto simp: e\<close>)
    obtain t where "truncate_loop es (freed + of_nat (length c)) ?w =
      (freed + of_nat (length c) + total_size (filter (\<lambda>x. obsolete ?cur (fst x)) es),
       ?w\<lparr>wal_dir := filter (\<lambda>x. \<not> ?rem es x) (wal_dir ?w),
          wal_durable := filter (\<lambda>x. \<not> ?rem es x) (wal_durable ?w), wal_tick := t\<rparr>)"
      using Cons.IH [of ?w "freed + of_nat (length c)"] Cons.prems by auto
    then show ?thesis unfolding step filt using True
      by (intro exI [of _ t]) (simp add: e total_size_append(3) add.assoc)
  qed
qed

lemma log_truncate_last:
  assumes "segs \<noteq> []"
  shows "last (log_truncate segs) = last segs" and "log_truncate segs \<noteq> []"
proof -
  obtain pre x where "segs = pre @ [x]" using assms by (metis append_butlast_last_id)
  then show "last (log_truncate segs) = last segs" and "log_truncate segs \<noteq> []"
    by (simp_all add: log_truncate_def case_prod_beta')
qed

lemma total_size_partition:
  "total_size d = total_size (filter P d) + total_size (filter (\<lambda>e. \<not> P e) d)"
  by (induction d) (auto simp: total_size_append(2,3) add_ac)

lemma truncate_refines:
  assumes rel: "wal_rel segs w" and t: "truncate_before l w m = (w', m')"
  shows "wal_rel (log_truncate segs) w'" and "next_lsn w' = next_lsn w"
    and "current_wal_size m = wal_current_size w \<Longrightarrow> current_wal_size m' = wal_current_size w'"
    and "dirty_page_count_m m' = dirty_page_count_m m" and "segment_size w' = segment_size w"
    and "map_of (wal_durable w) = map_of (wal_dir w) \<Longrightarrow> map_of (wal_durable w') = map_of (wal_dir w')"
    and "flushed_lsn w' = flushed_lsn w"
proof -
  let ?cur = "current_segment_id w" and ?K = "fst (last segs)"
  let ?ob = "\<lambda>e. obsolete ?cur (fst e)"
  let ?rem = "\<lambda>e. obsolete ?cur (fst e) \<and> fst e \<in> fst ` set (wal_dir w)"
  obtain tk where loop: "truncate_loop (wal_dir w) 0 w = (0 + total_size (filter ?ob (wal_dir w)),
      w\<lparr>wal_dir := filter (\<lambda>e. \<not> ?rem e) (wal_dir w), wal_durable := filter (\<lambda>e. \<not> ?rem e) (wal_durable w),
        wal_tick := tk\<rparr>)"
    using truncate_loop_effect [of w "wal_dir w" 0] wal_relD(8) [OF rel] by blast
  have dir: "filter (\<lambda>e. \<not> ?rem e) (wal_dir w) = filter (\<lambda>e. \<not> ?ob e) (wal_dir w)"
    by (rule filter_cong) auto
  have size: "wal_current_size w - total_size (filter ?ob (wal_dir w)) = total_size (filter (\<lambda>e. \<not> ?ob e) (wal_dir w))"
    using total_size_partition [of "wal_dir w" ?ob] wal_relD(11) [OF rel] by simp
  have w': "w' = w\<lparr>wal_dir := filter (\<lambda>e. \<not> ?ob e) (wal_dir w), wal_durable := filter (\<lambda>e. \<not> ?rem e) (wal_durable w),
      wal_tick := tk, wal_current_size := total_size (filter (\<lambda>e. \<not> ?ob e) (wal_dir w))\<rparr>"
    using t loop dir size wal_relD(11) [OF rel]
    by (auto simp: truncate_before_def Let_def word_gt_0 split: if_splits)
  have ob: "obsolete ?cur (fst (seg_file e)) \<longleftrightarrow> \<not> ?K < fst e + 2" if "e \<in> set segs" for e
  proof -
    obtain pre x where pre: "segs = pre @ [x]" using wal_relD(1) [OF rel] by (metis append_butlast_last_id)
    have "fst e \<le> ?K"
      using that wal_relD(2) [OF rel] by (auto simp: pre sorted_wrt_append less_imp_le)
    moreover have K: "?K < 2 ^ 64 - 2" using wal_relD(3) [OF rel] .
    ultimately have "unat (of_nat (fst e) + 2 :: u64) = fst e + 2" "unat (of_nat ?K :: u64) = ?K"
      by (simp_all add: unat_word_ariths unat_of_nat)
    then show ?thesis using wal_relD(5) [OF rel] by (auto simp: obsolete_def seg_file_def word_le_nat_alt)
  qed
  have dir': "filter (\<lambda>e. \<not> ?ob e) (wal_dir w) = map seg_file (log_truncate segs)"
    unfolding wal_relD(4) [OF rel] log_truncate_def filter_map comp_def
    by (intro arg_cong [of _ _ "map seg_file"] filter_cong) (use ob in \<open>auto simp: case_prod_beta'\<close>)
  note last = log_truncate_last [OF wal_relD(1) [OF rel]]
  have durable: "map_of (wal_durable w') name = map_of (wal_dir w') name"
    if "map_of (wal_durable w) name = map_of (wal_dir w) name" for name
  proof -
    have "map_of (wal_dir w) name = None" if "name \<notin> fst ` set (wal_dir w)" using that by (simp add: map_of_eq_None_iff)
    then show ?thesis using that
      map_of_filter_key [of "\<lambda>n. \<not> (obsolete ?cur n \<and> n \<in> fst ` set (wal_dir w))" "wal_durable w" name]
      map_of_filter_key [of "\<lambda>n. \<not> obsolete ?cur n" "wal_dir w" name]
      by (auto simp: w')
  qed
  have "wf_segments (unat (segment_size w)) (log_truncate segs)"
  proof -
    have "sorted_wrt (<) (map fst (log_truncate segs))"
      using wal_relD(2) [OF rel] by (simp add: log_truncate_def sorted_wrt_map sorted_wrt_filter)
    moreover have "set (log_truncate segs) \<subseteq> set segs" by (auto simp: log_truncate_def)
    then have "\<forall>(k, rs) \<in> set (log_truncate segs). (\<forall>r \<in> set rs. wf_record r) \<and>
        (length (seg_bytes rs) \<le> unat (segment_size w) \<or> length rs \<le> 1)"
      using rel unfolding wal_rel_def wf_segments_def by blast
    ultimately show ?thesis using rel last by (simp add: wal_rel_def wf_segments_def)
  qed
  moreover have "map_of (wal_durable w') name = map_of (wal_dir w') name" if "name \<noteq> current_path w" for name
    using durable wal_relD(12) [OF rel that] .
  ultimately show "wal_rel (log_truncate segs) w'"
    using rel last dir' by (simp add: wal_rel_def w' current_path_def)
  show "map_of (wal_durable w') = map_of (wal_dir w')" if "map_of (wal_durable w) = map_of (wal_dir w)"
    by (rule ext) (use durable that in simp)
  show "next_lsn w' = next_lsn w" "segment_size w' = segment_size w" "flushed_lsn w' = flushed_lsn w"
    by (simp_all add: w')
  show "current_wal_size m' = wal_current_size w'" if "current_wal_size m = wal_current_size w"
    using t loop that by (auto simp: truncate_before_def Let_def split: if_splits)
  show "dirty_page_count_m m' = dirty_page_count_m m"
    using t loop by (auto simp: truncate_before_def Let_def split: if_splits)
qed

lemma log_records_truncate: "suffix (log_records (log_truncate segs)) (log_records segs)"
  if sorted: "sorted_wrt (<) (map fst segs)"
proof -
  let ?Q = "\<lambda>(k, rs). fst (last segs) < k + 2"
  have "filter ?Q xs = dropWhile (\<lambda>e. \<not> ?Q e) xs" if "sorted_wrt (<) (map fst xs)" for xs :: segments
    using that
  proof (induction xs)
    case (Cons x xs)
    show ?case
    proof (cases "?Q x")
      case True
      then have "\<forall>e \<in> set xs. ?Q e" using Cons.prems by (auto simp: case_prod_beta')
      then have "filter ?Q xs = xs" by (simp add: filter_id_conv)
      with True show ?thesis by simp
    qed (use Cons in simp)
  qed simp
  then have "log_truncate segs = dropWhile (\<lambda>e. \<not> ?Q e) segs" using sorted by (simp add: log_truncate_def)
  then obtain pre where "segs = pre @ log_truncate segs" by (metis takeWhile_dropWhile_id)
  then have "log_records segs = log_records pre @ log_records (log_truncate segs)"
    by (metis concat_append log_records_def map_append)
  then show ?thesis by (simp add: suffix_def)
qed

end
