(* ===== verification/Wal_Props.thy ===== *)
theory Wal_Props
  imports Wal_Refinement
begin

text \<open>
  The contract of the write-ahead log over whole sessions: what opening a directory gives, what a
  sequence of appends leaves in the log, and what the log promises, and does not promise, when the
  operating system fails.
\<close>

section \<open>Opening\<close>

lemma max_segment_bound:
  assumes "\<forall>e \<in> set segs. fst e \<le> k" and "k < 2 ^ 64" and "m \<le> of_nat k"
  shows "fold (\<lambda>(name, _) m. case segment_id_of name of None \<Rightarrow> m | Some k \<Rightarrow> max m k) (map seg_file segs) m
    \<le> of_nat k"
  using assms
proof (induction segs arbitrary: m)
  case (Cons e segs)
  have "(of_nat (fst e) :: u64) \<le> of_nat k"
    using Cons.prems by (simp add: word_le_nat_alt unat_of_nat)
  with Cons.prems have "max m (of_nat (fst e)) \<le> of_nat k" by simp
  with Cons show ?case by (simp add: seg_file_def)
qed simp

lemma max_segment_files:
  assumes "wf_segments cap segs"
  shows "max_segment (map seg_file segs) = of_nat (fst (last segs))"
proof -
  obtain pre x where segs: "segs = pre @ [x]" using assms by (metis append_butlast_last_id wf_segments_def)
  have "\<forall>e \<in> set pre. fst e \<le> fst x" and lim: "fst x < 2 ^ 64"
    using assms by (auto simp: wf_segments_def segs sorted_wrt_append less_imp_le)
  from max_segment_bound [OF this(1) lim, of 0]
  have "fold (\<lambda>(name, _) m. case segment_id_of name of None \<Rightarrow> m | Some k \<Rightarrow> max m k) (map seg_file pre) 0
      \<le> (of_nat (fst x) :: u64)" by simp
  then show ?thesis by (simp add: max_segment_def segs seg_file_def)
qed

text \<open>Opening the files that an earlier session left gives the same log again.\<close>

lemma wal_reopen:
  assumes wf: "wf_segments (unat cap) segs" and cap: "unat cap < 2 ^ 63" and env: "\<forall>n. env n = IoOk"
    and i: "wal_initialize (WriteAheadLog_new (map seg_file segs) cap env) m = (ok, w, m')"
  shows "ok" and "wal_rel segs w" and "next_lsn w = 1" and "current_wal_size m' = wal_current_size w"
proof -
  let ?d = "map seg_file segs" and ?K = "of_nat (fst (last segs)) :: u64"
  obtain pre k rs where segs: "segs = pre @ [(k, rs)]"
    using wf by (metis append_butlast_last_id surj_pair wf_segments_def)
  have k: "k < 2 ^ 64" "\<forall>e \<in> set pre. fst e < k" using wf by (auto simp: wf_segments_def segs sorted_wrt_append)
  have ne: "segment_path (of_nat (fst e)) \<noteq> segment_path (of_nat k)" if "e \<in> set pre" for e
  proof -
    have "fst e < k" using k(2) that by blast
    then show ?thesis using k(1) u64_of_nat_inj [of "fst e" k] by simp
  qed
  have nin: "segment_path (of_nat k) \<notin> fst ` set (map seg_file pre)"
  proof
    assume "segment_path (of_nat k) \<in> fst ` set (map seg_file pre)"
    then obtain e where "e \<in> set pre" "segment_path (of_nat k) = segment_path (of_nat (fst e))"
      by (auto simp: seg_file_def)
    then show False using ne [of e] by simp
  qed
  have look: "map_of ?d (segment_path (of_nat k)) = Some (seg_bytes rs)"
  proof -
    have "map_of (map seg_file pre) (segment_path (of_nat k)) = None" using nin unfolding map_of_eq_None_iff .
    then show ?thesis by (simp add: segs seg_file_def [of "(k, rs)"] map_add_def)
  qed
  have upd: "AList.update (segment_path (of_nat k)) (seg_bytes rs) ?d = ?d"
  proof -
    have "AList.update p c (d @ [(p, c)]) = d @ [(p, c)]" if "p \<notin> fst ` set d" for p c and d :: directory
      using that by (induction d) auto
    from this [OF nin, of "seg_bytes rs"] show ?thesis by (simp add: segs seg_file_def)
  qed
  have max: "max_segment ?d = of_nat k" using max_segment_files [OF wf] by (simp add: segs)
  have w: "ok \<and> w = (WriteAheadLog_new ?d cap env)\<lparr>wal_tick := Suc (Suc (Suc 0)), current_segment_id := of_nat k,
      seg_is_open := True, current_segment_pos := of_nat (length (seg_bytes rs)),
      wal_current_size := total_size ?d, wal_initialized := True\<rparr> \<and>
      m' = m\<lparr>current_wal_size := total_size ?d\<rparr>"
    using i env max look upd
    by (simp add: wal_initialize_def WriteAheadLog_new_def wal_io_def seg_open_app_def current_path_def
        file_of_def wal_open_finish_def seg_seek_end_def Let_def)
  then show ok "next_lsn w = 1" "current_wal_size m' = wal_current_size w"
    by (simp_all add: WriteAheadLog_new_def)
  show "wal_rel segs w"
    using w wf cap env by (simp add: wal_rel_def segs WriteAheadLog_new_def)
qed

text \<open>An empty directory gives one empty segment.\<close>

lemma wal_open_empty:
  assumes cap: "unat cap < 2 ^ 63" and env: "\<forall>n. env n = IoOk"
    and i: "wal_initialize (WriteAheadLog_new [] cap env) m = (ok, w, m')"
  shows "ok" and "wal_rel [(0, [])] w" and "next_lsn w = 1" and "current_wal_size m' = wal_current_size w"
proof -
  have w: "ok \<and> w = (WriteAheadLog_new [(segment_path 0, [])] cap env)\<lparr>wal_tick := Suc (Suc (Suc 0)),
      seg_is_open := True, wal_initialized := True\<rparr> \<and> m' = m\<lparr>current_wal_size := 0\<rparr>"
    using i env
    by (simp add: wal_initialize_def WriteAheadLog_new_def wal_io_def seg_open_app_def current_path_def
        file_of_def wal_open_finish_def seg_seek_end_def max_segment_def total_size_def Let_def)
  then show ok "next_lsn w = 1" "current_wal_size m' = wal_current_size w"
    by (simp_all add: WriteAheadLog_new_def)
  show "wal_rel [(0, [])] w"
    using w cap env
    by (simp add: wal_rel_def wf_segments_def WriteAheadLog_new_def seg_file_def total_size_def)
qed

section \<open>Sequential logs\<close>

text \<open>
  What a client of a log relies on: one append adds one record at the end, stamped with the current
  sequence number, and the sequence number goes up by one. \<open>good n\<close> leaves room for \<open>n\<close> appends.
\<close>

locale sequential_log =
  fixes put :: "'r \<Rightarrow> 's \<Rightarrow> 's" and good :: "nat \<Rightarrow> 's \<Rightarrow> bool" and content :: "'s \<Rightarrow> 'r list"
    and valid :: "'r \<Rightarrow> bool" and stamp :: "Lsn \<Rightarrow> 'r \<Rightarrow> 'r" and seqno :: "'s \<Rightarrow> Lsn"
  assumes put_good: "good (Suc n) s \<Longrightarrow> valid r \<Longrightarrow> good n (put r s)"
    and put_content: "good (Suc n) s \<Longrightarrow> valid r \<Longrightarrow> content (put r s) = content s @ [stamp (seqno s) r]"
    and put_seqno: "good (Suc n) s \<Longrightarrow> valid r \<Longrightarrow> seqno (put r s) = seqno s + 1"
begin

lemma puts:
  assumes "good (length rs + n) s" and "\<forall>r \<in> set rs. valid r"
  shows "good n (fold put rs s)" and "seqno (fold put rs s) = seqno s + of_nat (length rs)"
    and "content (fold put rs s) =
      content s @ map (\<lambda>i. stamp (seqno s + of_nat i) (rs ! i)) [0..<length rs]"
proof -
  have "good n (fold put rs s) \<and> seqno (fold put rs s) = seqno s + of_nat (length rs) \<and>
    content (fold put rs s) = content s @ map (\<lambda>i. stamp (seqno s + of_nat i) (rs ! i)) [0..<length rs]"
    using assms
  proof (induction rs arbitrary: n rule: rev_induct)
    case (snoc r rs)
    have IH: "good (Suc n) (fold put rs s)" "seqno (fold put rs s) = seqno s + of_nat (length rs)"
      "content (fold put rs s) = content s @ map (\<lambda>i. stamp (seqno s + of_nat i) (rs ! i)) [0..<length rs]"
      using snoc.IH [of "Suc n"] snoc.prems by simp_all
    have r: "valid r" using snoc.prems by simp
    have "map (\<lambda>i. stamp (seqno s + of_nat i) ((rs @ [r]) ! i)) [0..<length rs] =
        map (\<lambda>i. stamp (seqno s + of_nat i) (rs ! i)) [0..<length rs]"
      by (simp add: nth_append)
    then show ?case
      using IH put_good [OF IH(1) r] put_content [OF IH(1) r] put_seqno [OF IH(1) r]
      by (simp add: add.assoc)
  qed simp
  then show "good n (fold put rs s)" and "seqno (fold put rs s) = seqno s + of_nat (length rs)"
    and "content (fold put rs s) =
      content s @ map (\<lambda>i. stamp (seqno s + of_nat i) (rs ! i)) [0..<length rs]" by simp_all
qed

end

definition wal_put :: "LogRecord \<Rightarrow> WriteAheadLog \<times> CheckpointMetrics \<Rightarrow> WriteAheadLog \<times> CheckpointMetrics" where
  "wal_put r s = snd (wal_append r (fst s) (snd s))"

definition wal_room :: "nat \<Rightarrow> WriteAheadLog \<times> CheckpointMetrics \<Rightarrow> bool" where
  "wal_room n s \<longleftrightarrow> (\<exists>segs. wal_rel segs (fst s) \<and> fst (last segs) + n < 2 ^ 64 - 2)"

text \<open>The records that a reader finds in the segment files, in the order of the segments.\<close>

definition wal_content :: "WriteAheadLog \<Rightarrow> LogRecord list" where
  "wal_content w = concat (map (\<lambda>(name, c). case parse_log c of None \<Rightarrow> [] | Some rs \<Rightarrow> rs) (wal_dir w))"

lemma wal_rel_content:
  assumes "wal_rel segs w"
  shows "wal_content w = log_records segs"
proof -
  have "\<forall>(k, rs) \<in> set segs. parse_log (seg_bytes rs) = Some rs"
    using assms parse_seg_bytes by (auto simp: wal_rel_def wf_segments_def)
  then have "map (\<lambda>(name, c). case parse_log c of None \<Rightarrow> [] | Some rs \<Rightarrow> rs) (map seg_file segs) = map snd segs"
    unfolding map_map by (intro map_cong) (auto simp: seg_file_def)
  then show ?thesis unfolding wal_content_def wal_relD(4) [OF assms] log_records_def by (rule arg_cong)
qed

lemma log_append_last:
  assumes "segs \<noteq> []"
  shows "fst (last (log_append cap r segs)) \<le> fst (last segs) + 1" and "log_append cap r segs \<noteq> []"
  using assms by (auto simp: log_append_def split: prod.splits)

interpretation walog: sequential_log wal_put wal_room "\<lambda>s. wal_content (fst s)" wf_record
  "\<lambda>l r. r\<lparr>lr_lsn := l\<rparr>" "\<lambda>s. next_lsn (fst s)"
proof
  fix n s r
  assume g: "wal_room (Suc n) s" and r: "wf_record r"
  obtain w m where s: "s = (w, m)" by fastforce
  from g obtain segs where rel: "wal_rel segs w" and lim: "fst (last segs) + Suc n < 2 ^ 64 - 2"
    by (auto simp: wal_room_def s)
  obtain l w' m' where a: "wal_append r w m = (l, w', m')" using prod_cases3 by blast
  have "fst (last segs) + 1 < 2 ^ 64 - 2" using lim by simp
  note ref = append_refines [OF rel r this a]
  note ne = wal_relD(1) [OF rel]
  let ?segs = "log_append (unat (segment_size w)) (r\<lparr>lr_lsn := next_lsn w\<rparr>) segs"
  have "fst (last ?segs) + n < 2 ^ 64 - 2"
    using log_append_last(1) [OF ne, of "unat (segment_size w)" "r\<lparr>lr_lsn := next_lsn w\<rparr>"] lim by linarith
  then show "wal_room n (wal_put r s)"
    unfolding wal_room_def using ref(3) by (intro exI [of _ ?segs]) (simp add: wal_put_def s a)
  show "wal_content (fst (wal_put r s)) = wal_content (fst s) @ [r\<lparr>lr_lsn := next_lsn (fst s)\<rparr>]"
    using wal_rel_content [OF ref(3)] wal_rel_content [OF rel] log_records_append [OF ne]
    by (simp add: wal_put_def s a)
  show "next_lsn (fst (wal_put r s)) = next_lsn (fst s) + 1"
    using ref(2) by (simp add: wal_put_def s a)
qed


lemma seg_ops_lsn [simp]:
  "next_lsn (seg_flush w) = next_lsn w" "next_lsn (seg_close w) = next_lsn w"
  "next_lsn (seg_open_out w) = next_lsn w" "next_lsn (seg_write bs w) = next_lsn w"
  by (simp_all add: seg_flush_def seg_close_def seg_open_out_def seg_write_def wal_io_def split: io_outcome.split)

section \<open>An example log\<close>

definition demo_record :: LogRecord where
  "demo_record = LogRecord_default\<lparr>lr_type := LR_INSERT, lr_txn_id := 7, lr_page_id := 3, lr_data := [1, 2]\<rparr>"

definition demo_wal :: WriteAheadLog where
  "demo_wal = fst (snd (wal_initialize (WriteAheadLog_new [] 100 (\<lambda>_. IoOk)) (initial_metrics 0)))"

lemma demo_record_wf: "wf_record demo_record"
  by (simp add: demo_record_def LogRecord_default_def wf_record_def)

lemma demo_wal_rel: "wal_rel [(0, [])] demo_wal" and demo_wal_lsn: "next_lsn demo_wal = 1"
proof -
  obtain ok w m' where i: "wal_initialize (WriteAheadLog_new [] 100 (\<lambda>_. IoOk)) (initial_metrics 0) = (ok, w, m')"
    using prod_cases3 by blast
  then have "demo_wal = w" by (simp add: demo_wal_def)
  then show "wal_rel [(0, [])] demo_wal" and "next_lsn demo_wal = 1"
    using wal_open_empty(2,3) [OF _ _ i] by simp_all
qed

lemma demo_wal_cap: "segment_size demo_wal = 100"
  by (simp add: demo_wal_def wal_initialize_def WriteAheadLog_new_def wal_io_def seg_open_app_def
      wal_open_finish_def seg_seek_end_def Let_def)

section \<open>Properties\<close>

text \<open>C28. A log record survives the byte format: \<open>deserialize\<close> of the bytes that \<open>serialize\<close> produced, whatever
  follows them in the buffer, is the record, for every record with fewer than \<open>2 ^ 32\<close> bytes of data.\<close>

theorem wal_record_roundtrip:
  assumes "wf_record r"
  shows "deserialize (serialize r @ rest) = Some r \<and> length (serialize r) = serialized_size r"
  using deserialize_serialize [OF assms] by simp

theorem wal_record_roundtrip_witness: "deserialize (serialize demo_record @ [9]) = Some demo_record"
  using wal_record_roundtrip [OF demo_record_wf] by simp

text \<open>C8. Without I/O failures \<open>append\<close> implements the abstract log: it returns the next log sequence number, the
  record with this number is added at the end of the current segment, or of a new segment exactly when the current
  one would exceed the segment size, and both size counters equal the bytes in the directory.\<close>

theorem wal_append_refines:
  assumes "wal_rel segs w" and "wf_record r" and "fst (last segs) + 1 < 2 ^ 64 - 2"
    and "wal_append r w m = (l, w', m')"
  shows "l = next_lsn w \<and> next_lsn w' = next_lsn w + 1 \<and>
    wal_rel (log_append (unat (segment_size w)) (r\<lparr>lr_lsn := l\<rparr>) segs) w' \<and>
    wal_content w' = wal_content w @ [r\<lparr>lr_lsn := l\<rparr>] \<and>
    wal_current_size w' = total_size (wal_dir w') \<and> current_wal_size m' = wal_current_size w'"
proof -
  note ref = append_refines [OF assms]
  note ne = wal_relD(1) [OF assms(1)]
  show ?thesis
    using ref wal_rel_content [OF ref(3)] wal_rel_content [OF assms(1)] log_records_append [OF ne]
      wal_relD(11) [OF ref(3)] by simp
qed

theorem wal_append_refines_witness:
  "fst (wal_append demo_record demo_wal (initial_metrics 0)) = 1 \<and>
   wal_content (fst (snd (wal_append demo_record demo_wal (initial_metrics 0)))) =
     wal_content demo_wal @ [demo_record\<lparr>lr_lsn := 1\<rparr>]"
proof -
  obtain l w' m' where a: "wal_append demo_record demo_wal (initial_metrics 0) = (l, w', m')"
    using prod_cases3 by blast
  show ?thesis using wal_append_refines [OF demo_wal_rel demo_record_wf _ a] by (simp add: a demo_wal_lsn)
qed

text \<open>C21. A session of appends leaves in the segment files exactly the records appended, in order, numbered
  consecutively, whatever rotations happened on the way.\<close>

theorem wal_session:
  assumes "wal_rel segs w" and "fst (last segs) + length rs < 2 ^ 64 - 2" and "\<forall>r \<in> set rs. wf_record r"
  shows "wal_content (fst (fold wal_put rs (w, m))) =
    wal_content w @ map (\<lambda>i. (rs ! i)\<lparr>lr_lsn := next_lsn w + of_nat i\<rparr>) [0..<length rs]"
proof -
  have "wal_room (length rs + 0) (w, m)" using assms(1,2) by (auto simp: wal_room_def)
  from walog.puts(3) [OF this assms(3)] show ?thesis by simp
qed

theorem wal_session_witness:
  "wal_content (fst (fold wal_put [demo_record, demo_record, demo_record] (demo_wal, initial_metrics 0))) =
    wal_content demo_wal @ [demo_record\<lparr>lr_lsn := 1\<rparr>, demo_record\<lparr>lr_lsn := 2\<rparr>, demo_record\<lparr>lr_lsn := 3\<rparr>]"
  using wal_session [OF demo_wal_rel, of "[demo_record, demo_record, demo_record]" "initial_metrics 0"]
    demo_record_wf by (simp add: demo_wal_lsn upt_rec)

text \<open>Without I/O failures \<open>force\<close> makes every byte of the log durable.\<close>

lemma wal_force_durable:
  assumes "wal_rel segs w"
  shows "map_of (wal_durable (force l w)) = map_of (wal_dir w) \<and> wal_rel segs (force l w) \<and>
    flushed_lsn (force l w) = l"
  using force_refines [OF assms, of l] by simp


text \<open>C29. Truncation keeps the current and the previous segment, removes whole segments from the old end only, so
  that what remains is a suffix of the log, and corrects both size counters.\<close>

theorem wal_truncate_refines:
  assumes "wal_rel segs w" and "truncate_before l w m = (w', m')" and "current_wal_size m = wal_current_size w"
  shows "wal_rel (log_truncate segs) w' \<and> suffix (wal_content w') (wal_content w) \<and>
    last (log_truncate segs) = last segs \<and>
    (\<forall>k rs. (k, rs) \<in> set segs \<and> fst (last segs) \<le> k + 1 \<longrightarrow> (k, rs) \<in> set (log_truncate segs)) \<and>
    wal_current_size w' = total_size (wal_dir w') \<and> current_wal_size m' = wal_current_size w'"
proof -
  note ref = truncate_refines [OF assms(1,2)]
  show ?thesis
    using ref assms(3) wal_rel_content [OF ref(1)] wal_rel_content [OF assms(1)]
      log_records_truncate [OF wal_relD(2) [OF assms(1)]] wal_relD(11) [OF ref(1)]
      log_truncate_last(1) [OF wal_relD(1) [OF assms(1)]]
    by (auto simp: log_truncate_def)
qed

text \<open>Three segments, opened again: the first one is obsolete.\<close>

definition demo_segments :: segments where
  "demo_segments = [(0, [demo_record]), (1, [demo_record]), (2, [])]"

lemma demo_segments_wf: "wf_segments (unat (100 :: u64)) demo_segments"
  using demo_record_wf by (simp add: wf_segments_def demo_segments_def)

theorem wal_truncate_refines_witness:
  "\<exists>w w' m m'. wal_rel demo_segments w \<and> truncate_before 5 w m = (w', m') \<and>
     wal_rel [(1, [demo_record]), (2, [])] w' \<and> suffix (wal_content w') (wal_content w)"
proof -
  obtain ok w m where i: "wal_initialize (WriteAheadLog_new (map seg_file demo_segments) 100 (\<lambda>_. IoOk))
      (initial_metrics 0) = (ok, w, m)" using prod_cases3 by blast
  have rel: "wal_rel demo_segments w" and sz: "current_wal_size m = wal_current_size w"
    using wal_reopen(2,4) [OF demo_segments_wf _ _ i] by simp_all
  obtain w' m' where t: "truncate_before 5 w m = (w', m')" by fastforce
  have "log_truncate demo_segments = [(1, [demo_record]), (2, [])]" by (simp add: log_truncate_def demo_segments_def)
  moreover have "wal_rel (log_truncate demo_segments) w'" "suffix (wal_content w') (wal_content w)"
    using wal_truncate_refines [OF rel t sz] by blast+
  ultimately show ?thesis using rel t by metis
qed

text \<open>Opening the segment files of an earlier session gives the log that session left, whose last segment is
  continued, but the log sequence numbers start again at 1: the next record appended carries the number 1 whatever
  the log already contains.\<close>

lemma wal_reopen_restarts_lsn:
  assumes "wf_segments (unat cap) segs" and "unat cap < 2 ^ 63" and "\<forall>n. env n = IoOk"
    and "fst (last segs) + 1 < 2 ^ 64 - 2" and "wf_record r"
    and "wal_initialize (WriteAheadLog_new (map seg_file segs) cap env) m = (ok, w, m')"
    and "wal_append r w m' = (l, w', m'')"
  shows "ok \<and> wal_content w = log_records segs \<and> l = 1 \<and> wal_content w' = log_records segs @ [r\<lparr>lr_lsn := 1\<rparr>]"
proof -
  note o = wal_reopen [OF assms(1-3,6)]
  note ref = append_refines [OF o(2) assms(5,4,7)]
  show ?thesis
    using o ref wal_rel_content [OF o(2)] wal_rel_content [OF ref(3)] log_records_append [OF wal_relD(1) [OF o(2)]]
    by simp
qed

lemma wal_reopen_restarts_lsn_example:
  "\<exists>ok w m' l w' m''. wal_initialize (WriteAheadLog_new (map seg_file [(0, [demo_record\<lparr>lr_lsn := 1\<rparr>])]) 100 (\<lambda>_. IoOk))
       (initial_metrics 0) = (ok, w, m') \<and> wal_append demo_record w m' = (l, w', m'') \<and>
     wal_content w' = [demo_record\<lparr>lr_lsn := 1\<rparr>, demo_record\<lparr>lr_lsn := 1\<rparr>]"
proof -
  let ?segs = "[(0, [demo_record\<lparr>lr_lsn := 1\<rparr>])] :: segments"
  have wf: "wf_segments (unat (100 :: u64)) ?segs" using demo_record_wf by (simp add: wf_segments_def)
  obtain ok w m where i: "wal_initialize (WriteAheadLog_new (map seg_file ?segs) 100 (\<lambda>_. IoOk))
      (initial_metrics 0) = (ok, w, m)" using prod_cases3 by blast
  obtain l w' m' where a: "wal_append demo_record w m = (l, w', m')" using prod_cases3 by blast
  show ?thesis using wal_reopen_restarts_lsn [OF wf _ _ _ demo_record_wf i a] i a by (auto simp: log_records_def)
qed

text \<open>Under any pattern of I/O failures an append consumes exactly one log sequence number and returns it, or
  \<open>INVALID_LSN\<close> when no new segment could be opened. On a stream in error it returns the number as if the record had
  been logged, although no file changes and the size counters run ahead of the files.\<close>

lemma wal_append_failed_stream:
  assumes "wal_append r w m = (l, w', m')"
  shows "next_lsn w' = next_lsn w + 1 \<and> (l = next_lsn w \<or> l = INVALID_LSN) \<and>
    (seg_fail w \<and> \<not> segment_size w < current_segment_pos w + of_nat (serialized_size r) \<longrightarrow>
      l = next_lsn w \<and> wal_dir w' = wal_dir w \<and> seg_fail w' \<and>
      wal_current_size w' = wal_current_size w + of_nat (serialized_size r))"
proof -
  obtain ok w2 where rot: "rotate_segment (w\<lparr>next_lsn := next_lsn w + 1\<rparr>) = (ok, w2)" by fastforce
  have "next_lsn w2 = next_lsn w + 1" using rot by (auto simp: rotate_segment_def Let_def)
  then have "next_lsn w' = next_lsn w + 1" "l = next_lsn w \<or> l = INVALID_LSN"
    using assms rot by (auto simp: wal_append_def Let_def split: if_splits)
  moreover have "l = next_lsn w \<and> wal_dir w' = wal_dir w \<and> seg_fail w' \<and>
      wal_current_size w' = wal_current_size w + of_nat (serialized_size r)"
    if "seg_fail w \<and> \<not> segment_size w < current_segment_pos w + of_nat (serialized_size r)"
    using assms that by (auto simp: wal_append_def Let_def seg_write_def)
  ultimately show ?thesis by blast
qed

definition demo_wal_failed :: WriteAheadLog where
  "demo_wal_failed = demo_wal\<lparr>seg_fail := True\<rparr>"

lemma wal_append_failed_stream_example:
  "fst (wal_append demo_record demo_wal_failed (initial_metrics 0)) = 1 \<and>
   wal_dir (fst (snd (wal_append demo_record demo_wal_failed (initial_metrics 0)))) = wal_dir demo_wal"
proof -
  obtain l w' m' where a: "wal_append demo_record demo_wal_failed (initial_metrics 0) = (l, w', m')"
    using prod_cases3 by blast
  have "current_segment_pos demo_wal = 0" using wal_relD(10) [OF demo_wal_rel] by simp
  moreover have "serialized_size demo_record = 39"
    by (simp add: serialized_size_def demo_record_def)
  ultimately show ?thesis
    using wal_append_failed_stream [OF a] by (simp add: a) (simp add: demo_wal_failed_def demo_wal_lsn demo_wal_cap)
qed

end
