(* ===== verification/Checkpoint.thy ===== *)
theory Checkpoint
  imports Buffer_Pool_Props Wal_Props "HOL-Library.While_Combinator"
begin

text \<open>
  \<open>src/storage/checkpoint.hpp\<close> and \<open>checkpoint.cpp\<close>: the triggers, the checkpoint itself and the
  threads around it. The manager shares the pool, the log and the metrics with the engine; the metrics
  object is the one in the pool. Values that a call reads from outside are arguments: the times of the
  steady clock, and the values that \<open>running_.load()\<close> returns to the flush loop, batch by batch, since
  another thread may stop the manager meanwhile. The flush loop is \<open>while_option\<close>: \<open>None\<close> is a loop
  that does not end.
\<close>

section \<open>State and operations\<close>

record CheckpointManager =
  cm_config :: CheckpointConfig
  cm_pool :: BufferPool
  cm_wal :: WriteAheadLog
  running :: bool
  checkpoint_in_progress :: bool
  blocking_mode :: bool
  last_checkpoint_time :: int

definition CheckpointManager_new :: "CheckpointConfig \<Rightarrow> BufferPool \<Rightarrow> WriteAheadLog \<Rightarrow> int \<Rightarrow> CheckpointManager" where
  "CheckpointManager_new cfg bp w now =
     \<lparr>cm_config = cfg, cm_pool = bp, cm_wal = w, running = False, checkpoint_in_progress = False,
      blocking_mode = False, last_checkpoint_time = now\<rparr>"

definition dirty_ratio :: "CheckpointManager \<Rightarrow> f32" where
  "dirty_ratio cm = f32_div (f32_of_nat (unat (dirty_count (cm_pool cm)))) (f32_of_nat (pool_size (cm_pool cm)))"

definition should_checkpoint :: "int \<Rightarrow> CheckpointManager \<Rightarrow> CheckpointTrigger option" where
  "should_checkpoint now cm =
     (let since_last = to_seconds (now - last_checkpoint_time cm);
          ratio = dirty_ratio cm;
          cfg = cm_config cm
      in if f32_ge ratio (dirty_page_hard_limit_pct cfg) then Some DirtyHardLimit
         else if since_last < min_interval cfg then None
         else if max_wal_size cfg \<le> wal_current_size (cm_wal cm) then Some WalSize
         else if f32_ge ratio (dirty_page_soft_limit_pct cfg) then Some DirtySoftLimit
         else if max_interval cfg \<le> since_last then Some Timer
         else None)"

text \<open>The state of the flush loop: the index, the pages written, the pool, and whether it was left by \<open>break\<close>.\<close>

type_synonym flush_state = "nat \<times> nat \<times> BufferPool \<times> bool"

definition flush_batch :: "PageId list \<Rightarrow> nat \<Rightarrow> CheckpointTrigger \<Rightarrow> (nat \<Rightarrow> bool) \<Rightarrow> flush_state \<Rightarrow> flush_state" where
  "flush_batch dirty batch_size trigger run = (\<lambda>(i, written, bp, stop).
     if \<not> run i \<and> trigger \<noteq> Shutdown then (i, written, bp, True)
     else let batch = take (min (i + batch_size) (length dirty) - i) (drop i dirty);
              (ok, bp') = flush_pages batch bp
          in (i + batch_size, if ok then written + length batch else written, bp', False))"

definition flush_loop :: "PageId list \<Rightarrow> nat \<Rightarrow> CheckpointTrigger \<Rightarrow> (nat \<Rightarrow> bool) \<Rightarrow> BufferPool \<Rightarrow> flush_state option" where
  "flush_loop dirty batch_size trigger run bp =
     while_option (\<lambda>(i, written, bp, stop). \<not> stop \<and> i < length dirty)
       (flush_batch dirty batch_size trigger run) (0, 0, bp, False)"

definition set_metrics :: "CheckpointMetrics \<Rightarrow> BufferPool \<Rightarrow> BufferPool" where
  "set_metrics m bp = bp\<lparr>bp_metrics := m\<rparr>"

definition was_forced :: "CheckpointTrigger \<Rightarrow> bool" where
  "was_forced trigger \<longleftrightarrow> trigger \<noteq> Timer \<and> trigger \<noteq> Manual"

definition checkpoint_block :: "CheckpointTrigger \<Rightarrow> CheckpointManager \<Rightarrow> CheckpointManager" where
  "checkpoint_block trigger cm =
     (let m = bp_metrics (cm_pool cm)
      in if trigger = DirtyHardLimit
         then cm\<lparr>checkpoint_in_progress := True, blocking_mode := True,
                cm_pool := set_metrics (m\<lparr>blocking_checkpoint_count := blocking_checkpoint_count m + 1\<rparr>) (cm_pool cm)\<rparr>
         else cm\<lparr>checkpoint_in_progress := True\<rparr>)"

text \<open>
  \<open>do_checkpoint\<close>; \<open>t0\<close> and \<open>t1\<close> are its readings of the clock at the start and the end, \<open>t2\<close> is the one
  inside \<open>record_checkpoint\<close>.
\<close>

definition do_checkpoint ::
  "CheckpointTrigger \<Rightarrow> (nat \<Rightarrow> bool) \<Rightarrow> int \<Rightarrow> int \<Rightarrow> int \<Rightarrow> CheckpointManager \<Rightarrow> CheckpointManager option" where
  "do_checkpoint trigger run t0 t1 t2 cm =
     (let cm1 = checkpoint_block trigger cm;
          (begin_lsn, w1, m1) = write_checkpoint_begin (cm_wal cm1) (bp_metrics (cm_pool cm1));
          bp1 = set_metrics m1 (cm_pool cm1);
          dirty_pages = get_dirty_pages bp1
      in if dirty_pages = []
         then let (_, w2, m2) = write_checkpoint_end begin_lsn w1 m1
              in Some (cm1\<lparr>cm_wal := w2, cm_pool := set_metrics m2 bp1, checkpoint_in_progress := False,
                           blocking_mode := False, last_checkpoint_time := t1\<rparr>)
         else case flush_loop dirty_pages (checkpoint_batch_size (cm_config cm1)) trigger run bp1 of
           None \<Rightarrow> None
         | Some (_, pages_written, bp2, _) \<Rightarrow>
             (let bp3 = sync_all bp2;
                  (_, w2, m2) = write_checkpoint_end begin_lsn w1 (bp_metrics bp3);
                  (w3, m3) = truncate_before begin_lsn w2 m2;
                  m4 = record_checkpoint (to_milliseconds (t1 - t0)) pages_written (was_forced trigger) t2 m3
              in Some (cm1\<lparr>cm_wal := w3, cm_pool := set_metrics m4 bp3, checkpoint_in_progress := False,
                           blocking_mode := False, last_checkpoint_time := t1\<rparr>)))"

definition ckpt_start :: "CheckpointManager \<Rightarrow> CheckpointManager" where
  "ckpt_start cm = cm\<lparr>running := True\<rparr>"

text \<open>The background thread has been joined when the final checkpoint runs.\<close>

definition ckpt_shutdown :: "int \<Rightarrow> int \<Rightarrow> int \<Rightarrow> CheckpointManager \<Rightarrow> CheckpointManager option" where
  "ckpt_shutdown t0 t1 t2 cm =
     (if \<not> running cm then Some cm
      else do_checkpoint Shutdown (\<lambda>_. False) t0 t1 t2 (cm\<lparr>running := False\<rparr>))"

definition manual_checkpoint ::
  "(nat \<Rightarrow> bool) \<Rightarrow> int \<Rightarrow> int \<Rightarrow> int \<Rightarrow> CheckpointManager \<Rightarrow> CheckpointManager option" where
  "manual_checkpoint run t0 t1 t2 cm = do_checkpoint Manual run t0 t1 t2 cm"

text \<open>
  One round of the background thread after its sleep: it ends when the manager has been stopped, and
  otherwise performs the checkpoint that a trigger asks for.
\<close>

definition background_round ::
  "int \<Rightarrow> (nat \<Rightarrow> bool) \<Rightarrow> int \<Rightarrow> int \<Rightarrow> int \<Rightarrow> CheckpointManager \<Rightarrow> CheckpointManager option" where
  "background_round now run t0 t1 t2 cm =
     (if \<not> running cm then Some cm
      else case should_checkpoint now cm of
        None \<Rightarrow> Some cm
      | Some trigger \<Rightarrow> do_checkpoint trigger run t0 t1 t2 cm)"

text \<open>
  \<open>check_pressure\<close>: a transaction is let through at once unless the manager blocks; otherwise it waits
  for a state in which the manager no longer blocks or no longer runs. The list holds the states in
  which the condition variable evaluates its predicate; \<open>None\<close> means that the caller still waits. When it is
  evaluated, and that a notification may be missed, is in \<open>Pressure_Wait\<close>.
\<close>

definition pressure_over :: "CheckpointManager \<Rightarrow> bool" where
  "pressure_over cm \<longleftrightarrow> \<not> blocking_mode cm \<or> \<not> running cm"

fun check_pressure :: "CheckpointManager \<Rightarrow> CheckpointManager list \<Rightarrow> bool option" where
  "check_pressure cm later =
     (if \<not> blocking_mode cm then Some False
      else if \<exists>cm' \<in> set later. pressure_over cm' then Some True else None)"

section \<open>The flush loop\<close>

definition loop_guard :: "nat \<Rightarrow> flush_state \<Rightarrow> bool" where
  "loop_guard n = (\<lambda>(i, written, bp, stop). \<not> stop \<and> i < n)"

lemma flush_loop_guard:
  "flush_loop dirty b trigger run bp =
     while_option (loop_guard (length dirty)) (flush_batch dirty b trigger run) (0, 0, bp, False)"
  by (simp add: flush_loop_def loop_guard_def)

text \<open>With a positive batch size the loop ends; with batch size 0 it does not, unless it is left by \<open>break\<close>.\<close>

lemma flush_loop_terminates:
  assumes "0 < b"
  shows "\<exists>s. flush_loop dirty b trigger run bp = Some s"
  unfolding flush_loop_guard
proof (rule measure_while_option_Some [where P = "\<lambda>_. True" and
      f = "\<lambda>(i, written, bp, stop). if stop then 0 else Suc (length dirty - i)"])
  fix s :: flush_state
  assume "loop_guard (length dirty) s"
  then show "True \<and> (case flush_batch dirty b trigger run s of (i, written, bp, stop) \<Rightarrow> if stop then 0 else Suc (length dirty - i)) <
      (case s of (i, written, bp, stop) \<Rightarrow> if stop then 0 else Suc (length dirty - i))"
    using assms by (auto simp: loop_guard_def flush_batch_def Let_def split: prod.splits)
qed simp

lemma flush_loop_batch_zero:
  assumes "dirty \<noteq> []" and "run 0 \<or> trigger = Shutdown"
  shows "flush_loop dirty 0 trigger run bp = None"
proof -
  let ?P = "\<lambda>s :: flush_state. fst s = 0 \<and> \<not> snd (snd (snd s))"
  have "\<nexists>s. flush_loop dirty 0 trigger run bp = Some s"
  proof
    assume "\<exists>s. flush_loop dirty 0 trigger run bp = Some s"
    then obtain s where s: "while_option (loop_guard (length dirty)) (flush_batch dirty 0 trigger run) (0, 0, bp, False) = Some s"
      by (auto simp: flush_loop_guard)
    have "?P s"
      by (rule while_option_rule [where P = ?P, OF _ s])
         (use assms in \<open>auto simp: flush_batch_def Let_def split: prod.splits if_splits\<close>)
    moreover have "\<not> loop_guard (length dirty) s" using while_option_stop [OF s] .
    ultimately show False using assms(1) by (auto simp: loop_guard_def split: prod.splits)
  qed
  then show ?thesis by (cases "flush_loop dirty 0 trigger run bp") blast+
qed

text \<open>What holds of the pool along the loop: flushing keeps every page and the invariant.\<close>

lemma flush_pages_result:
  assumes "flush_pages pids bp = (ok, bp')" and "bp_inv bp"
  shows "bp_inv bp'" and "keeps q bp bp'"
  using flush_pages_keeps [OF assms(2), where pids = pids] assms(1) by simp_all

lemma flush_loop_keeps:
  assumes inv: "bp_inv bp" and l: "flush_loop dirty b trigger run bp = Some (i, n, bp', stop)"
  shows "bp_inv bp'" and "keeps q bp bp'"
proof -
  have "(\<lambda>(i, n, bp', stop). bp_inv bp' \<and> keeps q bp bp') (i, n, bp', stop)"
  proof (rule while_option_rule [OF _ l [unfolded flush_loop_guard]])
    fix s :: flush_state
    assume "case s of (i, n, bp', stop) \<Rightarrow> bp_inv bp' \<and> keeps q bp bp'"
    then show "case flush_batch dirty b trigger run s of (i, n, bp', stop) \<Rightarrow> bp_inv bp' \<and> keeps q bp bp'"
      by (auto simp: flush_batch_def Let_def split: prod.splits if_splits
          intro: flush_pages_result(1) keeps_trans [OF _ flush_pages_result(2)])
  qed (use inv in simp)
  then show "bp_inv bp'" and "keeps q bp bp'" by simp_all
qed


section \<open>A complete flush\<close>

lemma filter_not_take: "distinct xs \<Longrightarrow> filter (\<lambda>q. q \<notin> set (take b xs)) xs = drop b xs"
proof -
  assume d: "distinct xs"
  have "filter (\<lambda>q. q \<notin> set (take b xs)) (drop b xs) = drop b xs"
    using set_take_disj_set_drop_if_distinct [OF d, of b b] by (auto simp: filter_id_conv)
  moreover have "filter (\<lambda>q. q \<notin> set (take b xs)) (take b xs) = []" by (simp add: filter_empty_conv)
  ultimately show ?thesis by (metis append_Nil append_take_drop_id filter_append)
qed

definition flush_progress :: "BufferPool \<Rightarrow> flush_state \<Rightarrow> bool" where
  "flush_progress bp = (\<lambda>(i, n, bp', stop).
     \<not> stop \<and> n = min i (length (get_dirty_pages bp)) \<and> bp_inv bp' \<and> disk_reliable (disk_manager bp') \<and>
     get_dirty_pages bp' = drop i (get_dirty_pages bp) \<and> (\<forall>q. bp_view bp' q = bp_view bp q) \<and>
     page_table bp' = page_table bp \<and>
     (\<forall>q \<in> set (take i (get_dirty_pages bp)). stored_page (disk_manager bp') q = bp_view bp q))"

lemma flush_batch_progress:
  assumes inv: "bp_inv bp" and run: "(\<forall>i. run i) \<or> trigger = Shutdown" and p: "flush_progress bp s"
  shows "flush_progress bp (flush_batch (get_dirty_pages bp) b trigger run s)"
proof -
  let ?d = "get_dirty_pages bp"
  obtain i n bp1 stop where s: "s = (i, n, bp1, stop)" using prod_cases4 by blast
  define batch where "batch = take (min (i + b) (length ?d) - i) (drop i ?d)"
  have batch: "batch = take b (drop i ?d)" by (simp add: batch_def min_def)
  obtain ok bp2 where f: "flush_pages batch bp1 = (ok, bp2)" by fastforce
  have st: "\<not> stop" "n = min i (length ?d)" "bp_inv bp1" "disk_reliable (disk_manager bp1)"
    "get_dirty_pages bp1 = drop i ?d" "\<And>q. bp_view bp1 q = bp_view bp q" "page_table bp1 = page_table bp"
    "\<And>q. q \<in> set (take i ?d) \<Longrightarrow> stored_page (disk_manager bp1) q = bp_view bp q"
    using p by (auto simp: flush_progress_def s)
  note r = flush_pages_reliable [OF st(3,4) f]
  have inv2: "bp_inv bp2" using flush_pages_result(1) [OF f st(3)] .
  have dist: "distinct ?d" using get_dirty_pages_count(2) [OF inv] .
  have dirty2: "get_dirty_pages bp2 = drop (i + b) ?d"
    using r filter_not_take [of "drop i ?d" b] dist st(5) by (simp add: batch add.commute)
  have "stored_page (disk_manager bp2) q = bp_view bp q" if "q \<in> set (take (i + b) ?d)" for q
  proof (cases "q \<in> set batch")
    case True
    then have "q \<in> set (get_dirty_pages bp1)" using set_take_subset [of b "drop i ?d"] by (auto simp: batch st(5))
    with True r st(6) show ?thesis by simp
  next
    case False
    then have "q \<in> set (take i ?d)" using that by (simp add: take_add batch)
    with False r st(8) show ?thesis by simp
  qed
  moreover have "n + length batch = min (i + b) (length ?d)" by (simp add: st(2) batch)
  moreover have "flush_batch ?d b trigger run s = (i + b, n + length batch, bp2, False)"
    using run r f by (auto simp: flush_batch_def s Let_def batch_def [symmetric])
  ultimately show ?thesis
    using r inv2 dirty2 st(6,7) by (simp add: flush_progress_def)
qed

lemma flush_loop_complete:
  assumes inv: "bp_inv bp" and rel: "disk_reliable (disk_manager bp)"
    and run: "(\<forall>i. run i) \<or> trigger = Shutdown"
    and l: "flush_loop (get_dirty_pages bp) b trigger run bp = Some (i, n, bp', stop)"
  shows "\<not> stop" and "n = length (get_dirty_pages bp)" and "disk_reliable (disk_manager bp')"
    and "get_dirty_pages bp' = []" and "bp_view bp' q = bp_view bp q" and "page_table bp' = page_table bp"
    and "q \<in> set (get_dirty_pages bp) \<Longrightarrow> stored_page (disk_manager bp') q = bp_view bp q"
proof -
  note w = l [unfolded flush_loop_guard]
  have p: "flush_progress bp (i, n, bp', stop)"
    by (rule while_option_rule [OF _ w])
       (use flush_batch_progress [OF inv run] inv rel in \<open>auto simp: flush_progress_def\<close>)
  moreover have "stop \<or> length (get_dirty_pages bp) \<le> i"
    using while_option_stop [OF w] by (auto simp: loop_guard_def)
  ultimately show "\<not> stop" "n = length (get_dirty_pages bp)" "disk_reliable (disk_manager bp')"
    "get_dirty_pages bp' = []" "bp_view bp' q = bp_view bp q" "page_table bp' = page_table bp"
    "q \<in> set (get_dirty_pages bp) \<Longrightarrow> stored_page (disk_manager bp') q = bp_view bp q"
    by (auto simp: flush_progress_def)
qed

end
