(* ===== verification/Checkpoint_Props.thy ===== *)
theory Checkpoint_Props
  imports Checkpoint
begin

text \<open>
  What a checkpoint guarantees: under every pattern of I/O failures and interruptions it keeps the
  invariant and the content of the pool and lifts the blocking mode; without failures and
  interruptions it leaves no dirty page, every page it found dirty is in the flushed data file, and the
  log holds the two checkpoint records. The last sections are about the triggers and about runs of the
  manager together with its clients.
\<close>

section \<open>Metrics\<close>

lemma set_metrics_simps [simp]:
  "pool_size (set_metrics m bp) = pool_size bp" "disk_manager (set_metrics m bp) = disk_manager bp"
  "frames (set_metrics m bp) = frames bp" "page_table (set_metrics m bp) = page_table bp"
  "free_list (set_metrics m bp) = free_list bp" "dirty_count (set_metrics m bp) = dirty_count bp"
  "bp_metrics (set_metrics m bp) = m" "page_at (set_metrics m bp) = page_at bp"
  "get_dirty_pages (set_metrics m bp) = get_dirty_pages bp" "bp_view (set_metrics m bp) = bp_view bp"
  "keeps q bp0 (set_metrics m bp) = keeps q bp0 bp"
  by (simp_all add: set_metrics_def page_at_def get_dirty_pages_def bp_view_def keeps_def backed_def
      fun_eq_iff cong: option.case_cong del: page_at_frame)

lemma bp_inv_metrics:
  assumes "bp_inv bp" and "dirty_page_count_m m = dirty_page_count_m (bp_metrics bp)"
  shows "bp_inv (set_metrics m bp)"
proof -
  have "dirty_frames (set_metrics m bp) = dirty_frames bp" by (simp add: dirty_frames_def)
  then show ?thesis
    using assms by (simp add: bp_inv_def frames_inv_def table_inv_def counters_inv_def frame_holds_def)
qed

lemma wal_append_metrics:
  "dirty_page_count_m (snd (snd (wal_append r w m))) = dirty_page_count_m m"
  "checkpoint_count (snd (snd (wal_append r w m))) = checkpoint_count m"
  by (simp_all add: wal_append_def Let_def split: prod.split)

lemma checkpoint_record_metrics [simp]:
  "write_checkpoint_begin w m = (l, w', m') \<Longrightarrow> dirty_page_count_m m' = dirty_page_count_m m"
  "write_checkpoint_end b w m = (l, w', m') \<Longrightarrow> dirty_page_count_m m' = dirty_page_count_m m"
  "write_checkpoint_begin w m = (l, w', m') \<Longrightarrow> checkpoint_count m' = checkpoint_count m"
  "write_checkpoint_end b w m = (l, w', m') \<Longrightarrow> checkpoint_count m' = checkpoint_count m"
  "truncate_before l w m = (w', m') \<Longrightarrow> dirty_page_count_m m' = dirty_page_count_m m"
  "truncate_before l w m = (w', m') \<Longrightarrow> checkpoint_count m' = checkpoint_count m"
  using wal_append_metrics
  by (auto simp: write_checkpoint_begin_def write_checkpoint_end_def truncate_before_def Let_def
      split: prod.splits if_splits) (metis snd_conv)+

section \<open>The two paths of a checkpoint\<close>

lemma checkpoint_block_simps [simp]:
  "cm_wal (checkpoint_block t cm) = cm_wal cm" "cm_config (checkpoint_block t cm) = cm_config cm"
  "running (checkpoint_block t cm) = running cm"
  "disk_manager (cm_pool (checkpoint_block t cm)) = disk_manager (cm_pool cm)"
  "get_dirty_pages (cm_pool (checkpoint_block t cm)) = get_dirty_pages (cm_pool cm)"
  "bp_view (cm_pool (checkpoint_block t cm)) = bp_view (cm_pool cm)"
  "page_table (cm_pool (checkpoint_block t cm)) = page_table (cm_pool cm)"
  "keeps q bp (cm_pool (checkpoint_block t cm)) = keeps q bp (cm_pool cm)"
  "dirty_page_count_m (bp_metrics (cm_pool (checkpoint_block t cm))) = dirty_page_count_m (bp_metrics (cm_pool cm))"
  "checkpoint_count (bp_metrics (cm_pool (checkpoint_block t cm))) = checkpoint_count (bp_metrics (cm_pool cm))"
  by (simp_all add: checkpoint_block_def Let_def)

lemma checkpoint_block_inv: "bp_inv (cm_pool cm) \<Longrightarrow> bp_inv (cm_pool (checkpoint_block t cm))"
  using bp_inv_metrics by (auto simp: checkpoint_block_def Let_def)


lemma do_checkpoint_empty:
  assumes "get_dirty_pages (cm_pool cm) = []"
  obtains l1 w1 m1 l2 w2 m2 where
    "write_checkpoint_begin (cm_wal cm) (bp_metrics (cm_pool (checkpoint_block t cm))) = (l1, w1, m1)"
    "write_checkpoint_end l1 w1 m1 = (l2, w2, m2)"
    "do_checkpoint t run t0 t1 t2 cm = Some ((checkpoint_block t cm)\<lparr>cm_wal := w2,
       cm_pool := set_metrics m2 (set_metrics m1 (cm_pool (checkpoint_block t cm))),
       checkpoint_in_progress := False, blocking_mode := False, last_checkpoint_time := t1\<rparr>)"
proof -
  obtain l1 w1 m1 where b: "write_checkpoint_begin (cm_wal cm) (bp_metrics (cm_pool (checkpoint_block t cm))) = (l1, w1, m1)"
    using prod_cases3 by blast
  obtain l2 w2 m2 where e: "write_checkpoint_end l1 w1 m1 = (l2, w2, m2)" using prod_cases3 by blast
  show thesis by (rule that [OF b e]) (simp add: do_checkpoint_def b e assms Let_def)
qed

lemma do_checkpoint_flush:
  assumes d: "get_dirty_pages (cm_pool cm) \<noteq> []" and c: "do_checkpoint t run t0 t1 t2 cm = Some cm'"
  obtains l1 w1 m1 i n bp2 stop l2 w2 m2 w3 m3 where
    "write_checkpoint_begin (cm_wal cm) (bp_metrics (cm_pool (checkpoint_block t cm))) = (l1, w1, m1)"
    "flush_loop (get_dirty_pages (cm_pool cm)) (checkpoint_batch_size (cm_config cm)) t run
       (set_metrics m1 (cm_pool (checkpoint_block t cm))) = Some (i, n, bp2, stop)"
    "write_checkpoint_end l1 w1 (bp_metrics (sync_all bp2)) = (l2, w2, m2)"
    "truncate_before l1 w2 m2 = (w3, m3)"
    "cm' = (checkpoint_block t cm)\<lparr>cm_wal := w3,
       cm_pool := set_metrics (record_checkpoint (to_milliseconds (t1 - t0)) n (was_forced t) t2 m3) (sync_all bp2),
       checkpoint_in_progress := False, blocking_mode := False, last_checkpoint_time := t1\<rparr>"
proof -
  obtain l1 w1 m1 where b: "write_checkpoint_begin (cm_wal cm) (bp_metrics (cm_pool (checkpoint_block t cm))) = (l1, w1, m1)"
    using prod_cases3 by blast
  from c obtain i n bp2 stop where l: "flush_loop (get_dirty_pages (cm_pool cm)) (checkpoint_batch_size (cm_config cm)) t run
       (set_metrics m1 (cm_pool (checkpoint_block t cm))) = Some (i, n, bp2, stop)"
    by (auto simp: do_checkpoint_def b d Let_def split: option.splits)
  obtain l2 w2 m2 where e: "write_checkpoint_end l1 w1 (bp_metrics (sync_all bp2)) = (l2, w2, m2)"
    using prod_cases3 by blast
  obtain w3 m3 where tr: "truncate_before l1 w2 m2 = (w3, m3)" by fastforce
  show thesis by (rule that [OF b l e tr]) (use c in \<open>simp add: do_checkpoint_def b l e tr d Let_def\<close>)
qed

lemma sync_all_simps [simp]:
  "bp_metrics (sync_all bp) = bp_metrics bp" "dirty_count (sync_all bp) = dirty_count bp"
  "page_table (sync_all bp) = page_table bp" "page_at (sync_all bp) = page_at bp"
  "get_dirty_pages (sync_all bp) = get_dirty_pages bp" "disk_manager (sync_all bp) = disk_sync (disk_manager bp)"
  "bp_view (sync_all bp) = bp_view bp"
  by (simp_all add: sync_all_def get_dirty_pages_def bp_view_def fun_eq_iff cong: option.case_cong)

section \<open>Safety under every failure\<close>

lemma do_checkpoint_safe:
  assumes inv: "bp_inv (cm_pool cm)" and c: "do_checkpoint t run t0 t1 t2 cm = Some cm'"
  shows "bp_inv (cm_pool cm')" and "keeps q (cm_pool cm) (cm_pool cm')"
    and "\<not> blocking_mode cm'" and "\<not> checkpoint_in_progress cm'" and "running cm' = running cm"
    and "cm_config cm' = cm_config cm" and "last_checkpoint_time cm' = t1"
proof -
  let ?bp = "cm_pool (checkpoint_block t cm)"
  have inv0: "bp_inv ?bp" using checkpoint_block_inv [OF inv] .
  have "bp_inv (cm_pool cm') \<and> keeps q (cm_pool cm) (cm_pool cm') \<and> \<not> blocking_mode cm' \<and>
      \<not> checkpoint_in_progress cm' \<and> running cm' = running cm \<and> cm_config cm' = cm_config cm \<and>
      last_checkpoint_time cm' = t1"
  proof (cases "get_dirty_pages (cm_pool cm) = []")
    case True
    obtain l1 w1 m1 l2 w2 m2 where b: "write_checkpoint_begin (cm_wal cm) (bp_metrics ?bp) = (l1, w1, m1)"
      and e: "write_checkpoint_end l1 w1 m1 = (l2, w2, m2)"
      and cm': "do_checkpoint t run t0 t1 t2 cm = Some ((checkpoint_block t cm)\<lparr>cm_wal := w2,
       cm_pool := set_metrics m2 (set_metrics m1 ?bp), checkpoint_in_progress := False,
       blocking_mode := False, last_checkpoint_time := t1\<rparr>)"
      by (rule do_checkpoint_empty [OF True])
    have "bp_inv (set_metrics m1 ?bp)" by (rule bp_inv_metrics [OF inv0]) (simp add: checkpoint_record_metrics(1) [OF b])
    then have "bp_inv (set_metrics m2 (set_metrics m1 ?bp))"
      by (rule bp_inv_metrics) (simp add: checkpoint_record_metrics(2) [OF e])
    then show ?thesis using c cm' by auto
  next
    case False
    obtain l1 w1 m1 i n bp2 stop l2 w2 m2 w3 m3 where
      b: "write_checkpoint_begin (cm_wal cm) (bp_metrics ?bp) = (l1, w1, m1)"
      and l: "flush_loop (get_dirty_pages (cm_pool cm)) (checkpoint_batch_size (cm_config cm)) t run
         (set_metrics m1 ?bp) = Some (i, n, bp2, stop)"
      and e: "write_checkpoint_end l1 w1 (bp_metrics (sync_all bp2)) = (l2, w2, m2)"
      and tr: "truncate_before l1 w2 m2 = (w3, m3)"
      and cm': "cm' = (checkpoint_block t cm)\<lparr>cm_wal := w3,
        cm_pool := set_metrics (record_checkpoint (to_milliseconds (t1 - t0)) n (was_forced t) t2 m3) (sync_all bp2),
        checkpoint_in_progress := False, blocking_mode := False, last_checkpoint_time := t1\<rparr>"
      by (rule do_checkpoint_flush [OF False c])
    have inv1: "bp_inv (set_metrics m1 ?bp)"
      by (rule bp_inv_metrics [OF inv0]) (simp add: checkpoint_record_metrics(1) [OF b])
    note k = flush_loop_keeps [OF inv1 l]
    have "bp_inv (cm_pool cm')"
      using bp_inv_metrics [OF sync_all_keeps(1) [OF k(1)]]
        checkpoint_record_metrics(2) [OF e] checkpoint_record_metrics(5) [OF tr] by (simp add: cm')
    moreover have "keeps q (cm_pool cm) (set_metrics m1 ?bp)" by simp
    from keeps_trans [OF this keeps_trans [OF k(2) sync_all_keeps(2) [OF k(1)]]]
    have "keeps q (cm_pool cm) (cm_pool cm')" by (simp add: cm')
    ultimately show ?thesis using cm' by simp
  qed
  then show "bp_inv (cm_pool cm')" "keeps q (cm_pool cm) (cm_pool cm')" "\<not> blocking_mode cm'"
    "\<not> checkpoint_in_progress cm'" "running cm' = running cm" "cm_config cm' = cm_config cm"
    "last_checkpoint_time cm' = t1" by simp_all
qed

lemma do_checkpoint_returns:
  assumes "0 < checkpoint_batch_size (cm_config cm) \<or> get_dirty_pages (cm_pool cm) = []"
  shows "\<exists>cm'. do_checkpoint t run t0 t1 t2 cm = Some cm'"
proof (cases "get_dirty_pages (cm_pool cm) = []")
  case True
  then show ?thesis using do_checkpoint_empty by metis
next
  case False
  obtain l1 w1 m1 where b: "write_checkpoint_begin (cm_wal cm) (bp_metrics (cm_pool (checkpoint_block t cm))) = (l1, w1, m1)"
    using prod_cases3 by blast
  obtain s where "flush_loop (get_dirty_pages (cm_pool cm)) (checkpoint_batch_size (cm_config cm)) t run
      (set_metrics m1 (cm_pool (checkpoint_block t cm))) = Some s"
    using flush_loop_terminates assms False by blast
  then show ?thesis using False by (auto simp: do_checkpoint_def b Let_def split: prod.split)
qed


text \<open>Flushing touches no metric but the dirty count.\<close>

lemma flush_pages_checkpoint_count:
  "checkpoint_count (bp_metrics (snd (flush_pages pids bp))) = checkpoint_count (bp_metrics bp)"
proof (induction pids arbitrary: bp)
  case (Cons p pids)
  have "checkpoint_count (bp_metrics (snd (flush_page p bp))) = checkpoint_count (bp_metrics bp)"
    by (simp add: flush_page_def store_dirty_def Let_def split: option.split prod.split)
  then show ?case using Cons.IH [of "snd (flush_page p bp)"]
    by (cases "flush_page p bp") (auto simp: Let_def split: prod.splits)
qed simp

lemma flush_loop_checkpoint_count:
  assumes "flush_loop dirty b t run bp = Some (i, n, bp', stop)"
  shows "checkpoint_count (bp_metrics bp') = checkpoint_count (bp_metrics bp)"
proof -
  have "(\<lambda>(i, n, bp', stop). checkpoint_count (bp_metrics bp') = checkpoint_count (bp_metrics bp)) (i, n, bp', stop)"
  proof (rule while_option_rule [OF _ assms [unfolded flush_loop_guard]])
    fix s :: flush_state
    assume "case s of (i, n, bp', stop) \<Rightarrow> checkpoint_count (bp_metrics bp') = checkpoint_count (bp_metrics bp)"
    then show "case flush_batch dirty b t run s of (i, n, bp', stop) \<Rightarrow>
        checkpoint_count (bp_metrics bp') = checkpoint_count (bp_metrics bp)"
      using flush_pages_checkpoint_count by (auto simp: flush_batch_def Let_def split: prod.split) (metis snd_conv)+
  qed simp
  then show ?thesis by simp
qed

section \<open>A complete checkpoint\<close>

lemma checkpoint_flush_complete:
  assumes inv: "bp_inv (cm_pool cm)" and rel: "disk_reliable (disk_manager (cm_pool cm))"
    and run: "(\<forall>i. run i) \<or> t = Shutdown" and d: "get_dirty_pages (cm_pool cm) \<noteq> []"
    and c: "do_checkpoint t run t0 t1 t2 cm = Some cm'"
  shows "get_dirty_pages (cm_pool cm') = []" and "dirty_count (cm_pool cm') = 0"
    and "bp_view (cm_pool cm') q = bp_view (cm_pool cm) q"
    and "q \<in> set (get_dirty_pages (cm_pool cm)) \<Longrightarrow>
      stored_page (disk_manager (cm_pool cm')) q = bp_view (cm_pool cm) q"
    and "fs_flushed (data_file (disk_manager (cm_pool cm'))) = file_bytes (disk_manager (cm_pool cm'))"
    and "checkpoint_count (bp_metrics (cm_pool cm')) = checkpoint_count (bp_metrics (cm_pool cm)) + 1"
proof -
  let ?bp = "cm_pool (checkpoint_block t cm)"
  obtain l1 w1 m1 i n bp2 stop l2 w2 m2 w3 m3 where
    b: "write_checkpoint_begin (cm_wal cm) (bp_metrics ?bp) = (l1, w1, m1)"
    and l: "flush_loop (get_dirty_pages (cm_pool cm)) (checkpoint_batch_size (cm_config cm)) t run
       (set_metrics m1 ?bp) = Some (i, n, bp2, stop)"
    and e: "write_checkpoint_end l1 w1 (bp_metrics (sync_all bp2)) = (l2, w2, m2)"
    and tr: "truncate_before l1 w2 m2 = (w3, m3)"
    and cm': "cm' = (checkpoint_block t cm)\<lparr>cm_wal := w3,
      cm_pool := set_metrics (record_checkpoint (to_milliseconds (t1 - t0)) n (was_forced t) t2 m3) (sync_all bp2),
      checkpoint_in_progress := False, blocking_mode := False, last_checkpoint_time := t1\<rparr>"
    by (rule do_checkpoint_flush [OF d c])
  have inv1: "bp_inv (set_metrics m1 ?bp)"
    using bp_inv_metrics [OF checkpoint_block_inv [OF inv]] checkpoint_record_metrics(1) [OF b] by simp
  have l': "flush_loop (get_dirty_pages (set_metrics m1 ?bp)) (checkpoint_batch_size (cm_config cm)) t run
       (set_metrics m1 ?bp) = Some (i, n, bp2, stop)" using l by simp
  have rel1: "disk_reliable (disk_manager (set_metrics m1 ?bp))" using rel by simp
  note fin = flush_loop_complete [OF inv1 rel1 run l']
  have inv2: "bp_inv bp2" using flush_loop_keeps(1) [OF inv1 l] .
  show "get_dirty_pages (cm_pool cm') = []" using fin(4) by (simp add: cm')
  have "unat (dirty_count bp2) = 0" using get_dirty_pages_count(1) [OF inv2] fin(4) by simp
  then show "dirty_count (cm_pool cm') = 0" by (simp add: cm' unat_eq_0)
  show "bp_view (cm_pool cm') q = bp_view (cm_pool cm) q" using fin(5) by (simp add: cm')
  show "stored_page (disk_manager (cm_pool cm')) q = bp_view (cm_pool cm) q"
    if "q \<in> set (get_dirty_pages (cm_pool cm))" using fin(7) that by (simp add: cm')
  show "fs_flushed (data_file (disk_manager (cm_pool cm'))) = file_bytes (disk_manager (cm_pool cm'))"
    using disk_sync_reliable(2) [OF bp_invD(2) [OF inv2] fin(3)] by (simp add: cm')
  have "checkpoint_count (bp_metrics bp2) = checkpoint_count m1"
    using flush_loop_checkpoint_count [OF l] by simp
  then show "checkpoint_count (bp_metrics (cm_pool cm')) = checkpoint_count (bp_metrics (cm_pool cm)) + 1"
    using checkpoint_record_metrics(3) [OF b] checkpoint_record_metrics(4) [OF e]
      checkpoint_record_metrics(6) [OF tr] by (simp add: cm')
qed


lemma flush_loop_interrupted:
  assumes "dirty \<noteq> []" and "\<not> run 0" and "t \<noteq> Shutdown"
  shows "flush_loop dirty b t run bp = Some (0, 0, bp, True)"
proof -
  have "flush_batch dirty b t run (0, 0, bp, False) = (0, 0, bp, True)"
    using assms(2,3) by (simp add: flush_batch_def)
  then have "flush_loop dirty b t run bp =
      while_option (loop_guard (length dirty)) (flush_batch dirty b t run) (0, 0, bp, True)"
    using assms(1) unfolding flush_loop_guard by (subst while_option_unfold) (simp add: loop_guard_def)
  also have "\<dots> = Some (0, 0, bp, True)" by (subst while_option_unfold) (simp add: loop_guard_def)
  finally show ?thesis .
qed

section \<open>The example manager\<close>

definition demo_manager :: CheckpointManager where
  "demo_manager = ckpt_start (CheckpointManager_new default_checkpoint_config demo_dirty demo_wal 0)"

lemma demo_manager_state:
  "cm_pool demo_manager = demo_dirty" "cm_wal demo_manager = demo_wal" "running demo_manager"
  "checkpoint_batch_size (cm_config demo_manager) = 256" "\<not> blocking_mode demo_manager"
  "\<not> checkpoint_in_progress demo_manager"
  by (simp_all add: demo_manager_def ckpt_start_def CheckpointManager_new_def default_checkpoint_config_def)

lemma demo_manager_dirty: "get_dirty_pages (cm_pool demo_manager) = [0]"
  by (simp add: demo_manager_state get_dirty_pages_def demo_dirty_state)

lemma demo_manager_inv: "bp_inv (cm_pool demo_manager)"
  by (simp add: demo_manager_state demo_dirty_inv)

lemma demo_manager_reliable: "disk_reliable (disk_manager (cm_pool demo_manager))"
  using demo_created_reliable by (simp add: demo_manager_state demo_dirty_state)

section \<open>Properties\<close>

text \<open>C4. A checkpoint that runs to its end without I/O failures returns, leaves no dirty page and a zero dirty
  counter, changes no content, and every page that was dirty at its start is in the flushed data file; this holds for
  any positive batch size, on a running manager or at shutdown.\<close>

theorem checkpoint_durable:
  assumes "bp_inv (cm_pool cm)" and "disk_reliable (disk_manager (cm_pool cm))"
    and "(\<forall>i. run i) \<or> t = Shutdown" and "0 < checkpoint_batch_size (cm_config cm)"
    and "get_dirty_pages (cm_pool cm) \<noteq> []"
  shows "\<exists>cm'. do_checkpoint t run t0 t1 t2 cm = Some cm' \<and>
    get_dirty_pages (cm_pool cm') = [] \<and> dirty_count (cm_pool cm') = 0 \<and>
    (\<forall>q. bp_view (cm_pool cm') q = bp_view (cm_pool cm) q) \<and>
    (\<forall>q \<in> set (get_dirty_pages (cm_pool cm)).
      stored_page (disk_manager (cm_pool cm')) q = bp_view (cm_pool cm) q) \<and>
    fs_flushed (data_file (disk_manager (cm_pool cm'))) = file_bytes (disk_manager (cm_pool cm'))"
proof -
  obtain cm' where c: "do_checkpoint t run t0 t1 t2 cm = Some cm'" using do_checkpoint_returns assms(4) by blast
  show ?thesis using checkpoint_flush_complete [OF assms(1-3,5) c] c by blast
qed

theorem checkpoint_durable_witness:
  "\<exists>cm'. do_checkpoint Manual (\<lambda>_. True) 0 1 2 demo_manager = Some cm' \<and> get_dirty_pages (cm_pool cm') = [] \<and>
     stored_page (disk_manager (cm_pool cm')) 0 = bp_view demo_dirty 0"
  using checkpoint_durable [OF demo_manager_inv demo_manager_reliable, of "\<lambda>_. True" Manual 0 1 2]
  by (auto simp: demo_manager_dirty) (auto simp: demo_manager_state)

text \<open>C20. A checkpoint is safe under every pattern of I/O failures and every interruption: the pool keeps its
  invariant, no page that was backed is lost or changed, pinned pages stay, and the manager is neither left in
  progress nor blocking: a transaction that looks at the manager after the checkpoint goes on.\<close>

theorem checkpoint_safe:
  assumes "bp_inv (cm_pool cm)" and "do_checkpoint t run t0 t1 t2 cm = Some cm'"
  shows "bp_inv (cm_pool cm') \<and> (\<forall>q. keeps q (cm_pool cm) (cm_pool cm')) \<and>
    \<not> blocking_mode cm' \<and> \<not> checkpoint_in_progress cm' \<and>
    check_pressure (checkpoint_block t cm) [cm'] = Some (blocking_mode (checkpoint_block t cm))"
  using do_checkpoint_safe [OF assms] by (simp add: pressure_over_def)

theorem checkpoint_safe_witness:
  "\<exists>cm'. do_checkpoint DirtyHardLimit (\<lambda>_. False) 0 1 2 demo_manager = Some cm' \<and>
     bp_inv (cm_pool cm') \<and> \<not> blocking_mode cm'"
proof -
  obtain cm' where c: "do_checkpoint DirtyHardLimit (\<lambda>_. False) 0 1 2 demo_manager = Some cm'"
    using do_checkpoint_returns [of demo_manager DirtyHardLimit "\<lambda>_. False" 0 1 2] by (auto simp: demo_manager_state)
  show ?thesis using checkpoint_safe [OF demo_manager_inv c] c by blast
qed


text \<open>C37. A checkpoint that finds the manager stopped before its first batch, as \<open>manual_checkpoint\<close> does on a manager
  that was never started, writes no page: every page stays dirty, yet the END record is written, the log is truncated
  and the checkpoint is counted.\<close>

theorem checkpoint_interrupted:
  assumes "\<not> run 0" and "t \<noteq> Shutdown" and "get_dirty_pages (cm_pool cm) \<noteq> []"
    and "do_checkpoint t run t0 t1 t2 cm = Some cm'"
  shows "get_dirty_pages (cm_pool cm') = get_dirty_pages (cm_pool cm) \<and>
    frames (cm_pool cm') = frames (cm_pool cm) \<and>
    file_bytes (disk_manager (cm_pool cm')) = file_bytes (disk_manager (cm_pool cm)) \<and>
    checkpoint_count (bp_metrics (cm_pool cm')) = checkpoint_count (bp_metrics (cm_pool cm)) + 1 \<and>
    (\<exists>l1 w1 m1 l2 w2 m2 m3.
      write_checkpoint_begin (cm_wal cm) (bp_metrics (cm_pool (checkpoint_block t cm))) = (l1, w1, m1) \<and>
      write_checkpoint_end l1 w1 m1 = (l2, w2, m2) \<and> truncate_before l1 w2 m2 = (cm_wal cm', m3))"
proof -
  let ?bp = "cm_pool (checkpoint_block t cm)"
  obtain l1 w1 m1 i n bp2 stop l2 w2 m2 w3 m3 where
    b: "write_checkpoint_begin (cm_wal cm) (bp_metrics ?bp) = (l1, w1, m1)"
    and l: "flush_loop (get_dirty_pages (cm_pool cm)) (checkpoint_batch_size (cm_config cm)) t run
       (set_metrics m1 ?bp) = Some (i, n, bp2, stop)"
    and e: "write_checkpoint_end l1 w1 (bp_metrics (sync_all bp2)) = (l2, w2, m2)"
    and tr: "truncate_before l1 w2 m2 = (w3, m3)"
    and cm': "cm' = (checkpoint_block t cm)\<lparr>cm_wal := w3,
      cm_pool := set_metrics (record_checkpoint (to_milliseconds (t1 - t0)) n (was_forced t) t2 m3) (sync_all bp2),
      checkpoint_in_progress := False, blocking_mode := False, last_checkpoint_time := t1\<rparr>"
    by (rule do_checkpoint_flush [OF assms(3,4)])
  have bp2: "bp2 = set_metrics m1 ?bp"
    using l flush_loop_interrupted [of _ run t, OF assms(3,1,2)] by simp
  have fr: "frames (sync_all bp2) = frames (cm_pool cm)"
    by (simp add: bp2 sync_all_def checkpoint_block_def Let_def)
  have "checkpoint_count (bp_metrics (cm_pool cm')) = checkpoint_count (bp_metrics (cm_pool cm)) + 1"
    using checkpoint_record_metrics(3) [OF b] checkpoint_record_metrics(4) [OF e]
      checkpoint_record_metrics(6) [OF tr] by (simp add: cm' bp2)
  then show ?thesis using b e tr fr by (simp add: cm' bp2)
qed

theorem checkpoint_interrupted_witness:
  "\<exists>cm'. manual_checkpoint (\<lambda>_. False) 0 1 2 demo_manager = Some cm' \<and> get_dirty_pages (cm_pool cm') = [0] \<and>
     checkpoint_count (bp_metrics (cm_pool cm')) = checkpoint_count (bp_metrics demo_dirty) + 1"
proof -
  obtain cm' where c: "do_checkpoint Manual (\<lambda>_. False) 0 1 2 demo_manager = Some cm'"
    using do_checkpoint_returns [of demo_manager Manual "\<lambda>_. False" 0 1 2] by (auto simp: demo_manager_state)
  show ?thesis using checkpoint_interrupted [OF _ _ _ c] c
    by (simp add: manual_checkpoint_def demo_manager_dirty) (simp add: demo_manager_state)
qed

text \<open>A checkpoint that finds no dirty page writes its two log records and nothing else: the pool and the data
  file stay as they are, the log is not truncated, and the checkpoint is not counted.\<close>

lemma checkpoint_without_dirty_pages:
  assumes "get_dirty_pages (cm_pool cm) = []"
  shows "\<exists>cm' l1 w1 m1 l2 m2. do_checkpoint t run t0 t1 t2 cm = Some cm' \<and>
    frames (cm_pool cm') = frames (cm_pool cm) \<and> disk_manager (cm_pool cm') = disk_manager (cm_pool cm) \<and>
    checkpoint_count (bp_metrics (cm_pool cm')) = checkpoint_count (bp_metrics (cm_pool cm)) \<and>
    write_checkpoint_begin (cm_wal cm) (bp_metrics (cm_pool (checkpoint_block t cm))) = (l1, w1, m1) \<and>
    write_checkpoint_end l1 w1 m1 = (l2, cm_wal cm', m2)"
proof -
  let ?bp = "cm_pool (checkpoint_block t cm)"
  obtain l1 w1 m1 l2 w2 m2 where b: "write_checkpoint_begin (cm_wal cm) (bp_metrics ?bp) = (l1, w1, m1)"
    and e: "write_checkpoint_end l1 w1 m1 = (l2, w2, m2)"
    and cm': "do_checkpoint t run t0 t1 t2 cm = Some ((checkpoint_block t cm)\<lparr>cm_wal := w2,
     cm_pool := set_metrics m2 (set_metrics m1 ?bp), checkpoint_in_progress := False,
     blocking_mode := False, last_checkpoint_time := t1\<rparr>)"
    by (rule do_checkpoint_empty [OF assms])
  have "frames ?bp = frames (cm_pool cm)" by (simp add: checkpoint_block_def Let_def)
  then show ?thesis
    using b e cm' checkpoint_record_metrics(3) [OF b] checkpoint_record_metrics(4) [OF e] by simp
qed


text \<open>C30. A checkpoint writes its two records into the log: without I/O failures the log afterwards is a suffix of the
  log before, followed by a CHECKPOINT_BEGIN record with the next sequence number and a CHECKPOINT_END record that
  refers to it, and all of it is durable.\<close>

theorem checkpoint_log_records:
  assumes rel: "wal_rel segs (cm_wal cm)" and lim: "fst (last segs) + 2 < 2 ^ 64 - 2"
    and c: "do_checkpoint t run t0 t1 t2 cm = Some cm'"
  shows "\<exists>bg en. lr_type bg = LR_CHECKPOINT_BEGIN \<and> lr_lsn bg = next_lsn (cm_wal cm) \<and>
    lr_type en = LR_CHECKPOINT_END \<and> lr_prev_lsn en = lr_lsn bg \<and> lr_lsn en = next_lsn (cm_wal cm) + 1 \<and>
    suffix (wal_content (cm_wal cm')) (wal_content (cm_wal cm) @ [bg, en]) \<and>
    map_of (wal_durable (cm_wal cm')) = map_of (wal_dir (cm_wal cm')) \<and>
    flushed_lsn (cm_wal cm') = lr_lsn en"
proof -
  let ?w = "cm_wal cm" and ?m = "bp_metrics (cm_pool (checkpoint_block t cm))"
  define B where "B = LogRecord_default\<lparr>lr_type := LR_CHECKPOINT_BEGIN, lr_txn_id := 0, lr_page_id := INVALID_PAGE_ID\<rparr>"
  define E where "E l = LogRecord_default\<lparr>lr_type := LR_CHECKPOINT_END, lr_txn_id := 0,
      lr_page_id := INVALID_PAGE_ID, lr_prev_lsn := l\<rparr>" for l
  have wf: "wf_record B" "wf_record (E l)" for l
    by (simp_all add: wf_record_def B_def E_def LogRecord_default_def)
  obtain l1 w1 m1 where b: "wal_append B ?w ?m = (l1, w1, m1)" using prod_cases3 by blast
  have lim1: "fst (last segs) + 1 < 2 ^ 64 - 2" using lim by simp
  note r1 = append_refines [OF rel wf(1) lim1 b]
  let ?s1 = "log_append (unat (segment_size ?w)) (B\<lparr>lr_lsn := next_lsn ?w\<rparr>) segs"
  note ne = wal_relD(1) [OF rel] and ne1 = wal_relD(1) [OF r1(3)]
  have lim2: "fst (last ?s1) + 1 < 2 ^ 64 - 2"
    using log_append_last(1) [OF ne, of "unat (segment_size ?w)" "B\<lparr>lr_lsn := next_lsn ?w\<rparr>"] lim by linarith
  have final: ?thesis if e: "write_checkpoint_end l1 w1 m = (l2, w2, m2)"
    and tr: "cm_wal cm' = w2 \<or> (\<exists>m3. truncate_before l1 w2 m2 = (cm_wal cm', m3))" for m l2 w2 m2
  proof -
    obtain l w1' m' where a': "wal_append (E l1) w1 m = (l, w1', m')" using prod_cases3 by blast
    with e have "l = l2" "m' = m2" and w2: "w2 = force l2 w1'"
      by (auto simp: write_checkpoint_end_def E_def)
    with a' have a: "wal_append (E l1) w1 m = (l2, w1', m2)" by simp
    note r2 = append_refines [OF r1(3) wf(2) lim2 a]
    note f = force_refines [OF r2(3), of l2]
    have content: "wal_content w2 = wal_content ?w @ [B\<lparr>lr_lsn := next_lsn ?w\<rparr>, (E l1)\<lparr>lr_lsn := next_lsn w1\<rparr>]"
      using wal_rel_content [OF f(1)] wal_rel_content [OF rel] log_records_append [OF ne] log_records_append [OF ne1]
      by (simp add: w2)
    have "suffix (wal_content (cm_wal cm')) (wal_content w2) \<and>
        map_of (wal_durable (cm_wal cm')) = map_of (wal_dir (cm_wal cm')) \<and> flushed_lsn (cm_wal cm') = l2"
      using tr
    proof
      assume "cm_wal cm' = w2"
      then show ?thesis using f by (simp add: w2)
    next
      assume "\<exists>m3. truncate_before l1 w2 m2 = (cm_wal cm', m3)"
      then obtain m3 where t: "truncate_before l1 (force l2 w1') m2 = (cm_wal cm', m3)" by (auto simp: w2)
      note tt = truncate_refines [OF f(1) t]
      have "suffix (wal_content (cm_wal cm')) (wal_content w2)"
        using log_records_truncate [OF wal_relD(2) [OF f(1)]] wal_rel_content [OF tt(1)] wal_rel_content [OF f(1)]
        by (simp add: w2)
      then show ?thesis using tt(6,7) f(2,4) by simp
    qed
    then show ?thesis
      by (intro exI [of _ "B\<lparr>lr_lsn := next_lsn ?w\<rparr>"] exI [of _ "(E l1)\<lparr>lr_lsn := next_lsn w1\<rparr>"])
         (use content r1(1,2) r2(1) in \<open>simp add: B_def E_def\<close>)
  qed
  have b': "write_checkpoint_begin ?w ?m = (l1, w1, m1)" using b by (simp add: write_checkpoint_begin_def B_def)
  show ?thesis
  proof (cases "get_dirty_pages (cm_pool cm) = []")
    case True
    show ?thesis by (rule do_checkpoint_empty [OF True, of t run t0 t1 t2], rule final)
      (use b' c in \<open>auto simp: b'\<close>)
  next
    case False
    show ?thesis by (rule do_checkpoint_flush [OF False c], rule final) (auto simp: b')
  qed
qed


theorem checkpoint_log_records_witness:
  "\<exists>cm' bg en. do_checkpoint Manual (\<lambda>_. True) 0 1 2 demo_manager = Some cm' \<and>
     lr_type bg = LR_CHECKPOINT_BEGIN \<and> lr_lsn bg = 1 \<and> lr_type en = LR_CHECKPOINT_END \<and> lr_prev_lsn en = 1 \<and>
     suffix (wal_content (cm_wal cm')) (wal_content demo_wal @ [bg, en])"
proof -
  obtain cm' where c: "do_checkpoint Manual (\<lambda>_. True) 0 1 2 demo_manager = Some cm'"
    using do_checkpoint_returns [of demo_manager Manual "\<lambda>_. True" 0 1 2] by (auto simp: demo_manager_state)
  have "wal_rel [(0, [])] (cm_wal demo_manager)" by (simp add: demo_manager_state demo_wal_rel)
  from checkpoint_log_records [OF this _ c] c show ?thesis
    by (simp add: demo_manager_state demo_wal_lsn) metis
qed

section \<open>Triggers\<close>

text \<open>The hard limit cannot be missed: a pool whose pages are all dirty triggers a blocking checkpoint at once, for
  every hard limit up to 100 percent and whatever the time since the last checkpoint, in spite of the rounding of the
  single-precision ratio; and more dirty pages never take the trigger away.\<close>

lemma trigger_hard_limit:
  assumes "dirty_page_hard_limit_pct (cm_config cm) \<le> 1" and "0 < pool_size (cm_pool cm)"
  shows "(unat (dirty_count (cm_pool cm)) = pool_size (cm_pool cm) \<longrightarrow>
      should_checkpoint now cm = Some DirtyHardLimit) \<and>
    (should_checkpoint now cm = Some DirtyHardLimit \<and> cm_config cm' = cm_config cm \<and>
      pool_size (cm_pool cm') = pool_size (cm_pool cm) \<and> dirty_count (cm_pool cm) \<le> dirty_count (cm_pool cm') \<longrightarrow>
      should_checkpoint now' cm' = Some DirtyHardLimit)"
proof (rule conjI)
  have "f32_of_nat (pool_size (cm_pool cm)) \<noteq> 0" using f32_of_nat_pos [OF assms(2)] by simp
  then show "unat (dirty_count (cm_pool cm)) = pool_size (cm_pool cm) \<longrightarrow>
      should_checkpoint now cm = Some DirtyHardLimit"
    using assms(1) by (simp add: should_checkpoint_def dirty_ratio_def f32_div_self)
  have "f32_ge (dirty_ratio cm') l" if "f32_ge (dirty_ratio cm) l"
    "pool_size (cm_pool cm') = pool_size (cm_pool cm)" "dirty_count (cm_pool cm) \<le> dirty_count (cm_pool cm')" for l
    using that f32_ge_div_mono [OF f32_of_nat_mono f32_of_nat_nonneg f32_of_nat_nonneg]
    by (auto simp: dirty_ratio_def word_le_nat_alt)
  then show "should_checkpoint now cm = Some DirtyHardLimit \<and> cm_config cm' = cm_config cm \<and>
      pool_size (cm_pool cm') = pool_size (cm_pool cm) \<and> dirty_count (cm_pool cm) \<le> dirty_count (cm_pool cm') \<longrightarrow>
      should_checkpoint now' cm' = Some DirtyHardLimit"
    by (auto simp: should_checkpoint_def Let_def split: if_splits)
qed

text \<open>Below the hard limit checkpoints are rate limited and not starved: within the minimal interval nothing but the
  hard limit triggers, and once the maximal interval has passed some trigger always fires.\<close>

lemma trigger_intervals:
  "(to_seconds (now - last_checkpoint_time cm) < min_interval (cm_config cm) \<longrightarrow>
     should_checkpoint now cm \<in> {None, Some DirtyHardLimit}) \<and>
   (min_interval (cm_config cm) \<le> max_interval (cm_config cm) \<and>
    max_interval (cm_config cm) \<le> to_seconds (now - last_checkpoint_time cm) \<longrightarrow>
     should_checkpoint now cm \<noteq> None)"
  by (auto simp: should_checkpoint_def Let_def)


section \<open>Runs of the manager and its clients\<close>

inductive cm_step :: "CheckpointManager \<Rightarrow> CheckpointManager \<Rightarrow> bool" where
  cm_client: "bp_step op (cm_pool cm) bp' \<Longrightarrow> cm_step cm (cm\<lparr>cm_pool := bp'\<rparr>)"
| cm_log: "wal_append r (cm_wal cm) (bp_metrics (cm_pool cm)) = (l, w', m') \<Longrightarrow>
    cm_step cm (cm\<lparr>cm_wal := w', cm_pool := set_metrics m' (cm_pool cm)\<rparr>)"
| cm_background: "background_round now run t0 t1 t2 cm = Some cm' \<Longrightarrow> cm_step cm cm'"
| cm_manual: "manual_checkpoint run t0 t1 t2 cm = Some cm' \<Longrightarrow> cm_step cm cm'"
| cm_start: "cm_step cm (ckpt_start cm)"
| cm_shutdown: "ckpt_shutdown t0 t1 t2 cm = Some cm' \<Longrightarrow> cm_step cm cm'"

definition cm_inv :: "CheckpointManager \<Rightarrow> bool" where
  "cm_inv cm \<longleftrightarrow> bp_inv (cm_pool cm) \<and> \<not> blocking_mode cm \<and> \<not> checkpoint_in_progress cm"

lemma cm_step_inv:
  assumes "cm_step cm cm'" and "cm_inv cm"
  shows "cm_inv cm'"
  using assms
proof (cases rule: cm_step.cases)
  case (cm_client op bp')
  then show ?thesis using assms(2) bp_step_inv by (auto simp: cm_inv_def)
next
  case (cm_log r l w' m')
  have "dirty_page_count_m m' = dirty_page_count_m (bp_metrics (cm_pool cm))"
    using wal_append_metrics(1) [of r "cm_wal cm" "bp_metrics (cm_pool cm)"] cm_log(2) by simp
  then show ?thesis using assms(2) bp_inv_metrics cm_log(1) by (simp add: cm_inv_def)
next
  case (cm_background now run t0 t1 t2)
  then show ?thesis using assms(2) do_checkpoint_safe(1,3,4) [of cm]
    by (auto simp: cm_inv_def background_round_def split: if_splits option.splits)
next
  case (cm_manual run t0 t1 t2)
  then show ?thesis using assms(2) do_checkpoint_safe(1,3,4) [of cm] by (auto simp: cm_inv_def manual_checkpoint_def)
next
  case cm_start
  then show ?thesis using assms(2) by (simp add: cm_inv_def ckpt_start_def)
next
  case (cm_shutdown t0 t1 t2)
  then show ?thesis using assms(2) do_checkpoint_safe(1,3,4) [of "cm\<lparr>running := False\<rparr>"]
    by (auto simp: cm_inv_def ckpt_shutdown_def split: if_splits)
qed

interpretation manager: transition_invariant cm_step cm_inv
  by unfold_locales (rule cm_step_inv)

text \<open>In every run of the checkpoint manager together with its clients, with background, manual and shutdown
  checkpoints in any order and under any I/O failures, the pool keeps its invariant and the manager is never left
  blocking between checkpoints, so that \<open>check_pressure\<close> lets transactions through.\<close>

lemma manager_runs:
  assumes "bp_inv bp" and "reach cm_step (CheckpointManager_new cfg bp w now) cm"
  shows "cm_inv cm \<and> check_pressure cm later = Some False"
  using manager.reach_inv [OF assms(2)] assms(1) by (simp add: cm_inv_def CheckpointManager_new_def)

lemma manager_runs_example: "cm_inv demo_manager \<and> check_pressure demo_manager [] = Some False"
proof -
  have "reach cm_step (CheckpointManager_new default_checkpoint_config demo_dirty demo_wal 0) demo_manager"
    unfolding demo_manager_def by (blast intro: reach.intros cm_start)
  from manager_runs [OF demo_dirty_inv this] show ?thesis .
qed

end
