(* ===== verification/Crash_Recovery.thy ===== *)
theory Crash_Recovery
  imports Disk_Props Checkpoint_Props
begin

text \<open>
  A crash after a checkpoint: the data file holds what had been flushed. The lemmas lead from the pool at the time
  of the checkpoint to a pool on a disk manager that opens that file.
\<close>

lemma backed_stored:
  assumes "bp_inv bp" and "backed bp q" and "get_dirty_pages bp = []"
  shows "stored_page (disk_manager bp) q = bp_view bp q"
  using assms(2,3) get_dirty_pages_iff [OF assms(1), of q] by (auto simp: backed_def bp_view_def split: option.splits)

lemma fresh_pool_fetch:
  assumes "disk_inv dm" and "disk_reliable dm" and "stored_page dm q = Some d"
    and "0 < n" and "n < 2 ^ 64" and "dirty_page_count_m m = 0"
  obtains i bp where "fetch_page q (BufferPool_new n dm m) = (Some i, bp)" "page_body (page_data (page_at bp i)) = d"
proof -
  let ?b = "BufferPool_new n dm m"
  have inv: "bp_inv ?b" using assms(1,5,6) by (rule BufferPool_new_inv)
  have b: "page_table ?b = []" "disk_manager ?b = dm" "pool_size ?b = n" "\<not> is_pinned (page_at ?b 0)"
    using assms(4) by (simp_all add: BufferPool_new_def page_at_def is_pinned_def Page_default_def)
  have "fst (fetch_page q ?b) \<noteq> None"
    using fetch_page_outcome [OF inv, of q] assms(2,3,4) b by auto
  then obtain i bp where f: "fetch_page q ?b = (Some i, bp)" by (cases "fetch_page q ?b") auto
  have "backed ?b q" using assms(3) b by (simp add: backed_def)
  from fetch_view [OF inv this f] have "page_body (page_data (page_at bp i)) = d" using assms(3) b by (simp add: bp_view_def)
  with f show thesis by (rule that)
qed

text \<open>What a crash leaves of a page: the flushed part of the file holds a valid block with its content.\<close>

definition durable :: "DiskManager \<Rightarrow> PageId \<Rightarrow> bytes \<Rightarrow> bool" where
  "durable dm q v \<longleftrightarrow> block_valid (fs_flushed (data_file dm)) q \<and>
     page_body (block_image (fs_flushed (data_file dm)) q) = v"

lemma durable_synced:
  "stored_page dm q = Some v \<Longrightarrow> fs_flushed (data_file dm) = file_bytes dm \<Longrightarrow> durable dm q v"
  by (simp add: durable_def stored_page_def split: if_splits)

lemma block_valid_count:
  assumes "block_valid c q"
  shows "unat q < length c div PAGE_SIZE"
proof -
  have "(unat q + 1) * PAGE_SIZE \<le> length c"
    using assms by (auto simp: block_valid_def block_at_def min_def PAGE_SIZE_def split: if_splits)
  then have "unat q + 1 \<le> length c div PAGE_SIZE" by (simp add: less_eq_div_iff_mult_less_eq PAGE_SIZE_def)
  then show ?thesis by simp
qed

text \<open>What is durable is found by a disk manager and a pool that start on the flushed file.\<close>

lemma durable_reopen:
  assumes d: "durable dm q v" and "length (fs_flushed (data_file dm)) < 2 ^ 44"
  obtains dm' where "disk_initialize (DiskManager_new (Some (fs_flushed (data_file dm))) (\<lambda>_. IoOk)) = (True, dm')"
    "disk_inv dm'" "disk_reliable dm'" "stored_page dm' q = Some v"
proof -
  let ?c = "fs_flushed (data_file dm)"
  obtain dm' where r: "disk_initialize (DiskManager_new (Some ?c) (\<lambda>_. IoOk)) = (True, dm')"
    "file_bytes dm' = ?c" "disk_inv dm'" "disk_reliable dm'"
    "length ?c < 2 ^ 44 \<longrightarrow> unat (next_page_id dm') = length ?c div PAGE_SIZE"
    by (rule disk_reopen [of ?c])
  have "q < next_page_id dm'"
    using block_valid_count [of ?c q] d r(5) assms(2) by (simp add: durable_def word_less_nat_alt)
  then have "stored_page dm' q = Some v" using d r(2) by (simp add: durable_def stored_page_def)
  with r(1,3,4) show thesis by (rule that)
qed

lemma durable_restart:
  assumes "durable dm q v" and "length (fs_flushed (data_file dm)) < 2 ^ 44" and "0 < n" and "n < 2 ^ 64"
  obtains dm' i bp where "disk_initialize (DiskManager_new (Some (fs_flushed (data_file dm))) (\<lambda>_. IoOk)) = (True, dm')"
    "fetch_page q (BufferPool_new n dm' (initial_metrics now)) = (Some i, bp)" "page_body (page_data (page_at bp i)) = v"
proof -
  have m: "dirty_page_count_m (initial_metrics now) = 0" by (simp add: initial_metrics_def)
  show thesis
    by (rule durable_reopen [OF assms(1,2)], rule fresh_pool_fetch [OF _ _ _ assms(3,4) m]) (assumption+, rule that)
qed

text \<open>Flushing writes only over allocated blocks: the data file keeps its length, also when a write fails.\<close>

lemma write_page_length:
  assumes "write_page i p dm = (b, p', dm')" and "disk_inv dm" and "wf_page p" and "i < next_page_id dm"
  shows "length (file_bytes dm') = length (file_bytes dm)"
proof (cases "fs_fail (data_file dm)")
  case True
  then show ?thesis using write_page_unfold(4) [OF assms(1)] by simp
next
  case False
  with assms(2) have len: "unat (next_page_id dm) * PAGE_SIZE \<le> length (file_bytes dm)" by (simp add: disk_inv_def)
  obtain k where k: "file_bytes dm' = fs_put (unat i * PAGE_SIZE) (take k (page_data p')) (file_bytes dm)"
    using write_page_file(1) [OF assms(1)] by blast
  have "length (take k (page_data p')) \<le> PAGE_SIZE"
    using assms(3) write_page_unfold(1) [OF assms(1)] wf_page_ops(6) [of p] by (simp add: wf_page_def)
  then have "unat i * PAGE_SIZE + length (take k (page_data p')) \<le> length (file_bytes dm)"
    using block_bounds [OF assms(4)] len by linarith
  then show ?thesis by (simp add: k fs_put_def)
qed

lemma flush_page_length:
  assumes "bp_inv bp"
  shows "length (file_bytes (disk_manager (snd (flush_page pid bp)))) = length (file_bytes (disk_manager bp))"
proof (cases "map_of (page_table bp) pid")
  case (Some i)
  obtain b p' dm' where w: "write_page pid (page_at bp i) (disk_manager bp) = (b, p', dm')" using prod_cases3 by blast
  have "pid < next_page_id (disk_manager bp)" using bp_inv_table(2) [OF assms Some] by (simp add: frame_holds_def)
  from write_page_length [OF w bp_invD(2) [OF assms] bp_inv_table(4) [OF assms Some] this]
  show ?thesis by (simp add: flush_page_def Some w Let_def)
qed (simp add: flush_page_def)

lemma flush_pages_length:
  "bp_inv bp \<Longrightarrow> length (file_bytes (disk_manager (snd (flush_pages pids bp)))) = length (file_bytes (disk_manager bp))"
proof (induction pids arbitrary: bp)
  case (Cons p pids)
  have "bp_inv (snd (flush_page p bp))" using flush_page_keeps(1) [OF Cons.prems] .
  from Cons.IH [OF this] show ?case using flush_page_length [OF Cons.prems, of p]
    by (auto simp: Let_def split: prod.splits)
qed simp

lemma flush_loop_length:
  assumes inv: "bp_inv bp" and l: "flush_loop dirty b trigger run bp = Some (i, n, bp', stop)"
  shows "length (file_bytes (disk_manager bp')) = length (file_bytes (disk_manager bp))"
proof -
  let ?n = "\<lambda>bp. length (file_bytes (disk_manager bp))"
  have "(\<lambda>(i, n, bp', stop). bp_inv bp' \<and> ?n bp' = ?n bp) (i, n, bp', stop)"
  proof (rule while_option_rule [OF _ l [unfolded flush_loop_guard]])
    fix s :: flush_state
    assume s: "case s of (i, n, bp', stop) \<Rightarrow> bp_inv bp' \<and> ?n bp' = ?n bp"
    have "?n bp2 = ?n bp1" if "bp_inv bp1" "flush_pages ps bp1 = (ok, bp2)" for ps bp1 ok bp2
      using flush_pages_length [OF that(1), of ps] that(2) by simp
    then show "case flush_batch dirty b trigger run s of (i, n, bp', stop) \<Rightarrow> bp_inv bp' \<and> ?n bp' = ?n bp"
      using s flush_pages_result(1)
      by (auto simp: flush_batch_def Let_def split: prod.splits if_splits)
  qed (use inv in simp)
  then show ?thesis by simp
qed

lemma do_checkpoint_length:
  assumes inv: "bp_inv (cm_pool cm)" and d: "get_dirty_pages (cm_pool cm) \<noteq> []"
    and c: "do_checkpoint t run t0 t1 t2 cm = Some cm'"
  shows "length (file_bytes (disk_manager (cm_pool cm'))) = length (file_bytes (disk_manager (cm_pool cm)))"
proof -
  obtain l1 w1 m1 i n bp2 stop w3 m4 where
    b: "write_checkpoint_begin (cm_wal cm) (bp_metrics (cm_pool (checkpoint_block t cm))) = (l1, w1, m1)"
    and l: "flush_loop (get_dirty_pages (cm_pool cm)) (checkpoint_batch_size (cm_config cm)) t run
       (set_metrics m1 (cm_pool (checkpoint_block t cm))) = Some (i, n, bp2, stop)"
    and cm': "cm_pool cm' = set_metrics m4 (sync_all bp2)"
    by (rule do_checkpoint_flush [OF d c]) simp
  have "bp_inv (set_metrics m1 (cm_pool (checkpoint_block t cm)))"
    using bp_inv_metrics [OF checkpoint_block_inv [OF inv]] checkpoint_record_metrics(1) [OF b] by simp
  from flush_loop_length [OF this l] show ?thesis
    by (simp add: cm' disk_sync_def file_bytes_def)
qed

text \<open>The content of every backed page is in the flushed file after a complete checkpoint.\<close>

lemma checkpoint_flushed:
  assumes inv: "bp_inv (cm_pool cm)" and "disk_reliable (disk_manager (cm_pool cm))"
    and "(\<forall>i. run i) \<or> t = Shutdown" and "get_dirty_pages (cm_pool cm) \<noteq> []"
    and c: "do_checkpoint t run t0 t1 t2 cm = Some cm'" and "backed (cm_pool cm) q"
  shows "stored_page (disk_manager (cm_pool cm')) q = bp_view (cm_pool cm) q"
    and "fs_flushed (data_file (disk_manager (cm_pool cm'))) = file_bytes (disk_manager (cm_pool cm'))"
proof -
  note f = checkpoint_flush_complete [OF inv assms(2-4) c]
  have "backed (cm_pool cm') q" using do_checkpoint_safe(2) [OF inv c, of q] assms(6) by (simp add: keeps_def)
  then show "stored_page (disk_manager (cm_pool cm')) q = bp_view (cm_pool cm) q"
    using backed_stored [OF do_checkpoint_safe(1) [OF inv c] _ f(1)] f(3) by simp
  show "fs_flushed (data_file (disk_manager (cm_pool cm'))) = file_bytes (disk_manager (cm_pool cm'))" by (rule f(5))
qed

lemma crash_restart:
  assumes "stored_page dm q = Some d" and "fs_flushed (data_file dm) = file_bytes dm" and "length (file_bytes dm) < 2 ^ 44"
    and "0 < n" and "n < 2 ^ 64"
  obtains dm' i bp where "disk_initialize (DiskManager_new (Some (fs_flushed (data_file dm))) (\<lambda>_. IoOk)) = (True, dm')"
    "fetch_page q (BufferPool_new n dm' (initial_metrics now)) = (Some i, bp)" "page_body (page_data (page_at bp i)) = d"
proof -
  have "length (fs_flushed (data_file dm)) < 2 ^ 44" using assms(2,3) by simp
  from durable_restart [OF durable_synced [OF assms(1,2)] this assms(4,5), of now thesis] that show thesis by blast
qed

section \<open>The example\<close>

text \<open>The example pool after a store of the byte 7 into its page, under a manager that was started on it.\<close>

definition demo_durable :: CheckpointManager where
  "demo_durable = ckpt_start (CheckpointManager_new default_checkpoint_config demo_written demo_wal 0)"

lemma demo_written_disk: "disk_manager demo_written = disk_manager demo_created"
proof -
  have "disk_manager demo_fetched = disk_manager demo_dirty"
    by (simp add: demo_fetched_def fetch_page_def demo_dirty_state)
  moreover have "disk_manager demo_written = disk_manager demo_fetched"
    using demo_fetched_state by (simp add: demo_written_def unpin_page_def client_write_def Let_def set_page_set_frame)
  ultimately show ?thesis by (simp add: demo_dirty_state)
qed

lemma demo_durable_state:
  "cm_pool demo_durable = demo_written" "checkpoint_batch_size (cm_config demo_durable) = 256"
  "disk_reliable (disk_manager (cm_pool demo_durable))" "get_dirty_pages (cm_pool demo_durable) \<noteq> []"
  "length (file_bytes (disk_manager (cm_pool demo_durable))) < 2 ^ 44"
proof -
  show c: "cm_pool demo_durable = demo_written" and "checkpoint_batch_size (cm_config demo_durable) = 256"
    by (simp_all add: demo_durable_def ckpt_start_def CheckpointManager_new_def default_checkpoint_config_def)
  show "disk_reliable (disk_manager (cm_pool demo_durable))"
    using demo_created_reliable by (simp add: c demo_written_disk)
  have "is_dirty (page_at demo_written 0)"
    using demo_fetched_state
    by (simp add: demo_written_def unpin_page_def client_write_def Let_def set_page_set_frame page_at_set_frame)
  then show "get_dirty_pages (cm_pool demo_durable) \<noteq> []" by (simp add: c get_dirty_pages_def demo_written_state)
  have "disk_manager demo_created = demo_disk1"
    by (simp add: demo_created_def demo_pool_def BufferPool_new_def new_page_def find_victim_frame_def Let_def demo_alloc)
  then show "length (file_bytes (disk_manager (cm_pool demo_durable))) < 2 ^ 44"
    using allocate_page_file(1) [OF demo_alloc] by (auto simp: c demo_written_disk demo_disk_file PAGE_SIZE_def)
qed

lemma demo_written_pool:
  "bp_inv demo_written" "disk_reliable (disk_manager demo_written)" "backed demo_written 0" "bp_view demo_written 0 \<noteq> None"
proof -
  have "PageHeader_SIZE + 0 + length [7 :: u8] \<le> PAGE_SIZE" by (simp add: layout_defs PAGE_SIZE_def)
  note w = client_write_view [OF demo_dirty_inv demo_fetched_state(1) this demo_written_state(1) reach_refl]
  show "bp_inv demo_written" "backed demo_written 0" "bp_view demo_written 0 \<noteq> None" using w by simp_all
  show "disk_reliable (disk_manager demo_written)" using demo_durable_state(1,3) by simp
qed

end
