(* ===== verification/Pool_Persistence.thy ===== *)
theory Pool_Persistence
  imports Crash_Recovery
begin

text \<open>
  How the content of a page reaches the data file and stays there while clients go on. A page is \<open>on_disk\<close> when the
  data file and the pool agree on its content, and \<open>durable\<close> when the flushed part of the file holds it. On a reliable
  disk neither is lost by an operation of the pool that leaves the content of the page alone; both facts are composed
  from the effect of each operation on the disk manager, \<open>saves\<close>.
\<close>

definition on_disk :: "BufferPool \<Rightarrow> PageId \<Rightarrow> bytes \<Rightarrow> bool" where
  "on_disk bp q v \<longleftrightarrow> stored_page (disk_manager bp) q = Some v \<and> bp_view bp q = Some v"

definition saves :: "PageId \<Rightarrow> bytes \<Rightarrow> DiskManager \<Rightarrow> DiskManager \<Rightarrow> bool" where
  "saves q v dm dm' \<longleftrightarrow>
     stored_page dm' q = Some v \<and> disk_reliable dm' \<and> (durable dm q v \<longrightarrow> durable dm' q v)"

lemma saves_refl: "stored_page dm q = Some v \<Longrightarrow> disk_reliable dm \<Longrightarrow> saves q v dm dm"
  by (simp add: saves_def)

lemma saves_trans: "saves q v dm dm' \<Longrightarrow> saves q v dm' dm'' \<Longrightarrow> saves q v dm dm''"
  by (simp add: saves_def)

lemma durable_flushed: "fs_flushed (data_file dm') = fs_flushed (data_file dm) \<Longrightarrow> durable dm' q v = durable dm q v"
  by (simp add: durable_def)

lemma on_disk_backed: "on_disk bp q v \<Longrightarrow> backed bp q"
  by (auto simp: on_disk_def backed_def bp_view_def split: option.splits)

text \<open>A backed page that is not among the dirty ones is on disk.\<close>

lemma clean_on_disk:
  assumes "bp_inv bp" and "backed bp q" and "bp_view bp q = Some v" and "q \<notin> set (get_dirty_pages bp)"
  shows "on_disk bp q v"
  using assms get_dirty_pages_iff [OF assms(1), of q]
  by (auto simp: on_disk_def backed_def bp_view_def split: option.splits)

section \<open>The disk manager\<close>

lemma read_page_keeps_reliable:
  assumes "read_page i p dm = (b, p', dm')" and "disk_inv dm" and "disk_reliable dm" and "wf_page p"
  shows "disk_reliable dm'"
proof (cases "i < next_page_id dm")
  case False
  then show ?thesis using assms(1,3) by (simp add: read_page_def not_less)
next
  case True
  let ?f = "fs_seek (page_offset i) (data_file dm)"
  have f: "fs_reliable (data_file dm)" "fs_is_open (data_file dm)" "\<not> fs_fail (data_file dm)"
    and len: "unat (next_page_id dm) * PAGE_SIZE \<le> length (file_bytes dm)"
    using assms(2,3) by (auto simp: disk_inv_def disk_reliable_def)
  have s: "\<not> fs_fail ?f" "fs_pos ?f = unat i * PAGE_SIZE"
    using fs_seek_reliable [OF f, of "page_offset i"] by simp_all
  have b: "unat i * PAGE_SIZE + PAGE_SIZE \<le> length (file_bytes dm)"
    using block_bounds [OF True] len by linarith
  have "\<not> fs_fail (snd (fs_read PAGE_SIZE (page_data p) ?f))"
    using fs_read_reliable(1) [of ?f PAGE_SIZE "page_data p"] f s b assms(4)
    by (simp add: file_bytes_def wf_page_def)
  moreover have "data_file dm' = snd (fs_read PAGE_SIZE (page_data p) ?f)"
    using assms(1) True s(1) by (auto simp: read_page_def Let_def fs_ok_def not_le split: prod.splits if_splits)
  ultimately show ?thesis using f by (simp add: disk_reliable_def)
qed

lemma read_page_saves:
  assumes "read_page i p dm = (b, p', dm')" and "disk_inv dm" and "disk_reliable dm" and "wf_page p"
    and "stored_page dm q = Some v"
  shows "saves q v dm dm'"
  using read_page_keeps_reliable [OF assms(1-4)] read_page_frame(4,6) [OF assms(1)] assms(5)
  by (simp add: saves_def durable_def)

lemma write_page_saves:
  assumes "write_page i p dm = (b, p', dm')" and "disk_inv dm" and "disk_reliable dm" and "stored_page dm' q = Some v"
  shows "saves q v dm dm'"
  using write_page_reliable(2) [OF assms(1-3)] write_page_unfold(6) [OF assms(1)] assms(4)
  by (simp add: saves_def durable_def)

lemma allocate_page_saves:
  assumes "allocate_page dm = (i, dm')" and "i \<noteq> - 1" and "disk_inv dm" and "disk_reliable dm"
    and "stored_page dm q = Some v"
  shows "saves q v dm dm'"
proof -
  let ?w = "fs_write [0] (fs_seek (ucast (i + 1) * of_nat PAGE_SIZE - 1) (data_file dm))"
  have st: "stored_page dm' q = Some v"
    using allocate_page_other [OF assms(1-3), of q] assms(5) by (cases "q < next_page_id dm") (simp_all add: stored_page_def [of dm])
  note rel = allocate_page_reliable [OF assms(1-4)]
  have df: "data_file dm' = fs_flush ?w" using assms(1) by (auto simp: allocate_page_def Let_def)
  then have "\<not> fs_fail ?w" using rel fs_fail_sticky(4) unfolding disk_reliable_def by metis
  then have "fs_flushed (data_file dm') = file_bytes dm'"
    using fs_flush_reliable(2) [of ?w] rel assms(3) df by (simp add: disk_reliable_def disk_inv_def file_bytes_def)
  with st rel show ?thesis by (simp add: saves_def durable_synced)
qed

lemma disk_sync_saves:
  assumes "disk_inv dm" and "disk_reliable dm" and "stored_page dm q = Some v"
  shows "saves q v dm (disk_sync dm)" and "durable (disk_sync dm) q v"
proof -
  note s = disk_sync_reliable [OF assms(1,2)]
  show "durable (disk_sync dm) q v" by (rule durable_synced) (use s(2) assms(3) in simp_all)
  with s(1) assms(3) show "saves q v dm (disk_sync dm)" by (simp add: saves_def)
qed

section \<open>A reliable disk stays reliable\<close>

lemma find_victim_reliable:
  assumes "find_victim_frame bp = (r, bp')" and "bp_inv bp" and "disk_reliable (disk_manager bp)"
  shows "disk_reliable (disk_manager bp')"
proof -
  have "\<not> - 1 < next_page_id (disk_manager bp)" by simp
  from find_victim_stored(2) [OF assms keeps_unknown(1) [OF assms(2) this]] show ?thesis .
qed

lemma fetch_page_reliable:
  assumes inv: "bp_inv bp" and rel: "disk_reliable (disk_manager bp)"
  shows "disk_reliable (disk_manager (snd (fetch_page p bp)))"
proof (cases "map_of (page_table bp) p")
  case None
  obtain r bp1 where f: "find_victim_frame bp = (r, bp1)" by fastforce
  note rel1 = find_victim_reliable [OF f inv rel] and vok = find_victim_ok [OF inv f]
  show ?thesis
  proof (cases r)
    case (Some i)
    have inv1: "bp_inv (bp1\<lparr>free_list := i # free_list bp1\<rparr>)" using vok Some by (simp add: victim_ok_def)
    have wf: "wf_page (page_at bp1 i)" using bp_inv_frame(1) [OF inv1, of i] bp_inv_free(1) [OF inv1, of i] by simp
    obtain ok pg dm' where rd: "read_page p (page_at bp1 i) (disk_manager bp1) = (ok, pg, dm')" using prod_cases3 by blast
    have "disk_inv (disk_manager bp1)" using bp_invD(2) [OF inv1] by simp
    from read_page_keeps_reliable [OF rd this rel1 wf] show ?thesis
      using f Some rd None by (simp add: fetch_page_def Let_def)
  qed (use f rel1 None in \<open>simp add: fetch_page_def\<close>)
qed (use rel in \<open>simp add: fetch_page_def\<close>)

lemma new_page_reliable:
  assumes inv: "bp_inv bp" and rel: "disk_reliable (disk_manager bp)" and lim: "next_page_id (disk_manager bp) \<noteq> - 1"
  shows "disk_reliable (disk_manager (snd (new_page bp)))"
proof -
  obtain r bp1 where f: "find_victim_frame bp = (r, bp1)" by fastforce
  note rel1 = find_victim_reliable [OF f inv rel] and vok = find_victim_ok [OF inv f]
  show ?thesis
  proof (cases r)
    case (Some i)
    obtain n dm' where a: "allocate_page (disk_manager bp1) = (n, dm')" by fastforce
    have "bp_inv (bp1\<lparr>free_list := i # free_list bp1\<rparr>)" using vok Some by (simp add: victim_ok_def)
    from bp_invD(2) [OF this] have d1: "disk_inv (disk_manager bp1)" by simp
    have "n \<noteq> - 1" using allocate_page_unfold(1) [OF a] vok lim by (simp add: victim_ok_def)
    from allocate_page_reliable [OF a this d1 rel1] show ?thesis using f Some a by (simp add: new_page_def Let_def)
  qed (use f rel1 in \<open>simp add: new_page_def\<close>)
qed

lemma bp_step_reliable:
  assumes s: "bp_step op bp bp'" and inv: "bp_inv bp" and rel: "disk_reliable (disk_manager bp)"
  shows "disk_reliable (disk_manager bp')"
  using s
proof (cases rule: bp_step.cases)
  case (step_flush p)
  obtain ok bp1 where f: "flush_page p bp = (ok, bp1)" by fastforce
  then show ?thesis using flush_page_reliable(2) [OF inv rel f] step_flush by simp
next
  case (step_flush_many ps)
  obtain ok bp1 where f: "flush_pages ps bp = (ok, bp1)" by fastforce
  then show ?thesis using flush_pages_reliable [OF inv rel f] step_flush_many by simp
next
  case (step_unpin p d)
  then show ?thesis using rel by (simp add: unpin_page_def Let_def split: option.split)
next
  case (step_delete p)
  then show ?thesis using rel by (simp add: delete_page_def deallocate_page_def Let_def split: option.split)
next
  case (step_store p i off bs)
  then show ?thesis using rel by (simp add: client_write_def)
qed (use fetch_page_reliable [OF inv rel] new_page_reliable [OF inv rel] disk_sync_reliable(1) [OF bp_invD(2) [OF inv] rel]
     in simp_all)

section \<open>The operations of the pool\<close>

lemma evict_frame_saves:
  assumes inv: "bp_inv bp" and rel: "disk_reliable (disk_manager bp)" and i: "i < pool_size bp" "i \<notin> set (free_list bp)"
    and o: "on_disk bp q v" and e: "evict_frame i bp = (ok, bp')"
  shows "saves q v (disk_manager bp) (disk_manager bp')"
proof (cases "is_dirty (page_at bp i)")
  case False
  then show ?thesis using e o rel by (auto simp: evict_frame_def Let_def on_disk_def intro: saves_refl)
next
  case True
  let ?pid = "page_id (page_at bp i)"
  obtain b p' dm' where w: "write_page ?pid (page_at bp i) (disk_manager bp) = (b, p', dm')"
    using prod_cases3 by blast
  have t: "map_of (page_table bp) ?pid = Some i" using bp_inv_not_free [OF inv i] .
  have b: b using write_page_reliable(1) [OF w bp_invD(2) [OF inv] rel] .
  have "stored_page dm' q = Some v"
  proof (cases "q = ?pid")
    case True
    then show ?thesis using stored_after_write [OF inv t] w b write_page_unfold(1) [OF w] o t
      by (simp add: on_disk_def bp_view_def)
  next
    case False
    from write_page_other [OF w bp_invD(2) [OF inv] bp_inv_frame(1) [OF inv i(1)] this] o
    show ?thesis by (simp add: on_disk_def)
  qed
  then have "saves q v (disk_manager bp) dm'" using write_page_saves [OF w bp_invD(2) [OF inv] rel] by blast
  moreover have "disk_manager bp' = dm'" using e True w b by (auto simp: evict_frame_def Let_def)
  ultimately show ?thesis by simp
qed

lemma sweep_saves:
  assumes "sweep xs bp = (r, bp')" and "bp_inv bp" and "free_list bp = []"
    and "set xs \<subseteq> {..<pool_size bp}" and "disk_reliable (disk_manager bp)" and "on_disk bp q v"
  shows "saves q v (disk_manager bp) (disk_manager bp')"
  using assms
proof (induction xs arbitrary: bp)
  case Nil
  then show ?case by (auto simp: on_disk_def intro: saves_refl)
next
  case (Cons i xs)
  have i: "i < pool_size bp" "i \<notin> set (free_list bp)" using Cons.prems by auto
  let ?bp1 = "set_frame i ((frames bp ! i)\<lparr>referenced := False\<rparr>) bp"
  have v1: "victim_ok bp None ?bp1" using unreference_victim_ok [OF Cons.prems(2) i(1)] .
  then have o1: "on_disk ?bp1 q v"
    using on_disk_backed [OF Cons.prems(6)] Cons.prems(6) by (simp add: victim_ok_def keeps_def on_disk_def)
  obtain ok bp2 where e: "evict_frame i bp = (ok, bp2)" by fastforce
  show ?case
    using Cons.prems Cons.IH [of bp] Cons.IH [of ?bp1] o1 v1 e
      evict_frame_saves [OF Cons.prems(2,5) i Cons.prems(6) e] evict_frame_reliable(1) [OF Cons.prems(2,5) e]
    by (auto simp: victim_ok_def split: if_splits)
qed

lemma find_victim_saves:
  assumes "find_victim_frame bp = (r, bp')" and "bp_inv bp" and "disk_reliable (disk_manager bp)" and "on_disk bp q v"
  shows "saves q v (disk_manager bp) (disk_manager bp')"
proof (cases "free_list bp")
  case Nil
  then show ?thesis using assms sweep_saves [of "clock_pass bp @ clock_pass bp"] clock_pass_range [of bp]
    by (simp add: find_victim_frame_def clock_sweep_def)
qed (use assms in \<open>auto simp: find_victim_frame_def on_disk_def intro: saves_refl\<close>)

lemma fetch_page_saves:
  assumes inv: "bp_inv bp" and rel: "disk_reliable (disk_manager bp)" and o: "on_disk bp q v"
  shows "saves q v (disk_manager bp) (disk_manager (snd (fetch_page p bp)))"
proof (cases "map_of (page_table bp) p")
  case (Some i)
  then show ?thesis using o rel by (simp add: fetch_page_def on_disk_def saves_refl)
next
  case None
  obtain r bp1 where f: "find_victim_frame bp = (r, bp1)" by fastforce
  note s1 = find_victim_saves [OF f inv rel o] and vok = find_victim_ok [OF inv f]
  show ?thesis
  proof (cases r)
    case None
    then show ?thesis using f s1 \<open>map_of (page_table bp) p = None\<close> by (simp add: fetch_page_def)
  next
    case (Some i)
    have inv1: "bp_inv (bp1\<lparr>free_list := i # free_list bp1\<rparr>)" using vok Some by (simp add: victim_ok_def)
    have wf: "wf_page (page_at bp1 i)" using bp_inv_frame(1) [OF inv1, of i] bp_inv_free(1) [OF inv1, of i] by simp
    obtain ok pg dm' where rd: "read_page p (page_at bp1 i) (disk_manager bp1) = (ok, pg, dm')" using prod_cases3 by blast
    have "saves q v (disk_manager bp1) dm'"
      using s1 by (intro read_page_saves [OF rd _ _ wf]) (use bp_invD(2) [OF inv1] in \<open>simp_all add: saves_def\<close>)
    with s1 have "saves q v (disk_manager bp) dm'" by (rule saves_trans)
    then show ?thesis using f Some rd None by (simp add: fetch_page_def Let_def)
  qed
qed

lemma new_page_saves:
  assumes inv: "bp_inv bp" and rel: "disk_reliable (disk_manager bp)" and o: "on_disk bp q v"
    and lim: "next_page_id (disk_manager bp) \<noteq> - 1"
  shows "saves q v (disk_manager bp) (disk_manager (snd (new_page bp)))"
proof -
  obtain r bp1 where f: "find_victim_frame bp = (r, bp1)" by fastforce
  note s1 = find_victim_saves [OF f inv rel o] and vok = find_victim_ok [OF inv f]
  show ?thesis
  proof (cases r)
    case None
    then show ?thesis using f s1 by (simp add: new_page_def)
  next
    case (Some i)
    obtain n dm' where a: "allocate_page (disk_manager bp1) = (n, dm')" by fastforce
    have "bp_inv (bp1\<lparr>free_list := i # free_list bp1\<rparr>)" using vok Some by (simp add: victim_ok_def)
    from bp_invD(2) [OF this] have d1: "disk_inv (disk_manager bp1)" by simp
    have "n \<noteq> - 1" using allocate_page_unfold(1) [OF a] vok lim by (simp add: victim_ok_def)
    then have "saves q v (disk_manager bp1) dm'"
      using s1 by (intro allocate_page_saves [OF a _ d1]) (simp_all add: saves_def)
    with s1 have "saves q v (disk_manager bp) dm'" by (rule saves_trans)
    then show ?thesis using f Some a by (simp add: new_page_def Let_def)
  qed
qed

lemma flush_page_saves:
  assumes inv: "bp_inv bp" and rel: "disk_reliable (disk_manager bp)" and o: "on_disk bp q v"
  shows "saves q v (disk_manager bp) (disk_manager (snd (flush_page p bp)))"
proof (cases "\<exists>i. map_of (page_table bp) p = Some i \<and> is_dirty (page_at bp i)")
  case False
  then show ?thesis using o rel by (auto simp: flush_page_def on_disk_def saves_refl split: option.split)
next
  case True
  then obtain i where t: "map_of (page_table bp) p = Some i" and d: "is_dirty (page_at bp i)" by blast
  obtain b p' dm' where w: "write_page p (page_at bp i) (disk_manager bp) = (b, p', dm')" using prod_cases3 by blast
  obtain ok bp' where f: "flush_page p bp = (ok, bp')" by fastforce
  have ok: ok using flush_page_reliable(1) [OF inv rel f] .
  have dm': "disk_manager bp' = dm'" using f t d w by (auto simp: flush_page_def Let_def split: if_splits)
  have "stored_page dm' q = Some v"
    using flush_page_stored [OF inv t d f [simplified ok]] flush_page_other_stored [OF inv _ f] o dm'
    by (cases "q = p") (simp_all add: on_disk_def)
  from write_page_saves [OF w bp_invD(2) [OF inv] rel this] show ?thesis by (simp add: f dm')
qed

lemma saves_on_disk:
  assumes "keeps q bp bp'" and "on_disk bp q v" and "saves q v (disk_manager bp) (disk_manager bp')"
  shows "on_disk bp' q v"
  using assms on_disk_backed [OF assms(2)] by (simp add: on_disk_def saves_def keeps_def)

lemma flush_pages_saves:
  assumes "bp_inv bp" and "disk_reliable (disk_manager bp)" and "on_disk bp q v"
  shows "saves q v (disk_manager bp) (disk_manager (snd (flush_pages ps bp)))"
  using assms
proof (induction ps arbitrary: bp)
  case Nil
  then show ?case by (simp add: saves_refl on_disk_def)
next
  case (Cons p ps)
  let ?bp1 = "snd (flush_page p bp)"
  note s = flush_page_saves [OF Cons.prems, of p] and k = flush_page_keeps(1) [OF Cons.prems(1), of p] flush_page_keeps(2) [OF Cons.prems(1), of q p]
  have "saves q v (disk_manager ?bp1) (disk_manager (snd (flush_pages ps ?bp1)))"
    by (rule Cons.IH [OF k(1) _ saves_on_disk [OF k(2) Cons.prems(3) s]]) (use s in \<open>simp add: saves_def\<close>)
  with s have "saves q v (disk_manager bp) (disk_manager (snd (flush_pages ps ?bp1)))" by (rule saves_trans)
  then show ?case by (auto simp: Let_def split: prod.splits)
qed

text \<open>Flushing a page puts it on disk.\<close>

lemma flush_page_on_disk:
  assumes inv: "bp_inv bp" and rel: "disk_reliable (disk_manager bp)" and "backed bp q" and v: "bp_view bp q = Some v"
  shows "on_disk (snd (flush_page q bp)) q v"
proof -
  obtain ok bp' where f: "flush_page q bp = (ok, bp')" by fastforce
  note r = flush_page_reliable [OF inv rel f] and k = flush_page_keeps [OF inv, of q]
  have "q \<notin> set (get_dirty_pages bp')" by (simp add: r(4))
  moreover have "backed bp' q" using k(2) [of q] assms(3) by (simp add: f keeps_def)
  ultimately show ?thesis using clean_on_disk [of bp' q v] k(1) r(5) v by (simp add: f)
qed

section \<open>Steps of the pool\<close>

lemma bp_step_saves:
  assumes s: "bp_step op bp bp'" and inv: "bp_inv bp" and rel: "disk_reliable (disk_manager bp)"
    and l: "leaves_content q op" and o: "on_disk bp q v"
  shows "saves q v (disk_manager bp) (disk_manager bp')"
proof -
  have same: "saves q v (disk_manager bp) (disk_manager bp)" using o rel by (simp add: on_disk_def saves_refl)
  show ?thesis using s
  proof (cases rule: bp_step.cases)
    case (step_unpin p d)
    then show ?thesis using same by (simp add: unpin_page_def Let_def split: option.split)
  next
    case (step_delete p)
    then show ?thesis using same by (simp add: delete_page_def deallocate_page_def Let_def split: option.split)
  next
    case step_sync
    then show ?thesis using disk_sync_saves(1) [OF bp_invD(2) [OF inv] rel] o by (simp add: on_disk_def)
  next
    case (step_store p i off bs)
    then show ?thesis using same by (simp add: client_write_def)
  qed (use fetch_page_saves [OF inv rel o] new_page_saves [OF inv rel o] flush_page_saves [OF inv rel o]
        flush_pages_saves [OF inv rel o] in simp_all)
qed

lemma bp_step_on_disk:
  assumes "bp_step op bp bp'" and "bp_inv bp" and "disk_reliable (disk_manager bp)" and "leaves_content q op"
    and "on_disk bp q v"
  shows "on_disk bp' q v" and "durable (disk_manager bp) q v \<Longrightarrow> durable (disk_manager bp') q v"
  using bp_step_saves [OF assms] bp_step_content(2) [OF assms(1,2,4) on_disk_backed [OF assms(5)]] assms(5)
  by (simp_all add: saves_def on_disk_def)

section \<open>Writing back without a sync\<close>

text \<open>Only allocating a page and \<open>sync_all\<close> flush the stream; a page that is written back by an eviction or a flush stays in
  its buffer.\<close>

fun unsynced :: "bp_op \<Rightarrow> bool" where
  "unsynced New = False"
| "unsynced SyncAll = False"
| "unsynced op = True"

abbreviation flushed_file :: "BufferPool \<Rightarrow> bytes" where
  "flushed_file bp \<equiv> fs_flushed (data_file (disk_manager bp))"

lemma evict_frame_unsynced: "evict_frame i bp = (ok, bp') \<Longrightarrow> flushed_file bp' = flushed_file bp"
  using write_page_unfold(6) by (auto simp: evict_frame_def Let_def split: prod.splits if_splits)

lemma sweep_unsynced: "sweep xs bp = (r, bp') \<Longrightarrow> flushed_file bp' = flushed_file bp"
  by (induction xs bp rule: sweep.induct)
     (auto dest: evict_frame_unsynced split: if_splits prod.splits bool.splits)

lemma find_victim_unsynced: "find_victim_frame bp = (r, bp') \<Longrightarrow> flushed_file bp' = flushed_file bp"
  by (auto simp: find_victim_frame_def clock_sweep_def dest: sweep_unsynced split: list.splits)

lemma fetch_page_unsynced: "flushed_file (snd (fetch_page p bp)) = flushed_file bp"
proof (cases "map_of (page_table bp) p")
  case None
  obtain r bp1 where f: "find_victim_frame bp = (r, bp1)" by fastforce
  then show ?thesis using find_victim_unsynced [OF f] read_page_frame(6) [of p _ "disk_manager bp1"] None
    by (cases r) (auto simp: fetch_page_def Let_def split: prod.split)
qed (simp add: fetch_page_def)

lemma flush_page_unsynced: "flushed_file (snd (flush_page p bp)) = flushed_file bp"
  using write_page_unfold(6) by (auto simp: flush_page_def Let_def split: option.split prod.split)

lemma flush_pages_unsynced: "flushed_file (snd (flush_pages ps bp)) = flushed_file bp"
proof (induction ps arbitrary: bp)
  case (Cons p ps)
  from Cons.IH [of "snd (flush_page p bp)"] show ?case
    by (simp add: Let_def case_prod_beta' flush_page_unsynced)
qed simp

lemma bp_step_unsynced:
  assumes "bp_step op bp bp'" and "unsynced op"
  shows "flushed_file bp' = flushed_file bp"
  using assms
  by (cases rule: bp_step.cases)
     (auto simp: fetch_page_unsynced flush_page_unsynced flush_pages_unsynced unpin_page_def delete_page_def
        deallocate_page_def client_write_def Let_def split: option.split)

definition bp_unsynced_step :: "BufferPool \<Rightarrow> BufferPool \<Rightarrow> bool" where
  "bp_unsynced_step bp bp' \<longleftrightarrow> (\<exists>op. unsynced op \<and> bp_step op bp bp')"

interpretation unsynced: transition_invariant bp_unsynced_step "\<lambda>bp. flushed_file bp = c" for c
  by unfold_locales (auto simp: bp_unsynced_step_def bp_step_unsynced)



end
