(* ===== verification/Concurrent_Checkpoint.thy ===== *)
theory Concurrent_Checkpoint
  imports Pool_Persistence
begin

text \<open>
  \<open>do_checkpoint\<close> next to its clients. The function holds no lock over its whole body: it takes the latch of the pool for
  the snapshot and for every single page it flushes, and the mutex of the log for each record, for forcing and for
  truncating it. Here it is a thread: \<open>ck_tick\<close> is one step from one such access to the next, with the local variables of
  the function in a record, and between two steps clients use the pool and the log, other checkpoints run
  (\<open>shutdown\<close> does not take \<open>checkpoint_mutex_\<close>), and \<open>running_\<close> may be cleared. Without other threads the steps compute
  \<open>do_checkpoint\<close>.
\<close>

section \<open>The steps of a checkpoint\<close>

datatype ckpt_pc =
    CkEnter | CkBegin | CkSnapshot | CkEmptyEnd | CkEmptyForce | CkEmptyRelease
  | CkLoop | CkFlush | CkSync | CkEnd | CkForce | CkTruncate | CkRecord | CkRelease | CkDone

record ckpt_thread =
  ck_trigger :: CheckpointTrigger
  ck_pc :: ckpt_pc
  ck_start_time :: int
  ck_begin_lsn :: Lsn
  ck_dirty_pages :: "PageId list"
  ck_i :: nat
  ck_pages_written :: nat
  ck_todo :: "PageId list" \<comment> \<open>what \<open>flush_pages\<close> has not visited of its batch\<close>
  ck_success :: bool \<comment> \<open>the variable of \<open>flush_pages\<close>\<close>
  ck_end_lsn :: Lsn
  ck_end_time :: int

definition ckpt_thread_new :: "CheckpointTrigger \<Rightarrow> ckpt_thread" where
  "ckpt_thread_new t =
     \<lparr>ck_trigger = t, ck_pc = CkEnter, ck_start_time = 0, ck_begin_lsn = INVALID_LSN, ck_dirty_pages = [], ck_i = 0,
      ck_pages_written = 0, ck_todo = [], ck_success = True, ck_end_lsn = INVALID_LSN, ck_end_time = 0\<rparr>"

text \<open>A call of the log, which updates the metrics that the pool shares with it.\<close>

definition with_log :: "WriteAheadLog \<Rightarrow> CheckpointMetrics \<Rightarrow> CheckpointManager \<Rightarrow> CheckpointManager" where
  "with_log w m cm = cm\<lparr>cm_wal := w, cm_pool := set_metrics m (cm_pool cm)\<rparr>"

definition checkpoint_end_record :: "Lsn \<Rightarrow> LogRecord" where
  "checkpoint_end_record begin_lsn = LogRecord_default\<lparr>lr_type := LR_CHECKPOINT_END, lr_txn_id := 0,
     lr_page_id := INVALID_PAGE_ID, lr_prev_lsn := begin_lsn\<rparr>"

text \<open>The head of the flush loop, and one page of a batch.\<close>

definition ck_loop :: "ckpt_thread \<Rightarrow> CheckpointManager \<Rightarrow> ckpt_thread" where
  "ck_loop th cm =
     (let i = ck_i th; n = length (ck_dirty_pages th); b = checkpoint_batch_size (cm_config cm)
      in if n \<le> i \<or> (\<not> running cm \<and> ck_trigger th \<noteq> Shutdown) then th\<lparr>ck_pc := CkSync\<rparr>
         else th\<lparr>ck_pc := CkFlush, ck_todo := take (min (i + b) n - i) (drop i (ck_dirty_pages th)), ck_success := True\<rparr>)"

definition ck_flush :: "ckpt_thread \<Rightarrow> CheckpointManager \<Rightarrow> ckpt_thread \<times> CheckpointManager" where
  "ck_flush th cm =
     (let i = ck_i th; b = checkpoint_batch_size (cm_config cm)
      in case ck_todo th of
        [] \<Rightarrow> (th\<lparr>ck_pc := CkLoop, ck_i := i + b,
                ck_pages_written := (if ck_success th then ck_pages_written th + (min (i + b) (length (ck_dirty_pages th)) - i)
                                     else ck_pages_written th)\<rparr>, cm)
      | p # ps \<Rightarrow> (case flush_page p (cm_pool cm) of
          (ok, bp) \<Rightarrow> (th\<lparr>ck_todo := ps, ck_success := (ck_success th \<and> ok)\<rparr>, cm\<lparr>cm_pool := bp\<rparr>)))"

definition ck_release :: "int \<Rightarrow> CheckpointManager \<Rightarrow> CheckpointManager" where
  "ck_release t cm = cm\<lparr>checkpoint_in_progress := False, blocking_mode := False, last_checkpoint_time := t\<rparr>"

text \<open>One step; \<open>now\<close> is what the steady clock shows if the step reads it.\<close>

definition ck_tick :: "int \<Rightarrow> ckpt_thread \<Rightarrow> CheckpointManager \<Rightarrow> ckpt_thread \<times> CheckpointManager" where
  "ck_tick now th cm =
     (let m = bp_metrics (cm_pool cm)
      in case ck_pc th of
        CkEnter \<Rightarrow> (th\<lparr>ck_pc := CkBegin, ck_start_time := now\<rparr>, checkpoint_block (ck_trigger th) cm)
      | CkBegin \<Rightarrow> (case write_checkpoint_begin (cm_wal cm) m of
          (l, w, m') \<Rightarrow> (th\<lparr>ck_pc := CkSnapshot, ck_begin_lsn := l\<rparr>, with_log w m' cm))
      | CkSnapshot \<Rightarrow>
          (let d = get_dirty_pages (cm_pool cm)
           in (th\<lparr>ck_pc := (if d = [] then CkEmptyEnd else CkLoop), ck_dirty_pages := d, ck_i := 0, ck_pages_written := 0\<rparr>, cm))
      | CkEmptyEnd \<Rightarrow> (case wal_append (checkpoint_end_record (ck_begin_lsn th)) (cm_wal cm) m of
          (l, w, m') \<Rightarrow> (th\<lparr>ck_pc := CkEmptyForce, ck_end_lsn := l\<rparr>, with_log w m' cm))
      | CkEmptyForce \<Rightarrow> (th\<lparr>ck_pc := CkEmptyRelease\<rparr>, cm\<lparr>cm_wal := force (ck_end_lsn th) (cm_wal cm)\<rparr>)
      | CkEmptyRelease \<Rightarrow> (th\<lparr>ck_pc := CkDone\<rparr>, ck_release now cm)
      | CkLoop \<Rightarrow> (ck_loop th cm, cm)
      | CkFlush \<Rightarrow> ck_flush th cm
      | CkSync \<Rightarrow> (th\<lparr>ck_pc := CkEnd\<rparr>, cm\<lparr>cm_pool := sync_all (cm_pool cm)\<rparr>)
      | CkEnd \<Rightarrow> (case wal_append (checkpoint_end_record (ck_begin_lsn th)) (cm_wal cm) m of
          (l, w, m') \<Rightarrow> (th\<lparr>ck_pc := CkForce, ck_end_lsn := l\<rparr>, with_log w m' cm))
      | CkForce \<Rightarrow> (th\<lparr>ck_pc := CkTruncate\<rparr>, cm\<lparr>cm_wal := force (ck_end_lsn th) (cm_wal cm)\<rparr>)
      | CkTruncate \<Rightarrow> (case truncate_before (ck_begin_lsn th) (cm_wal cm) m of
          (w, m') \<Rightarrow> (th\<lparr>ck_pc := CkRecord, ck_end_time := now\<rparr>, with_log w m' cm))
      | CkRecord \<Rightarrow> (th\<lparr>ck_pc := CkRelease\<rparr>, cm\<lparr>cm_pool := set_metrics (record_checkpoint
          (to_milliseconds (ck_end_time th - ck_start_time th)) (ck_pages_written th) (was_forced (ck_trigger th)) now m)
          (cm_pool cm)\<rparr>)
      | CkRelease \<Rightarrow> (th\<lparr>ck_pc := CkDone\<rparr>, ck_release (ck_end_time th) cm)
      | CkDone \<Rightarrow> (th, cm))"

section \<open>Alone, the steps compute the checkpoint\<close>

text \<open>The thread without others; \<open>clk\<close> gives the readings of the clock by the point at which they are taken.\<close>

definition ck_alone :: "(ckpt_pc \<Rightarrow> int) \<Rightarrow> ckpt_thread \<times> CheckpointManager \<Rightarrow> ckpt_thread \<times> CheckpointManager" where
  "ck_alone clk = (\<lambda>(th, cm). ck_tick (clk (ck_pc th)) th cm)"

definition ck_run :: "(ckpt_pc \<Rightarrow> int) \<Rightarrow> ckpt_thread \<times> CheckpointManager \<Rightarrow> ckpt_thread \<times> CheckpointManager \<Rightarrow> bool" where
  "ck_run clk s s' \<longleftrightarrow> (\<exists>k. (ck_alone clk ^^ k) s = s')"

lemma ck_run_refl: "ck_run clk s s"
  unfolding ck_run_def by (rule exI [of _ 0]) simp

lemma ck_run_step: "ck_run clk (ck_alone clk s) s' \<Longrightarrow> ck_run clk s s'"
  unfolding ck_run_def by (metis funpow_Suc_right o_apply)

lemma ck_run_trans: "ck_run clk s s' \<Longrightarrow> ck_run clk s' s'' \<Longrightarrow> ck_run clk s s''"
  unfolding ck_run_def by (metis funpow_add o_apply)

lemma ck_run_flush:
  assumes "ck_pc th = CkFlush"
  shows "ck_run clk (th, cm) (th\<lparr>ck_todo := [], ck_success := (ck_success th \<and> fst (flush_pages (ck_todo th) (cm_pool cm)))\<rparr>,
      cm\<lparr>cm_pool := snd (flush_pages (ck_todo th) (cm_pool cm))\<rparr>)"
  using assms
proof (induction "ck_todo th" arbitrary: th cm)
  case Nil
  have t: "ck_todo th = []" using Nil.hyps by (rule sym)
  have e: "th\<lparr>ck_todo := []\<rparr> = th" by (rule ckpt_thread.equality) (simp_all add: t)
  show ?case by (simp add: t) (simp only: e ck_run_refl)
next
  case (Cons p ps)
  obtain ok bp where f: "flush_page p (cm_pool cm) = (ok, bp)" by fastforce
  let ?th = "th\<lparr>ck_todo := ps, ck_success := (ck_success th \<and> ok)\<rparr>" and ?cm = "cm\<lparr>cm_pool := bp\<rparr>"
  have "ck_alone clk (th, cm) = (?th, ?cm)"
    using Cons.prems by (simp add: ck_alone_def ck_tick_def ck_flush_def Cons.hyps(2) [symmetric] f Let_def)
  moreover have "ck_run clk (?th, ?cm) (?th\<lparr>ck_todo := [], ck_success := (ck_success ?th \<and> fst (flush_pages (ck_todo ?th) (cm_pool ?cm)))\<rparr>,
      ?cm\<lparr>cm_pool := snd (flush_pages (ck_todo ?th) (cm_pool ?cm))\<rparr>)"
    by (rule Cons.hyps(1)) (simp_all add: Cons.prems)
  ultimately show ?case
    by (intro ck_run_step [of clk "(th, cm)"]) (simp add: Cons.hyps(2) [symmetric] f Let_def conj_assoc case_prod_beta')
qed

text \<open>The state of the thread at the head of the loop, for a state of \<open>flush_loop\<close>.\<close>

definition ck_head :: "ckpt_thread \<Rightarrow> CheckpointManager \<Rightarrow> PageId list \<Rightarrow> bool \<Rightarrow> flush_state \<Rightarrow> ckpt_thread \<times> CheckpointManager" where
  "ck_head th cm td ok = (\<lambda>(i, n, bp, stop).
     (th\<lparr>ck_pc := (if stop then CkSync else CkLoop), ck_i := i, ck_pages_written := n, ck_todo := td, ck_success := ok\<rparr>,
      cm\<lparr>cm_pool := bp\<rparr>))"

lemma ck_run_batch:
  assumes g: "loop_guard (length (ck_dirty_pages th)) s"
  shows "\<exists>td' ok'. ck_run clk (ck_head th cm td ok s) (ck_head th cm td' ok'
    (flush_batch (ck_dirty_pages th) (checkpoint_batch_size (cm_config cm)) (ck_trigger th) (\<lambda>_. running cm) s))"
proof -
  obtain i n bp stop where s: "s = (i, n, bp, stop)" using prod_cases4 by blast
  let ?d = "ck_dirty_pages th" and ?b = "checkpoint_batch_size (cm_config cm)"
  let ?batch = "take (min (i + ?b) (length ?d) - i) (drop i ?d)"
  have st: "\<not> stop" and i: "i < length ?d" using g by (simp_all add: loop_guard_def s)
  show ?thesis
  proof (cases "\<not> running cm \<and> ck_trigger th \<noteq> Shutdown")
    case True
    then have "ck_alone clk (ck_head th cm td ok s) = ck_head th cm td ok (i, n, bp, True)"
      by (simp add: ck_alone_def ck_tick_def ck_head_def s st ck_loop_def Let_def)
    moreover have "flush_batch ?d ?b (ck_trigger th) (\<lambda>_. running cm) s = (i, n, bp, True)"
      using True by (simp add: flush_batch_def s)
    ultimately show ?thesis using ck_run_step [OF ck_run_refl] by metis
  next
    case False
    obtain ok2 bp2 where f: "flush_pages ?batch bp = (ok2, bp2)" by fastforce
    let ?n = "if ok2 then n + length ?batch else n"
    define th1 where "th1 = th\<lparr>ck_pc := CkFlush, ck_i := i, ck_pages_written := n, ck_todo := ?batch, ck_success := True\<rparr>"
    have 1: "ck_alone clk (ck_head th cm td ok s) = (th1, cm\<lparr>cm_pool := bp\<rparr>)"
      using False st i by (auto simp: ck_alone_def ck_tick_def ck_head_def s ck_loop_def Let_def th1_def not_le)
    have 2: "ck_run clk (th1, cm\<lparr>cm_pool := bp\<rparr>) (th1\<lparr>ck_todo := [], ck_success := ok2\<rparr>, cm\<lparr>cm_pool := bp2\<rparr>)"
      using ck_run_flush [of th1 clk "cm\<lparr>cm_pool := bp\<rparr>"] f by (simp add: th1_def)
    have len: "length ?batch = min (i + ?b) (length ?d) - i" using i by simp
    have 3: "ck_alone clk (th1\<lparr>ck_todo := [], ck_success := ok2\<rparr>, cm\<lparr>cm_pool := bp2\<rparr>) =
        ck_head th cm [] ok2 (i + ?b, ?n, bp2, False)"
      by (simp add: ck_alone_def ck_tick_def ck_head_def ck_flush_def Let_def th1_def len)
    have fb: "flush_batch ?d ?b (ck_trigger th) (\<lambda>_. running cm) s = (i + ?b, ?n, bp2, False)"
      using False f by (auto simp: flush_batch_def s Let_def)
    have "ck_run clk (ck_head th cm td ok s) (ck_head th cm [] ok2 (i + ?b, ?n, bp2, False))"
      by (rule ck_run_step) (unfold 1, rule ck_run_trans [OF 2 ck_run_step], unfold 3, rule ck_run_refl)
    then show ?thesis unfolding fb by blast
  qed
qed

lemma ck_run_loop:
  assumes l: "flush_loop (ck_dirty_pages th) (checkpoint_batch_size (cm_config cm)) (ck_trigger th) (\<lambda>_. running cm)
      (cm_pool cm) = Some (i, n, bp, stop)" and "ck_pc th = CkLoop" "ck_i th = 0" "ck_pages_written th = 0"
  shows "\<exists>td ok. ck_run clk (th, cm) (ck_head th cm td ok (i, n, bp, True))"
proof -
  let ?b = "checkpoint_batch_size (cm_config cm)"
  note w = l [unfolded flush_loop_guard]
  have start: "ck_head th cm (ck_todo th) (ck_success th) (0, 0, cm_pool cm, False) = (th, cm)"
    unfolding ck_head_def by (auto simp: assms(2-4) intro: ckpt_thread.equality)
  have "\<exists>td ok. ck_run clk (th, cm) (ck_head th cm td ok (i, n, bp, stop))"
  proof (rule while_option_rule [OF _ w])
    fix s :: flush_state
    assume ex: "\<exists>td ok. ck_run clk (th, cm) (ck_head th cm td ok s)" and g: "loop_guard (length (ck_dirty_pages th)) s"
    from ex obtain td ok where "ck_run clk (th, cm) (ck_head th cm td ok s)" by blast
    then show "\<exists>td ok. ck_run clk (th, cm) (ck_head th cm td ok
        (flush_batch (ck_dirty_pages th) ?b (ck_trigger th) (\<lambda>_. running cm) s))"
      using ck_run_batch [OF g, of clk cm td ok] ck_run_trans by blast
  next
    show "\<exists>td ok. ck_run clk (th, cm) (ck_head th cm td ok (0, 0, cm_pool cm, False))"
      using ck_run_refl start by metis
  qed
  then obtain td ok where r: "ck_run clk (th, cm) (ck_head th cm td ok (i, n, bp, stop))" by blast
  have "stop \<or> length (ck_dirty_pages th) \<le> i" using while_option_stop [OF w] by (auto simp: loop_guard_def)
  then have "stop \<or> ck_alone clk (ck_head th cm td ok (i, n, bp, stop)) = ck_head th cm td ok (i, n, bp, True)"
    by (auto simp: ck_alone_def ck_tick_def ck_head_def ck_loop_def Let_def)
  then show ?thesis using ck_run_trans [OF r ck_run_step [OF ck_run_refl]] r by (cases stop) metis+
qed

lemma write_checkpoint_end_steps:
  "wal_append (checkpoint_end_record b) w m = (l, w1, m1) \<Longrightarrow> write_checkpoint_end b w m = (l, force l w1, m1)"
  by (simp add: write_checkpoint_end_def checkpoint_end_record_def)

text \<open>The prologue up to the snapshot.\<close>

lemma ck_run_prologue:
  assumes b: "write_checkpoint_begin (cm_wal cm) (bp_metrics (cm_pool (checkpoint_block t cm))) = (l, w, m)"
  defines "d \<equiv> get_dirty_pages (cm_pool cm)"
  shows "ck_run clk (ckpt_thread_new t, cm)
    ((ckpt_thread_new t)\<lparr>ck_pc := (if d = [] then CkEmptyEnd else CkLoop), ck_start_time := clk CkEnter,
       ck_begin_lsn := l, ck_dirty_pages := d\<rparr>, with_log w m (checkpoint_block t cm))"
proof -
  have "(ck_alone clk ^^ 3) (ckpt_thread_new t, cm) =
    ((ckpt_thread_new t)\<lparr>ck_pc := (if d = [] then CkEmptyEnd else CkLoop), ck_start_time := clk CkEnter,
       ck_begin_lsn := l, ck_dirty_pages := d\<rparr>, with_log w m (checkpoint_block t cm))"
    by (simp add: eval_nat_numeral ck_alone_def ck_tick_def ckpt_thread_new_def b with_log_def d_def Let_def)
  then show ?thesis unfolding ck_run_def by blast
qed

lemma ck_run_empty:
  assumes "wal_append (checkpoint_end_record (ck_begin_lsn th)) (cm_wal cm) (bp_metrics (cm_pool cm)) = (l, w, m)"
    and "ck_pc th = CkEmptyEnd"
  shows "\<exists>th'. ck_pc th' = CkDone \<and> ck_run clk (th, cm) (th', ck_release (clk CkEmptyRelease) ((with_log w m cm)\<lparr>cm_wal := force l w\<rparr>))"
proof -
  have "(ck_alone clk ^^ 3) (th, cm) = (th\<lparr>ck_pc := CkDone, ck_end_lsn := l\<rparr>,
      ck_release (clk CkEmptyRelease) ((with_log w m cm)\<lparr>cm_wal := force l w\<rparr>))"
    using assms by (simp add: eval_nat_numeral ck_alone_def ck_tick_def with_log_def Let_def)
  then show ?thesis unfolding ck_run_def
    by (intro exI [of _ "th\<lparr>ck_pc := CkDone, ck_end_lsn := l\<rparr>"] conjI exI [of _ 3]) simp_all
qed

lemma ck_run_epilogue:
  assumes "wal_append (checkpoint_end_record (ck_begin_lsn th)) (cm_wal cm) (bp_metrics (cm_pool cm)) = (l, w, m)"
    and "truncate_before (ck_begin_lsn th) (force l w) m = (w', m')" and "ck_pc th = CkSync"
  shows "\<exists>th'. ck_pc th' = CkDone \<and> ck_run clk (th, cm) (th', ck_release (clk CkTruncate)
    (with_log w' (record_checkpoint (to_milliseconds (clk CkTruncate - ck_start_time th)) (ck_pages_written th)
      (was_forced (ck_trigger th)) (clk CkRecord) m') (cm\<lparr>cm_pool := sync_all (cm_pool cm)\<rparr>)))"
proof -
  let ?th = "th\<lparr>ck_pc := CkDone, ck_end_lsn := l, ck_end_time := clk CkTruncate\<rparr>"
  have "(ck_alone clk ^^ 6) (th, cm) = (?th, ck_release (clk CkTruncate)
    (with_log w' (record_checkpoint (to_milliseconds (clk CkTruncate - ck_start_time th)) (ck_pages_written th)
      (was_forced (ck_trigger th)) (clk CkRecord) m') (cm\<lparr>cm_pool := sync_all (cm_pool cm)\<rparr>)))"
    using assms by (simp add: eval_nat_numeral ck_alone_def ck_tick_def with_log_def ck_release_def Let_def set_metrics_def)
  then show ?thesis unfolding ck_run_def by (intro exI [of _ ?th] conjI exI [of _ 6]) simp_all
qed

text \<open>The thread after its snapshot, and the two ways it goes on.\<close>

definition ck_after_snapshot :: "CheckpointTrigger \<Rightarrow> int \<Rightarrow> Lsn \<Rightarrow> PageId list \<Rightarrow> ckpt_thread" where
  "ck_after_snapshot t t0 l d = (ckpt_thread_new t)\<lparr>ck_pc := (if d = [] then CkEmptyEnd else CkLoop),
     ck_start_time := t0, ck_begin_lsn := l, ck_dirty_pages := d\<rparr>"

lemma ck_after_snapshot_simps [simp]:
  "ck_begin_lsn (ck_after_snapshot t t0 l d) = l" "ck_dirty_pages (ck_after_snapshot t t0 l d) = d"
  "ck_trigger (ck_after_snapshot t t0 l d) = t" "ck_i (ck_after_snapshot t t0 l d) = 0"
  "ck_pages_written (ck_after_snapshot t t0 l d) = 0" "ck_start_time (ck_after_snapshot t t0 l d) = t0"
  "ck_pc (ck_after_snapshot t t0 l d) = (if d = [] then CkEmptyEnd else CkLoop)"
  by (simp_all add: ck_after_snapshot_def ckpt_thread_new_def)

lemma ck_run_after_snapshot_empty:
  assumes b: "write_checkpoint_begin (cm_wal cm) (bp_metrics (cm_pool (checkpoint_block t cm))) = (l1, w1, m1)"
    and d: "get_dirty_pages (cm_pool cm) = []"
  shows "\<exists>th' cm'. ck_run clk (ck_after_snapshot t t0 l1 [], with_log w1 m1 (checkpoint_block t cm)) (th', cm') \<and>
    ck_pc th' = CkDone \<and> do_checkpoint t run t0 (clk CkEmptyRelease) t2 cm = Some cm'"
proof -
  let ?th = "ck_after_snapshot t t0 l1 []" and ?cm = "with_log w1 m1 (checkpoint_block t cm)"
  obtain l w m where a: "wal_append (checkpoint_end_record l1) w1 m1 = (l, w, m)" using prod_cases3 by blast
  let ?cm' = "ck_release (clk CkEmptyRelease) ((with_log w m ?cm)\<lparr>cm_wal := force l w\<rparr>)"
  obtain th' where "ck_pc th' = CkDone" "ck_run clk (?th, ?cm) (th', ?cm')"
    using ck_run_empty [of ?th ?cm l w m clk] a by (auto simp: with_log_def)
  moreover have "do_checkpoint t run t0 (clk CkEmptyRelease) t2 cm = Some ?cm'"
    by (simp add: do_checkpoint_def b d write_checkpoint_end_steps [OF a] with_log_def ck_release_def Let_def)
  ultimately show ?thesis by blast
qed

lemma ck_run_after_snapshot_flush:
  assumes b: "write_checkpoint_begin (cm_wal cm) (bp_metrics (cm_pool (checkpoint_block t cm))) = (l1, w1, m1)"
    and d: "d = get_dirty_pages (cm_pool cm)" "d \<noteq> []" and pos: "0 < checkpoint_batch_size (cm_config cm)"
  shows "\<exists>th' cm'. ck_run clk (ck_after_snapshot t t0 l1 d, with_log w1 m1 (checkpoint_block t cm)) (th', cm') \<and>
    ck_pc th' = CkDone \<and> do_checkpoint t (\<lambda>_. running cm) t0 (clk CkTruncate) (clk CkRecord) cm = Some cm'"
proof -
  let ?th = "ck_after_snapshot t t0 l1 d" and ?cm = "with_log w1 m1 (checkpoint_block t cm)"
  obtain i n bp stop where l: "flush_loop d (checkpoint_batch_size (cm_config cm)) t (\<lambda>_. running cm) (cm_pool ?cm) = Some (i, n, bp, stop)"
    using flush_loop_terminates [OF pos, of d t "\<lambda>_. running cm" "cm_pool ?cm"] by fastforce
  have cm1: "cm_config ?cm = cm_config cm" "running ?cm = running cm" "cm_wal ?cm = w1" by (simp_all add: with_log_def)
  obtain td ok where lo: "ck_run clk (?th, ?cm) (ck_head ?th ?cm td ok (i, n, bp, True))"
    using ck_run_loop [of ?th ?cm i n bp stop clk] l d(2) by (auto simp: cm1)
  define th2 cm2 where "th2 = fst (ck_head ?th ?cm td ok (i, n, bp, True))" and "cm2 = ?cm\<lparr>cm_pool := bp\<rparr>"
  have h2: "ck_head ?th ?cm td ok (i, n, bp, True) = (th2, cm2)" by (simp add: th2_def cm2_def ck_head_def)
  have th2: "ck_begin_lsn th2 = l1" "ck_pc th2 = CkSync" "ck_trigger th2 = t" "ck_pages_written th2 = n"
    "ck_start_time th2 = t0" by (simp_all add: th2_def ck_head_def)
  obtain l2 w2 m2 where a: "wal_append (checkpoint_end_record l1) w1 (bp_metrics bp) = (l2, w2, m2)" using prod_cases3 by blast
  obtain w3 m3 where tr: "truncate_before l1 (force l2 w2) m2 = (w3, m3)" by fastforce
  let ?cm' = "ck_release (clk CkTruncate) (with_log w3 (record_checkpoint (to_milliseconds (clk CkTruncate - t0)) n (was_forced t)
      (clk CkRecord) m3) (cm2\<lparr>cm_pool := sync_all bp\<rparr>))"
  obtain th' where "ck_pc th' = CkDone" "ck_run clk (th2, cm2) (th', ?cm')"
    using ck_run_epilogue [of th2 cm2 l2 w2 m2 w3 m3 clk] a tr by (auto simp: th2 cm2_def cm1)
  moreover have "do_checkpoint t (\<lambda>_. running cm) t0 (clk CkTruncate) (clk CkRecord) cm = Some ?cm'"
    using l write_checkpoint_end_steps [OF a] tr d
    by (simp add: do_checkpoint_def b with_log_def ck_release_def cm2_def Let_def)
  ultimately show ?thesis using ck_run_trans [OF lo [unfolded h2]] by blast
qed



end
