(* ===== verification/Concurrent_Checkpoint_Props.thy ===== *)
theory Concurrent_Checkpoint_Props
  imports Concurrent_Checkpoint
begin

text \<open>
  The checkpoint thread among clients and other checkpoints. What a step guarantees to the other threads is a relation on
  the pool (\<open>pool_guar\<close>), kept by client steps and by the steps of every checkpoint; how far a checkpoint has come with a
  page (\<open>ck_progress\<close>) is stable under it. So the content that a page had when the checkpoint was called is durable after
  the sync, in every interleaving, and the thread ends after a bounded number of its own steps.
\<close>

section \<open>The checkpoint among other threads\<close>

text \<open>
  The threads that are inside \<open>do_checkpoint\<close>, and the manager they share. A step is a step of one of them, a call of
  another one, an operation of a client on the pool or on the log, or the end of \<open>running_\<close> in \<open>shutdown\<close>. The steps that
  store into page \<open>q\<close> or delete it are left out, since the properties follow the content of that page.
\<close>

type_synonym ckpt_system = "ckpt_thread list \<times> CheckpointManager"

inductive cc_step :: "PageId \<Rightarrow> ckpt_system \<Rightarrow> ckpt_system \<Rightarrow> bool" for q where
  cc_tick: "k < length ths \<Longrightarrow> ck_tick now (ths ! k) cm = (th', cm') \<Longrightarrow> cc_step q (ths, cm) (ths[k := th'], cm')"
| cc_call: "cc_step q (ths, cm) (ths @ [ckpt_thread_new t], cm)"
| cc_client: "leaves_content q op \<Longrightarrow> bp_step op (cm_pool cm) bp' \<Longrightarrow> cc_step q (ths, cm) (ths, cm\<lparr>cm_pool := bp'\<rparr>)"
| cc_append: "wal_append r (cm_wal cm) (bp_metrics (cm_pool cm)) = (l, w, m) \<Longrightarrow> cc_step q (ths, cm) (ths, with_log w m cm)"
| cc_force: "cc_step q (ths, cm) (ths, cm\<lparr>cm_wal := force l (cm_wal cm)\<rparr>)"
| cc_stop: "cc_step q (ths, cm) (ths, cm\<lparr>running := False\<rparr>)"

subsection \<open>What every step guarantees to the other threads\<close>

definition pool_guar :: "PageId \<Rightarrow> bytes \<Rightarrow> BufferPool \<Rightarrow> BufferPool \<Rightarrow> bool" where
  "pool_guar q v bp bp' \<longleftrightarrow>
     (on_disk bp q v \<longrightarrow> on_disk bp' q v \<and> (durable (disk_manager bp) q v \<longrightarrow> durable (disk_manager bp') q v))"

definition pool_ok :: "PageId \<Rightarrow> bytes \<Rightarrow> BufferPool \<Rightarrow> bool" where
  "pool_ok q v bp \<longleftrightarrow> bp_inv bp \<and> disk_reliable (disk_manager bp) \<and> backed bp q \<and> bp_view bp q = Some v"

lemma pool_step_guar:
  assumes "bp_step op bp bp'" and "leaves_content q op" and "pool_ok q v bp"
  shows "pool_ok q v bp'" and "pool_guar q v bp bp'"
proof -
  have inv: "bp_inv bp" and rel: "disk_reliable (disk_manager bp)" and b: "backed bp q" and v: "bp_view bp q = Some v"
    using assms(3) by (simp_all add: pool_ok_def)
  show "pool_ok q v bp'"
    using bp_step_inv [OF assms(1) inv] bp_step_reliable [OF assms(1) inv rel] bp_step_content [OF assms(1) inv assms(2) b] v
    by (simp add: pool_ok_def)
  show "pool_guar q v bp bp'"
    using bp_step_on_disk [OF assms(1) inv rel assms(2)] by (simp add: pool_guar_def)
qed

lemma pool_metrics_guar:
  assumes "dirty_page_count_m m = dirty_page_count_m (bp_metrics bp)"
  shows "pool_ok q v bp \<Longrightarrow> pool_ok q v (set_metrics m bp)" and "pool_guar q v bp (set_metrics m bp)"
proof -
  show "pool_guar q v bp (set_metrics m bp)" by (simp add: pool_guar_def on_disk_def)
  assume ok: "pool_ok q v bp"
  have "backed (set_metrics m bp) q = backed bp q" by (simp add: backed_def cong: option.case_cong)
  then show "pool_ok q v (set_metrics m bp)" using ok bp_inv_metrics assms by (simp add: pool_ok_def)
qed

lemma pool_guar_trans: "pool_guar q v bp bp' \<Longrightarrow> pool_guar q v bp' bp'' \<Longrightarrow> pool_guar q v bp bp''"
  by (simp add: pool_guar_def)

lemma set_metrics_same [simp]: "set_metrics (bp_metrics bp) bp = bp"
  by (simp add: set_metrics_def)

lemma record_checkpoint_dirty [simp]: "dirty_page_count_m (record_checkpoint d n f t m) = dirty_page_count_m m"
  by (simp add: record_checkpoint_def Let_def)

lemma wal_append_dirty: "wal_append r w m = (l, w', m') \<Longrightarrow> dirty_page_count_m m' = dirty_page_count_m m"
  using wal_append_metrics(1) [of r w m] by simp

text \<open>The change of the pool by such a step: at most one call, then the metrics, whose dirty count stays.\<close>

definition ck_change :: "BufferPool \<Rightarrow> BufferPool \<Rightarrow> bool" where
  "ck_change bp bp' \<longleftrightarrow> (\<exists>m bp1. bp' = set_metrics m bp1 \<and> dirty_page_count_m m = dirty_page_count_m (bp_metrics bp1) \<and>
     (bp1 = bp \<or> (\<exists>p. bp_step (Flush p) bp bp1) \<or> bp_step SyncAll bp bp1))"

lemma ck_change_metrics: "dirty_page_count_m m = dirty_page_count_m (bp_metrics bp) \<Longrightarrow> ck_change bp (set_metrics m bp)"
  by (auto simp: ck_change_def)

lemma ck_change_refl: "ck_change bp bp"
  using ck_change_metrics [of "bp_metrics bp" bp] by simp

lemma ck_change_flush: "ck_change bp (snd (flush_page p bp))"
  unfolding ck_change_def by (metis set_metrics_same step_flush)

lemma ck_change_sync: "ck_change bp (sync_all bp)"
  unfolding ck_change_def by (metis set_metrics_same step_sync)

lemma ck_change_block: "ck_change (cm_pool cm) (cm_pool (checkpoint_block t cm))"
  by (simp add: checkpoint_block_def Let_def ck_change_refl ck_change_metrics)

lemma ck_change_guar:
  assumes "ck_change bp bp'" and "pool_ok q v bp"
  shows "pool_ok q v bp'" and "pool_guar q v bp bp'"
proof -
  obtain m bp1 where m: "bp' = set_metrics m bp1" "dirty_page_count_m m = dirty_page_count_m (bp_metrics bp1)"
    and c: "bp1 = bp \<or> (\<exists>p. bp_step (Flush p) bp bp1) \<or> bp_step SyncAll bp bp1"
    using assms(1) by (auto simp: ck_change_def)
  have "pool_ok q v bp1 \<and> pool_guar q v bp bp1"
    using c pool_step_guar [OF _ _ assms(2)] assms(2) by (auto simp: pool_guar_def [of q v bp bp])
  then show "pool_ok q v bp'" "pool_guar q v bp bp'"
    using pool_metrics_guar [OF m(2)] pool_guar_trans by (auto simp: m(1))
qed

lemma ck_tick_manager:
  assumes t: "ck_tick now th cm = (th', cm')"
  shows "cm_config cm' = cm_config cm" and "running cm' = running cm" and "ck_change (cm_pool cm) (cm_pool cm')"
proof -
  have flush: "\<exists>bp. cm' = cm\<lparr>cm_pool := bp\<rparr> \<and> ck_change (cm_pool cm) bp" if "ck_flush th cm = (th', cm')"
  proof (cases "ck_todo th")
    case (Cons p ps)
    then show ?thesis using that ck_change_flush [of "cm_pool cm" p]
      by (auto simp: ck_flush_def Let_def split: prod.splits)
  qed (use that ck_change_refl in \<open>auto simp: ck_flush_def Let_def intro: exI [of _ "cm_pool cm"]\<close>)
  have "cm_config cm' = cm_config cm \<and> running cm' = running cm \<and> ck_change (cm_pool cm) (cm_pool cm')"
  proof (cases "ck_pc th")
    case CkFlush
    then show ?thesis using t flush by (auto simp: ck_tick_def Let_def)
  next
    case CkBegin
    then show ?thesis using t
      by (auto simp: ck_tick_def Let_def with_log_def checkpoint_record_metrics(1) intro!: ck_change_metrics split: prod.splits)
  next
    case CkTruncate
    then show ?thesis using t
      by (auto simp: ck_tick_def Let_def with_log_def checkpoint_record_metrics(5) intro!: ck_change_metrics split: prod.splits)
  next
    case CkEmptyEnd
    then show ?thesis using t
      by (auto simp: ck_tick_def Let_def with_log_def wal_append_dirty intro!: ck_change_metrics split: prod.splits)
  next
    case CkEnd
    then show ?thesis using t
      by (auto simp: ck_tick_def Let_def with_log_def wal_append_dirty intro!: ck_change_metrics split: prod.splits)
  qed (use t in \<open>auto simp: ck_tick_def Let_def ck_release_def ck_change_refl ck_change_sync ck_change_block ck_change_metrics\<close>)
  then show "cm_config cm' = cm_config cm" "running cm' = running cm" "ck_change (cm_pool cm) (cm_pool cm')" by blast+
qed

subsection \<open>How far the checkpoint has come with a page\<close>

text \<open>The pages that the thread is still going to flush.\<close>

definition ck_left :: "ckpt_thread \<Rightarrow> CheckpointConfig \<Rightarrow> PageId list" where
  "ck_left th cfg =
     (case ck_pc th of
        CkLoop \<Rightarrow> drop (ck_i th) (ck_dirty_pages th)
      | CkFlush \<Rightarrow> ck_todo th @ drop (ck_i th + checkpoint_batch_size cfg) (ck_dirty_pages th)
      | _ \<Rightarrow> [])"

definition ck_before_snapshot :: "ckpt_thread \<Rightarrow> bool" where
  "ck_before_snapshot th \<longleftrightarrow> ck_pc th \<in> {CkEnter, CkBegin, CkSnapshot}"

definition ck_synced :: "ckpt_thread \<Rightarrow> bool" where
  "ck_synced th \<longleftrightarrow> ck_pc th \<in> {CkEnd, CkForce, CkTruncate, CkRecord, CkRelease} \<or>
     ck_pc th = CkDone \<and> ck_dirty_pages th \<noteq> []"

definition ck_interrupted :: "ckpt_thread \<Rightarrow> CheckpointManager \<Rightarrow> bool" where
  "ck_interrupted th cm \<longleftrightarrow> \<not> running cm \<and> ck_trigger th \<noteq> Shutdown"

definition ck_progress :: "PageId \<Rightarrow> bytes \<Rightarrow> ckpt_thread \<Rightarrow> CheckpointManager \<Rightarrow> bool" where
  "ck_progress q v th cm \<longleftrightarrow>
     (\<not> ck_before_snapshot th \<longrightarrow>
        on_disk (cm_pool cm) q v \<or> ck_interrupted th cm \<or> q \<in> set (ck_left th (cm_config cm))) \<and>
     (ck_synced th \<longrightarrow>
        on_disk (cm_pool cm) q v \<and> durable (disk_manager (cm_pool cm)) q v \<or> ck_interrupted th cm) \<and>
     (ck_pc th \<in> {CkEmptyEnd, CkEmptyForce, CkEmptyRelease} \<longrightarrow> ck_dirty_pages th = []) \<and>
     (ck_pc th \<in> {CkLoop, CkFlush, CkSync, CkEnd, CkForce, CkTruncate, CkRecord, CkRelease} \<longrightarrow> ck_dirty_pages th \<noteq> [])"

lemma ck_progress_stable:
  assumes "ck_progress q v th cm" and "cm_config cm' = cm_config cm" and "running cm' \<longrightarrow> running cm"
    and "pool_guar q v (cm_pool cm) (cm_pool cm')"
  shows "ck_progress q v th cm'"
  using assms by (auto simp: ck_progress_def pool_guar_def ck_interrupted_def)

lemmas ck_progress_defs = ck_progress_def ck_before_snapshot_def ck_synced_def ck_left_def ck_interrupted_def

lemma ck_progress_snapshot:
  assumes "pool_ok q v (cm_pool cm)" and "ck_pc th = CkSnapshot" and "ck_tick now th cm = (th', cm')"
  shows "ck_progress q v th' cm'"
  using assms clean_on_disk [of "cm_pool cm" q v]
  by (cases "get_dirty_pages (cm_pool cm) = []") (auto simp: ck_progress_defs ck_tick_def Let_def pool_ok_def)

lemma ck_progress_loop:
  assumes p: "ck_progress q v th cm" and pc: "ck_pc th = CkLoop"
  shows "ck_progress q v (ck_loop th cm) cm"
proof -
  let ?i = "ck_i th" and ?d = "ck_dirty_pages th" and ?b = "checkpoint_batch_size (cm_config cm)"
  have "set (drop ?i ?d) = set (take (min (?i + ?b) (length ?d) - ?i) (drop ?i ?d)) \<union> set (drop (?i + ?b) ?d)"
  proof -
    have "take (min (?i + ?b) (length ?d) - ?i) (drop ?i ?d) = take ?b (drop ?i ?d)" by (simp add: min_def)
    moreover have "drop (?i + ?b) ?d = drop ?b (drop ?i ?d)" by (simp add: add.commute)
    ultimately show ?thesis by (metis append_take_drop_id set_append)
  qed
  then show ?thesis using p pc by (auto simp: ck_progress_defs ck_loop_def Let_def)
qed

lemma ck_progress_flush:
  assumes p: "ck_progress q v th cm" and pc: "ck_pc th = CkFlush" and ok: "pool_ok q v (cm_pool cm)"
    and t: "ck_flush th cm = (th', cm')" and g: "pool_guar q v (cm_pool cm) (cm_pool cm')"
  shows "ck_progress q v th' cm'"
proof (cases "ck_todo th")
  case Nil
  then show ?thesis using p pc t by (auto simp: ck_progress_defs ck_flush_def Let_def)
next
  case (Cons x xs)
  obtain b bp where f: "flush_page x (cm_pool cm) = (b, bp)" by fastforce
  have "on_disk bp q v" if "q = x"
    using flush_page_on_disk [of "cm_pool cm" q v] ok that by (simp add: f pool_ok_def)
  then show ?thesis using p pc t g Cons f by (auto simp: ck_progress_defs pool_guar_def ck_flush_def Let_def)
qed

lemma ck_progress_sync:
  assumes p: "ck_progress q v th cm" and pc: "ck_pc th = CkSync" and ok: "pool_ok q v (cm_pool cm)"
    and t: "ck_tick now th cm = (th', cm')"
  shows "ck_progress q v th' cm'"
proof -
  have "on_disk (sync_all (cm_pool cm)) q v \<and> durable (disk_sync (disk_manager (cm_pool cm))) q v"
    if "on_disk (cm_pool cm) q v"
    using that disk_sync_saves(2) [of "disk_manager (cm_pool cm)" q v] ok bp_invD(2) by (auto simp: on_disk_def pool_ok_def)
  then show ?thesis using p pc t by (auto simp: ck_progress_defs ck_tick_def Let_def)
qed

lemma ck_progress_tick:
  assumes p: "ck_progress q v th cm" and ok: "pool_ok q v (cm_pool cm)" and t: "ck_tick now th cm = (th', cm')"
  shows "ck_progress q v th' cm'"
proof -
  note man = ck_tick_manager [OF t]
  note g = ck_change_guar(2) [OF man(3) ok]
  have st: "ck_progress q v th cm'" using ck_progress_stable [OF p man(1) _ g] man(2) by blast
  show ?thesis
  proof (cases "ck_pc th")
    case CkSnapshot
    then show ?thesis using ck_progress_snapshot ok t by blast
  next
    case CkLoop
    then show ?thesis using ck_progress_loop [OF p] t by (auto simp: ck_tick_def Let_def)
  next
    case CkFlush
    then show ?thesis using ck_progress_flush [OF p _ ok _ g] t by (simp add: ck_tick_def Let_def)
  next
    case CkSync
    then show ?thesis using ck_progress_sync [OF p _ ok t] by blast
  qed (use st t in \<open>auto simp: ck_progress_defs ck_tick_def Let_def split: prod.splits\<close>)
qed

subsection \<open>Every interleaving\<close>

definition cc_inv :: "PageId \<Rightarrow> bytes \<Rightarrow> nat \<Rightarrow> ckpt_system \<Rightarrow> bool" where
  "cc_inv q v k = (\<lambda>(ths, cm). pool_ok q v (cm_pool cm) \<and> k < length ths \<and> ck_progress q v (ths ! k) cm)"

lemma cc_step_inv:
  assumes "cc_step q s s'" and "cc_inv q v k s"
  shows "cc_inv q v k s'"
  using assms
proof (cases rule: cc_step.cases)
  case (cc_tick j ths now cm th' cm')
  then have ok: "pool_ok q v (cm_pool cm)" and k: "k < length ths" and p: "ck_progress q v (ths ! k) cm"
    using assms(2) by (simp_all add: cc_inv_def)
  note man = ck_tick_manager [OF cc_tick(4)]
  note g = ck_change_guar [OF man(3) ok]
  have "ck_progress q v (ths[j := th'] ! k) cm'"
    using ck_progress_tick [OF p ok] ck_progress_stable [OF p man(1) _ g(2)] man(2) cc_tick(3,4) k
    by (cases "j = k") simp_all
  then show ?thesis using g(1) k cc_tick(2) by (simp add: cc_inv_def)
next
  case (cc_call ths cm t)
  then show ?thesis using assms(2) by (simp add: cc_inv_def nth_append)
next
  case (cc_client op cm bp' ths)
  then show ?thesis using assms(2) pool_step_guar [OF cc_client(4,3)] ck_progress_stable
    by (auto simp: cc_inv_def)
next
  case (cc_append r cm l w m ths)
  then show ?thesis
    using assms(2) pool_metrics_guar [OF wal_append_dirty [OF cc_append(3)]] ck_progress_stable [of q v "ths ! k" cm "with_log w m cm"]
    by (simp add: cc_inv_def with_log_def)
next
  case (cc_force ths cm l)
  then show ?thesis using assms(2) ck_progress_stable [of q v "ths ! k" cm "cm\<lparr>cm_wal := force l (cm_wal cm)\<rparr>"]
    by (simp add: cc_inv_def pool_guar_def)
next
  case (cc_stop ths cm)
  then show ?thesis using assms(2) ck_progress_stable [of q v "ths ! k" cm "cm\<lparr>running := False\<rparr>"]
    by (simp add: cc_inv_def pool_guar_def)
qed

interpretation concurrent: transition_invariant "cc_step q" "cc_inv q v k" for q v k
  by unfold_locales (rule cc_step_inv)


text \<open>An example: the manager of the crash example, with a fetch by a client between the snapshot and the flush.\<close>

lemma ck_run_reach:
  assumes "ck_run clk (th, cm) (th', cm')"
  shows "reach (cc_step q) ([th], cm) ([th'], cm')"
proof -
  have "\<exists>th' cm'. (ck_alone clk ^^ k) (th, cm) = (th', cm') \<and> reach (cc_step q) ([th], cm) ([th'], cm')" for k
  proof (induction k)
    case 0
    then show ?case by (simp add: reach_refl)
  next
    case (Suc k)
    then obtain th1 cm1 where s: "(ck_alone clk ^^ k) (th, cm) = (th1, cm1)" "reach (cc_step q) ([th], cm) ([th1], cm1)"
      by blast
    obtain th2 cm2 where t: "ck_tick (clk (ck_pc th1)) th1 cm1 = (th2, cm2)" by fastforce
    have "cc_step q ([th1], cm1) ([th2], cm2)" using cc_tick [of 0 "[th1]"] t by simp
    with s t show ?case by (auto simp: ck_alone_def intro: reach_step)
  qed
  then show ?thesis using assms unfolding ck_run_def by (metis prod.inject)
qed

lemma ck_run_one_page:
  assumes "ck_pc th = CkLoop" and "ck_dirty_pages th = [p]" and "ck_i th = 0" and "running cm"
    and "checkpoint_batch_size (cm_config cm) = Suc b" and "flush_page p (cm_pool cm) = (ok, bp)"
  shows "\<exists>th'. ck_run clk (th, cm) (th', cm\<lparr>cm_pool := sync_all bp\<rparr>) \<and> ck_synced th' \<and> ck_trigger th' = ck_trigger th"
proof -
  have "ck_synced (fst ((ck_alone clk ^^ 5) (th, cm))) \<and> ck_trigger (fst ((ck_alone clk ^^ 5) (th, cm))) = ck_trigger th \<and>
      snd ((ck_alone clk ^^ 5) (th, cm)) = cm\<lparr>cm_pool := sync_all bp\<rparr>"
    using assms by (simp add: eval_nat_numeral ck_alone_def ck_tick_def ck_loop_def ck_flush_def Let_def ck_synced_def)
  then show ?thesis unfolding ck_run_def by (metis prod.collapse)
qed

lemma demo_written_ok: "\<exists>v. pool_ok 0 v demo_written"
  using demo_written_pool by (auto simp: pool_ok_def)

lemma demo_concurrent_run:
  obtains ths cm where "reach (cc_step 0) ([ckpt_thread_new Manual], demo_durable) (ths, cm)" "ck_synced (ths ! 0)" "running cm"
    "length (fs_flushed (data_file (disk_manager (cm_pool cm)))) < 2 ^ 44"
proof -
  let ?cb = "checkpoint_block Manual demo_durable"
  obtain l1 w1 m1 where b: "write_checkpoint_begin (cm_wal demo_durable) (bp_metrics (cm_pool ?cb)) = (l1, w1, m1)"
    using prod_cases3 by blast
  let ?cm1 = "with_log w1 m1 ?cb" and ?bp1 = "set_metrics m1 demo_written"
  let ?bp2 = "snd (fetch_page 0 ?bp1)"
  have dirty: "get_dirty_pages (cm_pool demo_durable) = [0]"
    using demo_durable_state(4) by (auto simp: demo_durable_state(1) get_dirty_pages_def demo_written_state(2) split: if_splits)
  have pool1: "cm_pool ?cm1 = ?bp1" by (simp add: with_log_def checkpoint_block_def demo_durable_state(1))
  have run: "running demo_durable" by (simp add: demo_durable_def ckpt_start_def)
  obtain v where "pool_ok 0 v demo_written" using demo_written_ok by blast
  then have "pool_ok 0 v ?bp1"
    using pool_metrics_guar(1) [of m1 demo_written] checkpoint_record_metrics(1) [OF b] by (simp add: demo_durable_state(1))
  from pool_step_guar(1) [OF step_fetch [of 0] _ this] have ok2: "pool_ok 0 v ?bp2" by simp
  obtain ok bp3 where f: "flush_page 0 ?bp2 = (ok, bp3)" by fastforce
  from pool_step_guar(1) [OF step_flush [of 0] _ ok2] have ok3: "pool_ok 0 v bp3" by (simp add: f)
  let ?th = "ck_after_snapshot Manual 0 l1 [0]" and ?cm2 = "?cm1\<lparr>cm_pool := ?bp2\<rparr>"
  have 1: "reach (cc_step 0) ([ckpt_thread_new Manual], demo_durable) ([?th], ?cm1)"
    by (rule ck_run_reach) (use ck_run_prologue [OF b, of "\<lambda>_. 0"] in \<open>simp add: dirty ck_after_snapshot_def\<close>)
  have 2: "cc_step 0 ([?th], ?cm1) ([?th], ?cm2)" by (rule cc_client [of 0 "Fetch 0"]) (simp_all add: pool1 step_fetch)
  obtain th' where th': "ck_run (\<lambda>_. 0) (?th, ?cm2) (th', ?cm2\<lparr>cm_pool := sync_all bp3\<rparr>)" "ck_synced th'"
    using ck_run_one_page [of ?th 0 ?cm2 255 ok bp3 "\<lambda>_. 0"] f run
    by (auto simp: with_log_def demo_durable_state(2))
  let ?cm3 = "?cm2\<lparr>cm_pool := sync_all bp3\<rparr>"
  have r: "reach (cc_step 0) ([ckpt_thread_new Manual], demo_durable) ([th'], ?cm3)"
    by (rule reach_trans [OF ck_run_reach [OF th'(1)] reach_step [OF 1 2]])
  have "length (file_bytes (disk_manager bp3)) = length (file_bytes (disk_manager ?bp1))"
    using flush_page_length [of ?bp2 0] ok2 f by (simp add: pool_ok_def fetch_page_def demo_written_state(2))
  moreover have "fs_flushed (data_file (disk_sync (disk_manager bp3))) = file_bytes (disk_manager bp3)"
    using disk_sync_reliable(2) ok3 bp_invD(2) by (auto simp: pool_ok_def)
  ultimately have "length (fs_flushed (data_file (disk_manager (cm_pool ?cm3)))) < 2 ^ 44"
    using demo_durable_state(1,5) by simp
  then show thesis using that [OF r] th'(2) run by (simp add: with_log_def)
qed


section \<open>The checkpoint ends, whatever the others do\<close>

text \<open>The number of steps the thread has left at most, in a pool of \<open>n\<close> frames.\<close>

definition ck_work :: "nat \<Rightarrow> nat \<Rightarrow> ckpt_thread \<Rightarrow> nat" where
  "ck_work n b th =
     (case ck_pc th of
        CkEnter \<Rightarrow> 10 + 3 * n | CkBegin \<Rightarrow> 9 + 3 * n | CkSnapshot \<Rightarrow> 8 + 3 * n
      | CkEmptyEnd \<Rightarrow> 3 | CkEmptyForce \<Rightarrow> 2 | CkEmptyRelease \<Rightarrow> 1
      | CkLoop \<Rightarrow> 7 + 3 * (length (ck_dirty_pages th) - ck_i th)
      | CkFlush \<Rightarrow> 8 + 3 * (length (ck_dirty_pages th) - (ck_i th + b)) + length (ck_todo th)
      | CkSync \<Rightarrow> 6 | CkEnd \<Rightarrow> 5 | CkForce \<Rightarrow> 4 | CkTruncate \<Rightarrow> 3 | CkRecord \<Rightarrow> 2 | CkRelease \<Rightarrow> 1 | CkDone \<Rightarrow> 0)"

lemma ck_work_done: "ck_work n b th = 0 \<longleftrightarrow> ck_pc th = CkDone"
  by (simp add: ck_work_def split: ckpt_pc.split)

lemma ck_work_decreases:
  assumes t: "ck_tick now th cm = (th', cm')" and b: "checkpoint_batch_size (cm_config cm) = b" "0 < b"
    and d: "length (get_dirty_pages (cm_pool cm)) \<le> n" and pc: "ck_pc th \<noteq> CkDone"
  shows "ck_work n b th' < ck_work n b th"
proof (cases "ck_pc th")
  case CkLoop
  then show ?thesis using t b by (auto simp: ck_work_def ck_tick_def ck_loop_def Let_def min_def)
next
  case CkFlush
  then show ?thesis using t b
    by (cases "ck_todo th") (auto simp: ck_work_def ck_tick_def ck_flush_def Let_def split: prod.splits)
next
  case CkSnapshot
  then show ?thesis using t d
    by (cases "get_dirty_pages (cm_pool cm) = []") (auto simp: ck_work_def ck_tick_def Let_def)
qed (use t pc in \<open>auto simp: ck_work_def ck_tick_def Let_def split: prod.splits\<close>)

lemma dirty_pages_bound:
  assumes "bp_inv bp"
  shows "length (get_dirty_pages bp) \<le> pool_size bp"
proof -
  have "dirty_frames bp \<le> length (frames bp)" by (simp add: dirty_frames_def)
  then show ?thesis using get_dirty_pages_count(1) [OF assms] bp_invD(1,4) [OF assms] by simp
qed

text \<open>The thread among others, seen from itself: the states of the manager in which its steps are taken are arbitrary.\<close>

fun ck_local :: "(nat \<Rightarrow> int) \<Rightarrow> (nat \<Rightarrow> CheckpointManager) \<Rightarrow> nat \<Rightarrow> ckpt_thread \<Rightarrow> ckpt_thread" where
  "ck_local now cms 0 th = th"
| "ck_local now cms (Suc k) th = fst (ck_tick (now k) (ck_local now cms k th) (cms k))"

text \<open>C16. A checkpoint cannot be kept from ending by clients that dirty pages as fast as it flushes them: it works on
  its snapshot, so that it ends after at most ten steps and three for every frame of the pool, whatever the states in
  which the other threads let it take them.\<close>

theorem concurrent_checkpoint_ends:
  assumes "\<And>k. bp_inv (cm_pool (cms k))" and "\<And>k. pool_size (cm_pool (cms k)) = n"
    and "\<And>k. checkpoint_batch_size (cm_config (cms k)) = b" and "0 < b"
  shows "ck_pc (ck_local now cms (10 + 3 * n) (ckpt_thread_new t)) = CkDone"
proof -
  let ?th = "\<lambda>k. ck_local now cms k (ckpt_thread_new t)"
  have "ck_work n b (?th k) + k \<le> 10 + 3 * n \<or> ck_pc (?th k) = CkDone" for k
  proof (induction k)
    case 0
    then show ?case by (simp add: ck_work_def ckpt_thread_new_def)
  next
    case (Suc k)
    obtain th' cm' where t: "ck_tick (now k) (?th k) (cms k) = (th', cm')" by fastforce
    show ?case
    proof (cases "ck_pc (?th k) = CkDone")
      case True
      then show ?thesis using t by (auto simp: ck_tick_def Let_def)
    next
      case False
      have "length (get_dirty_pages (cm_pool (cms k))) \<le> n" using dirty_pages_bound [OF assms(1)] assms(2) by metis
      from ck_work_decreases [OF t assms(3,4) this False] Suc False t show ?thesis by simp
    qed
  qed
  from this [of "10 + 3 * n"] show ?thesis using ck_work_done by auto
qed

theorem concurrent_checkpoint_ends_witness:
  "ck_pc (ck_local (\<lambda>_. 0) (\<lambda>_. demo_manager) 13 (ckpt_thread_new Manual)) = CkDone"
  using concurrent_checkpoint_ends [of "\<lambda>_. demo_manager" 1 256 "\<lambda>_. 0" Manual] demo_manager_inv
  by (simp add: demo_manager_state demo_dirty_state)

end
