(* ===== verification/Pressure_Wait.thy ===== *)
theory Pressure_Wait
  imports Checkpoint_Props
begin

text \<open>
  \<open>CheckpointManager::check_pressure\<close> and the end of a blocking checkpoint as threads. Transactions that call
  \<open>check_pressure\<close> load \<open>blocking_mode_\<close>, lock \<open>block_mutex_\<close>, evaluate the predicate of the condition variable and, if it
  is false, fall asleep, which releases the mutex in the same step. \<open>do_checkpoint\<close> clears \<open>blocking_mode_\<close> and calls
  \<open>notify_all\<close> without the mutex. Shown are the mutual exclusion, that no transaction goes on under pressure, and that
  the notification can fall between the predicate and the sleep, where it wakes nobody. A wake-up without a cause, which
  the standard permits and does not promise, is not a step.
\<close>

section \<open>The threads\<close>

datatype waiter_pc = PwLoad | PwLock | PwTest | PwPark | PwAsleep | PwReturn bool

record pressure =
  ps_manager :: CheckpointManager
  ps_mutex :: "nat option" \<comment> \<open>the thread that holds \<open>block_mutex_\<close>\<close>
  ps_waiters :: "waiter_pc list"

definition set_waiter :: "nat \<Rightarrow> waiter_pc \<Rightarrow> pressure \<Rightarrow> pressure" where
  "set_waiter k pc s = s\<lparr>ps_waiters := (ps_waiters s)[k := pc]\<rparr>"

text \<open>One step of a transaction in \<open>check_pressure\<close>. A thread that was notified locks the mutex again and evaluates the
  predicate again, as \<open>wait\<close> with a predicate does.\<close>

definition pw_waiter :: "nat \<Rightarrow> pressure \<Rightarrow> pressure" where
  "pw_waiter k s =
     (case ps_waiters s ! k of
        PwLoad \<Rightarrow> set_waiter k (if blocking_mode (ps_manager s) then PwLock else PwReturn False) s
      | PwLock \<Rightarrow> (if ps_mutex s = None then (set_waiter k PwTest s)\<lparr>ps_mutex := Some k\<rparr> else s)
      | PwTest \<Rightarrow> (if pressure_over (ps_manager s) then (set_waiter k (PwReturn True) s)\<lparr>ps_mutex := None\<rparr>
                   else set_waiter k PwPark s)
      | PwPark \<Rightarrow> (set_waiter k PwAsleep s)\<lparr>ps_mutex := None\<rparr>
      | PwAsleep \<Rightarrow> s
      | PwReturn b \<Rightarrow> s)"

text \<open>The stores at the end of \<open>do_checkpoint\<close>, and \<open>notify_all\<close>.\<close>

definition pw_clear :: "pressure \<Rightarrow> pressure" where
  "pw_clear s = s\<lparr>ps_manager := (ps_manager s)\<lparr>checkpoint_in_progress := False, blocking_mode := False\<rparr>\<rparr>"

definition pw_notify :: "pressure \<Rightarrow> pressure" where
  "pw_notify s = s\<lparr>ps_waiters := map (\<lambda>pc. if pc = PwAsleep then PwLock else pc) (ps_waiters s)\<rparr>"

datatype pw_event =
    PwWaiter nat | PwCall
  | PwBegin CheckpointTrigger \<comment> \<open>the start of a checkpoint\<close>
  | PwClear | PwNotify
  | PwStop \<comment> \<open>\<open>running_.exchange(false)\<close>\<close>

fun pw_step :: "pw_event \<Rightarrow> pressure \<Rightarrow> pressure" where
  "pw_step (PwWaiter k) s = (if k < length (ps_waiters s) then pw_waiter k s else s)"
| "pw_step PwCall s = s\<lparr>ps_waiters := ps_waiters s @ [PwLoad]\<rparr>"
| "pw_step (PwBegin t) s = s\<lparr>ps_manager := checkpoint_block t (ps_manager s)\<rparr>"
| "pw_step PwClear s = pw_clear s"
| "pw_step PwNotify s = pw_notify s"
| "pw_step PwStop s = s\<lparr>ps_manager := (ps_manager s)\<lparr>running := False\<rparr>\<rparr>"

section \<open>Mutual exclusion\<close>

definition pw_any_step :: "pressure \<Rightarrow> pressure \<Rightarrow> bool" where
  "pw_any_step s s' \<longleftrightarrow> (\<exists>e. s' = pw_step e s)"

definition pw_inv :: "pressure \<Rightarrow> bool" where
  "pw_inv s \<longleftrightarrow> (\<forall>k < length (ps_waiters s). ps_waiters s ! k \<in> {PwTest, PwPark} \<longleftrightarrow> ps_mutex s = Some k) \<and>
     (\<forall>k. ps_mutex s = Some k \<longrightarrow> k < length (ps_waiters s))"

lemma pw_inv_move:
  "pw_inv s \<Longrightarrow> k < length (ps_waiters s) \<Longrightarrow> (pc \<in> {PwTest, PwPark} \<longleftrightarrow> ps_waiters s ! k \<in> {PwTest, PwPark}) \<Longrightarrow>
     pw_inv (set_waiter k pc s)"
  by (simp add: pw_inv_def set_waiter_def nth_list_update)

lemma pw_inv_acquire:
  "pw_inv s \<Longrightarrow> k < length (ps_waiters s) \<Longrightarrow> ps_mutex s = None \<Longrightarrow> pw_inv ((set_waiter k PwTest s)\<lparr>ps_mutex := Some k\<rparr>)"
  by (simp add: pw_inv_def set_waiter_def nth_list_update)

lemma pw_inv_release:
  "pw_inv s \<Longrightarrow> k < length (ps_waiters s) \<Longrightarrow> ps_waiters s ! k \<in> {PwTest, PwPark} \<Longrightarrow> pc \<notin> {PwTest, PwPark} \<Longrightarrow>
     pw_inv ((set_waiter k pc s)\<lparr>ps_mutex := None\<rparr>)"
  by (auto simp: pw_inv_def set_waiter_def nth_list_update)

lemma pw_waiter_inv:
  assumes "pw_inv s" and "k < length (ps_waiters s)"
  shows "pw_inv (pw_waiter k s)"
  using assms pw_inv_move [OF assms] pw_inv_acquire [OF assms] pw_inv_release [OF assms]
  by (simp add: pw_waiter_def split: waiter_pc.split)

lemma pw_step_inv:
  assumes "pw_inv s"
  shows "pw_inv (pw_step e s)"
proof (cases e)
  case PwCall
  then show ?thesis using assms by (auto simp: pw_inv_def nth_append less_Suc_eq)
next
  case PwNotify
  then show ?thesis using assms by (auto simp: pw_inv_def pw_notify_def)
qed (use assms pw_waiter_inv in \<open>auto simp: pw_inv_def pw_clear_def\<close>)

interpretation pressure: transition_invariant pw_any_step pw_inv
  by unfold_locales (auto simp: pw_any_step_def pw_step_inv)

section \<open>What a transaction that goes on has seen\<close>

text \<open>A transaction leaves \<open>check_pressure\<close> only in a state in which the manager does not block, or no longer runs.\<close>

lemma pw_return_seen:
  assumes "k < length (ps_waiters s)" and "ps_waiters (pw_step e s) ! k = PwReturn b" and "ps_waiters s ! k \<noteq> PwReturn b"
  shows "pressure_over (ps_manager s) \<and> (b \<longleftrightarrow> ps_waiters s ! k = PwTest)"
proof (cases e)
  case (PwWaiter j)
  then show ?thesis using assms
    by (cases "j = k"; cases "ps_waiters s ! j")
       (auto simp: pw_waiter_def set_waiter_def pressure_over_def split: if_splits)
qed (use assms in \<open>auto simp: pw_clear_def pw_notify_def nth_append split: if_splits\<close>)

section \<open>The notification\<close>

lemma pw_asleep_stays:
  assumes "k < length (ps_waiters s)" and "ps_waiters s ! k = PwAsleep" and "e \<noteq> PwNotify"
  shows "k < length (ps_waiters (pw_step e s)) \<and> ps_waiters (pw_step e s) ! k = PwAsleep"
proof (cases e)
  case (PwWaiter j)
  then show ?thesis using assms
    by (cases "j = k"; cases "ps_waiters s ! j") (auto simp: pw_waiter_def set_waiter_def)
qed (use assms in \<open>auto simp: pw_clear_def nth_append\<close>)

lemma pw_asleep_stays_run:
  assumes "k < length (ps_waiters s)" and "ps_waiters s ! k = PwAsleep" and "PwNotify \<notin> set es"
  shows "ps_waiters (fold pw_step es s) ! k = PwAsleep"
  using assms
proof (induction es arbitrary: s)
  case (Cons e es)
  then show ?case using pw_asleep_stays [of k s e] by auto
qed simp

text \<open>C17. A transaction that waits for a blocking checkpoint can miss its end. If it has fallen asleep before the
  checkpoint clears its flag and notifies, it wakes up and goes on. But the checkpoint does both without the mutex of the
  condition variable, and if it does so after the transaction has evaluated the predicate and before it sleeps, nothing
  blocks any more and the transaction sleeps on, in every run without a further notification, that is, until some later
  checkpoint ends or the manager is shut down.\<close>

theorem pressure_wakeup_lost:
  assumes "ps_waiters s ! k = PwLoad" and "k < length (ps_waiters s)" and "ps_mutex s = None"
    and "blocking_mode (ps_manager s)" and "running (ps_manager s)"
  defines "w \<equiv> PwWaiter k"
  shows "ps_waiters (fold pw_step [w, w, w, w, PwClear, PwNotify, w, w] s) ! k = PwReturn True \<and>
    \<not> blocking_mode (ps_manager (fold pw_step [w, w, w, PwClear, PwNotify, w] s)) \<and>
    (\<forall>es. PwNotify \<notin> set es \<longrightarrow> ps_waiters (fold pw_step ([w, w, w, PwClear, PwNotify, w] @ es) s) ! k = PwAsleep)"
proof -
  let ?s = "fold pw_step [w, w, w, PwClear, PwNotify, w] s"
  note defs = w_def pw_waiter_def set_waiter_def pw_clear_def pw_notify_def pressure_over_def
  have "ps_waiters (fold pw_step [w, w, w, w, PwClear, PwNotify, w, w] s) ! k = PwReturn True"
    using assms(1-5) by (simp add: defs)
  moreover have "\<not> blocking_mode (ps_manager ?s) \<and> k < length (ps_waiters ?s) \<and> ps_waiters ?s ! k = PwAsleep"
    using assms(1-5) by (simp add: defs)
  moreover have "ps_waiters (fold pw_step ([w, w, w, PwClear, PwNotify, w] @ es) s) ! k = PwAsleep" if "PwNotify \<notin> set es" for es
    using pw_asleep_stays_run [of k ?s es] calculation(2) that by simp
  ultimately show ?thesis by blast
qed

theorem pressure_wakeup_lost_witness:
  "ps_waiters (fold pw_step ([PwWaiter 0, PwWaiter 0, PwWaiter 0, PwClear, PwNotify, PwWaiter 0] @ replicate 5 (PwWaiter 0))
     \<lparr>ps_manager = checkpoint_block DirtyHardLimit demo_manager, ps_mutex = None, ps_waiters = [PwLoad]\<rparr>) ! 0 = PwAsleep"
proof -
  let ?s = "\<lparr>ps_manager = checkpoint_block DirtyHardLimit demo_manager, ps_mutex = None, ps_waiters = [PwLoad]\<rparr>"
  have "blocking_mode (ps_manager ?s)" "running (ps_manager ?s)"
    by (simp_all add: checkpoint_block_def Let_def demo_manager_state)
  then have *: "\<forall>es. PwNotify \<notin> set es \<longrightarrow> ps_waiters (fold pw_step
      ([PwWaiter 0, PwWaiter 0, PwWaiter 0, PwClear, PwNotify, PwWaiter 0] @ es) ?s) ! 0 = PwAsleep"
    using pressure_wakeup_lost [of ?s 0] by (simp del: fold_append)
  show ?thesis by (rule * [rule_format]) simp
qed

end
