(* ===== verification/Storage_Engine.thy ===== *)
theory Storage_Engine
  imports Checkpoint_Props
begin

text \<open>
  \<open>src/core/storage_engine.hpp\<close> and \<open>storage_engine.cpp\<close>: the engine that owns the storage subsystems
  and the in-memory tables. The shared pointers are the datatype \<open>subsystems\<close>, whose constructors are
  the combinations of null and set pointers that the code produces; the checkpoint manager contains the
  pool, the log and the metrics it shares. The hash table of tables is an association list. The files
  that an engine finds when it starts are arguments of \<open>initialize\<close>, those it leaves are a result of
  \<open>shutdown\<close>. Sizes are natural numbers: they count bytes and rows held in memory.
\<close>

section \<open>State\<close>

record Table =
  tbl_columns :: "string list"
  tbl_rows :: "string list list"
  size_bytes :: nat

record Config =
  buffer_pool_pages :: nat
  checkpoint_cfg :: CheckpointConfig

definition default_config :: Config where
  "default_config = \<lparr>buffer_pool_pages = 10000, checkpoint_cfg = default_checkpoint_config\<rparr>"

datatype subsystems =
    NoSubsystems
  | DiskOnly CheckpointMetrics DiskManager
  | DiskAndWal CheckpointMetrics DiskManager WriteAheadLog
  | Running CheckpointManager
  | Stopped CheckpointMetrics

record StorageEngine =
  se_config :: Config
  se_initialized :: bool
  se_subsystems :: subsystems
  se_tables :: "(string \<times> Table) list"
  cache_hits :: u64
  cache_misses :: u64

definition StorageEngine_new :: "Config \<Rightarrow> StorageEngine" where
  "StorageEngine_new cfg =
     \<lparr>se_config = cfg, se_initialized = False, se_subsystems = NoSubsystems, se_tables = [],
      cache_hits = 0, cache_misses = 0\<rparr>"

section \<open>Table operations\<close>

definition calculate_table_size :: "Table \<Rightarrow> nat" where
  "calculate_table_size t =
     sum_list (map length (tbl_columns t)) + sum_list (map (\<lambda>row. sum_list (map length row)) (tbl_rows t))"

definition create_table :: "string \<Rightarrow> string list \<Rightarrow> StorageEngine \<Rightarrow> bool \<times> StorageEngine" where
  "create_table name columns se =
     (if map_of (se_tables se) name \<noteq> None then (False, se)
      else (True, se\<lparr>se_tables := AList.update name \<lparr>tbl_columns = columns, tbl_rows = [], size_bytes = 0\<rparr>
                       (se_tables se)\<rparr>))"

definition drop_table :: "string \<Rightarrow> StorageEngine \<Rightarrow> bool \<times> StorageEngine" where
  "drop_table name se =
     (if map_of (se_tables se) name = None then (False, se)
      else (True, se\<lparr>se_tables := AList.delete name (se_tables se)\<rparr>))"

definition list_tables :: "StorageEngine \<Rightarrow> string list" where
  "list_tables se = map fst (se_tables se)"

definition get_table_columns :: "string \<Rightarrow> StorageEngine \<Rightarrow> string list" where
  "get_table_columns table se =
     (case map_of (se_tables se) table of None \<Rightarrow> [] | Some t \<Rightarrow> tbl_columns t)"

text \<open>
  \<open>checkpoint_manager_->check_pressure()\<close> before a modification; \<open>later\<close> are the states in which the
  waiting thread wakes up, and an operation whose caller still waits is \<open>None\<close>.
\<close>

definition admitted :: "CheckpointManager list \<Rightarrow> StorageEngine \<Rightarrow> bool" where
  "admitted later se =
     (case se_subsystems se of Running cm \<Rightarrow> check_pressure cm later \<noteq> None | _ \<Rightarrow> True)"

definition put_table :: "string \<Rightarrow> Table \<Rightarrow> StorageEngine \<Rightarrow> StorageEngine" where
  "put_table name t se =
     se\<lparr>se_tables := AList.update name (t\<lparr>size_bytes := calculate_table_size t\<rparr>) (se_tables se)\<rparr>"

definition insert_row :: "string \<Rightarrow> string list \<Rightarrow> StorageEngine \<Rightarrow> bool \<times> StorageEngine" where
  "insert_row table vals se =
     (case map_of (se_tables se) table of
        None \<Rightarrow> (False, se)
      | Some t \<Rightarrow>
          (if length vals \<noteq> length (tbl_columns t) then (False, se)
           else (True, put_table table (t\<lparr>tbl_rows := tbl_rows t @ [vals]\<rparr>) se)))"

definition se_insert ::
  "CheckpointManager list \<Rightarrow> string \<Rightarrow> string list \<Rightarrow> StorageEngine \<Rightarrow> (bool \<times> StorageEngine) option" where
  "se_insert later table vals se = (if admitted later se then Some (insert_row table vals se) else None)"

definition se_select :: "string \<Rightarrow> StorageEngine \<Rightarrow> string list list \<times> StorageEngine" where
  "se_select table se =
     (case map_of (se_tables se) table of
        None \<Rightarrow> ([], se)
      | Some t \<Rightarrow> (tbl_rows t, se\<lparr>cache_hits := cache_hits se + 1\<rparr>))"

definition se_update ::
  "CheckpointManager list \<Rightarrow> string \<Rightarrow> nat \<Rightarrow> string list \<Rightarrow> StorageEngine \<Rightarrow> (bool \<times> StorageEngine) option" where
  "se_update later table row_id vals se =
     (if \<not> admitted later se then None
      else Some (case map_of (se_tables se) table of
        None \<Rightarrow> (False, se)
      | Some t \<Rightarrow>
          (if length (tbl_rows t) \<le> row_id then (False, se)
           else if length vals \<noteq> length (tbl_columns t) then (False, se)
           else (True, put_table table (t\<lparr>tbl_rows := (tbl_rows t)[row_id := vals]\<rparr>) se))))"

definition se_remove ::
  "CheckpointManager list \<Rightarrow> string \<Rightarrow> nat \<Rightarrow> StorageEngine \<Rightarrow> (bool \<times> StorageEngine) option" where
  "se_remove later table row_id se =
     (if \<not> admitted later se then None
      else Some (case map_of (se_tables se) table of
        None \<Rightarrow> (False, se)
      | Some t \<Rightarrow>
          (if length (tbl_rows t) \<le> row_id then (False, se)
           else (True, put_table table
             (t\<lparr>tbl_rows := take row_id (tbl_rows t) @ drop (Suc row_id) (tbl_rows t)\<rparr>) se))))"

section \<open>Life cycle\<close>

text \<open>The files an engine finds: the data file and the log directory, with the outcomes of the I/O on them.\<close>

record storage_files =
  data_db :: "bytes option"
  data_env :: "nat \<Rightarrow> io_outcome"
  wal_segments :: directory
  wal_outcomes :: "nat \<Rightarrow> io_outcome"

definition demo_tables :: "StorageEngine \<Rightarrow> StorageEngine" where
  "demo_tables se = fold (\<lambda>f se. f se)
     [snd \<circ> create_table ''users'' [''id'', ''name'', ''email'', ''created_at''],
      snd \<circ> insert_row ''users'' [''1'', ''Alice'', ''alice@example.com'', ''2024-01-01''],
      snd \<circ> insert_row ''users'' [''2'', ''Bob'', ''bob@example.com'', ''2024-01-02''],
      snd \<circ> insert_row ''users'' [''3'', ''Charlie'', ''charlie@example.com'', ''2024-01-03''],
      snd \<circ> create_table ''products'' [''id'', ''name'', ''price'', ''stock''],
      snd \<circ> insert_row ''products'' [''1'', ''Laptop'', ''999.99'', ''10''],
      snd \<circ> insert_row ''products'' [''2'', ''Mouse'', ''29.99'', ''50''],
      snd \<circ> insert_row ''products'' [''3'', ''Keyboard'', ''79.99'', ''30''],
      snd \<circ> create_table ''orders'' [''id'', ''user_id'', ''product_id'', ''quantity'', ''total''],
      snd \<circ> insert_row ''orders'' [''1'', ''1'', ''1'', ''1'', ''999.99''],
      snd \<circ> insert_row ''orders'' [''2'', ''2'', ''2'', ''2'', ''59.98'']] se"

text \<open>
  \<open>initialize\<close>. The inserts of the example rows meet a manager that was started a moment ago and does not
  block. \<open>now\<close> is the reading of the clock.
\<close>

definition se_initialize :: "storage_files \<Rightarrow> int \<Rightarrow> StorageEngine \<Rightarrow> bool \<times> StorageEngine" where
  "se_initialize files now se =
     (if se_initialized se then (True, se)
      else let m = initial_metrics now;
               (disk_ok, dm) = disk_initialize (DiskManager_new (data_db files) (data_env files))
           in if \<not> disk_ok then (False, se\<lparr>se_subsystems := DiskOnly m dm\<rparr>)
              else let (wal_ok, w, m1) = wal_initialize
                         (WriteAheadLog_new (wal_segments files) (64 * 1024 * 1024) (wal_outcomes files)) m
                   in if \<not> wal_ok then (False, se\<lparr>se_subsystems := DiskAndWal m1 dm w\<rparr>)
                      else let bp = BufferPool_new (buffer_pool_pages (se_config se)) dm m1;
                               cm = ckpt_start (CheckpointManager_new (checkpoint_cfg (se_config se)) bp w now)
                           in (True, (demo_tables (se\<lparr>se_subsystems := Running cm\<rparr>))\<lparr>se_initialized := True\<rparr>))"

text \<open>
  \<open>shutdown\<close>: the final checkpoint, the destructor of the pool, the log, the disk manager, the tables. The
  second component of the result are the disk manager and the log at the moment they are destroyed.
\<close>

definition se_shutdown ::
  "int \<Rightarrow> int \<Rightarrow> int \<Rightarrow> StorageEngine \<Rightarrow> (StorageEngine \<times> (DiskManager \<times> WriteAheadLog) option) option" where
  "se_shutdown t0 t1 t2 se =
     (if \<not> se_initialized se then Some (se, None)
      else case se_subsystems se of
        Running cm \<Rightarrow>
          (case ckpt_shutdown t0 t1 t2 cm of
             None \<Rightarrow> None
           | Some cm' \<Rightarrow>
               (let bp = BufferPool_destroy (cm_pool cm');
                    w = wal_shutdown (cm_wal cm');
                    dm = disk_shutdown (disk_manager bp)
                in Some (se\<lparr>se_subsystems := Stopped (bp_metrics bp), se_tables := [], se_initialized := False\<rparr>,
                         Some (dm, w))))
      | _ \<Rightarrow> Some (se\<lparr>se_tables := [], se_initialized := False\<rparr>, None))"

section \<open>Checkpoints and statistics\<close>

definition se_checkpoint ::
  "(nat \<Rightarrow> bool) \<Rightarrow> int \<Rightarrow> int \<Rightarrow> int \<Rightarrow> StorageEngine \<Rightarrow> StorageEngine option" where
  "se_checkpoint run t0 t1 t2 se =
     (case se_subsystems se of
        Running cm \<Rightarrow> map_option (\<lambda>cm'. se\<lparr>se_subsystems := Running cm'\<rparr>) (manual_checkpoint run t0 t1 t2 cm)
      | _ \<Rightarrow> Some se)"

definition check_memory_pressure :: "CheckpointManager list \<Rightarrow> StorageEngine \<Rightarrow> bool option" where
  "check_memory_pressure later se =
     (case se_subsystems se of Running cm \<Rightarrow> check_pressure cm later | _ \<Rightarrow> Some False)"

definition table_count :: "StorageEngine \<Rightarrow> nat" where
  "table_count se = length (se_tables se)"

definition total_records :: "StorageEngine \<Rightarrow> nat" where
  "total_records se = sum_list (map (\<lambda>(name, t). length (tbl_rows t)) (se_tables se))"

definition se_total_size :: "StorageEngine \<Rightarrow> nat" where
  "se_total_size se = sum_list (map (\<lambda>(name, t). size_bytes t) (se_tables se))"

definition index_count :: "StorageEngine \<Rightarrow> nat" where
  "index_count se = 0"

definition buffer_pool_usage :: "StorageEngine \<Rightarrow> nat" where
  "buffer_pool_usage se = (case se_subsystems se of Running cm \<Rightarrow> bp_page_count (cm_pool cm) | _ \<Rightarrow> 0)"

definition memory_usage :: "StorageEngine \<Rightarrow> nat" where
  "memory_usage se = se_total_size se + buffer_pool_usage se * PAGE_SIZE"

definition disk_usage :: "StorageEngine \<Rightarrow> u64" where
  "disk_usage se =
     (case se_subsystems se of
        DiskOnly _ dm \<Rightarrow> data_file_size dm
      | DiskAndWal _ dm _ \<Rightarrow> data_file_size dm
      | Running cm \<Rightarrow> data_file_size (disk_manager (cm_pool cm))
      | _ \<Rightarrow> 0)"

definition cache_hit_ratio :: "StorageEngine \<Rightarrow> f32" where
  "cache_hit_ratio se =
     (let total = cache_hits se + cache_misses se
      in if total = 0 then Fin 1 else f32_div (f32_of_nat (unat (cache_hits se))) (f32_of_nat (unat total)))"

definition table_record_count :: "string \<Rightarrow> StorageEngine \<Rightarrow> nat" where
  "table_record_count table se =
     (case map_of (se_tables se) table of None \<Rightarrow> 0 | Some t \<Rightarrow> length (tbl_rows t))"

definition table_size :: "string \<Rightarrow> StorageEngine \<Rightarrow> nat" where
  "table_size table se = (case map_of (se_tables se) table of None \<Rightarrow> 0 | Some t \<Rightarrow> size_bytes t)"

definition dirty_page_count :: "StorageEngine \<Rightarrow> u64" where
  "dirty_page_count se = (case se_subsystems se of Running cm \<Rightarrow> dirty_count (cm_pool cm) | _ \<Rightarrow> 0)"

definition wal_size :: "StorageEngine \<Rightarrow> u64" where
  "wal_size se =
     (case se_subsystems se of
        DiskAndWal _ _ w \<Rightarrow> wal_current_size w | Running cm \<Rightarrow> wal_current_size (cm_wal cm) | _ \<Rightarrow> 0)"

definition se_checkpoint_count :: "StorageEngine \<Rightarrow> u64" where
  "se_checkpoint_count se =
     (case se_subsystems se of
        NoSubsystems \<Rightarrow> 0
      | DiskOnly m _ \<Rightarrow> checkpoint_count m
      | DiskAndWal m _ _ \<Rightarrow> checkpoint_count m
      | Running cm \<Rightarrow> checkpoint_count (bp_metrics (cm_pool cm))
      | Stopped m \<Rightarrow> checkpoint_count m)"

text \<open>
  \<open>create_backup\<close>: a checkpoint, then the data file is copied; \<open>dir_ok\<close> and \<open>copy_ok\<close> tell whether the two
  calls of the file system succeed, an exception in either of them gives \<open>false\<close>. The copy holds the bytes
  that have been flushed to the file.
\<close>

definition create_backup ::
  "(nat \<Rightarrow> bool) \<Rightarrow> int \<Rightarrow> int \<Rightarrow> int \<Rightarrow> bool \<Rightarrow> bool \<Rightarrow> StorageEngine \<Rightarrow>
   (bool \<times> bytes option \<times> StorageEngine) option" where
  "create_backup run t0 t1 t2 dir_ok copy_ok se =
     (case se_checkpoint run t0 t1 t2 se of
        None \<Rightarrow> None
      | Some se' \<Rightarrow>
          (let disk = (case se_subsystems se' of
                 DiskOnly _ dm \<Rightarrow> Some dm | DiskAndWal _ dm _ \<Rightarrow> Some dm
               | Running cm \<Rightarrow> Some (disk_manager (cm_pool cm)) | _ \<Rightarrow> None)
           in Some (if \<not> dir_ok then (False, None, se')
                    else case disk of
                      None \<Rightarrow> (True, None, se')
                    | Some dm \<Rightarrow>
                        (if \<not> file_present dm then (True, None, se')
                         else if \<not> copy_ok then (False, None, se')
                         else (True, Some (fs_flushed (data_file dm)), se')))))"

end
