(* ===== verification/Table_Store.thy ===== *)
theory Table_Store
  imports Storage_Engine
begin

text \<open>
  The contract of the tables of the engine: a finite map from names to columns and rows. The locale states
  what a client relies on, its lemmas say what a session of inserts leaves; the interpretation proves the
  contract for the operations of \<open>StorageEngine\<close>. An operation that returns \<open>None\<close> still waits for a
  checkpoint; \<open>ready\<close> are the states in which no operation waits.
\<close>

section \<open>The contract\<close>

type_synonym relation = "string list \<times> string list list"

text \<open>A client that stores rows one after the other and does not look at the results.\<close>

fun insert_all :: "('r \<Rightarrow> 's \<Rightarrow> (bool \<times> 's) option) \<Rightarrow> 'r list \<Rightarrow> 's \<Rightarrow> 's option" where
  "insert_all ins [] s = Some s"
| "insert_all ins (r # rs) s =
     (case ins r s of None \<Rightarrow> None | Some (ok, s') \<Rightarrow> insert_all ins rs s')"

locale table_store =
  fixes rel :: "'s \<Rightarrow> string \<Rightarrow> relation option"
    and ready :: "'s \<Rightarrow> bool"
    and create :: "string \<Rightarrow> string list \<Rightarrow> 's \<Rightarrow> bool \<times> 's"
    and drop_rel :: "string \<Rightarrow> 's \<Rightarrow> bool \<times> 's"
    and ins :: "string \<Rightarrow> string list \<Rightarrow> 's \<Rightarrow> (bool \<times> 's) option"
    and upd :: "string \<Rightarrow> nat \<Rightarrow> string list \<Rightarrow> 's \<Rightarrow> (bool \<times> 's) option"
    and rem :: "string \<Rightarrow> nat \<Rightarrow> 's \<Rightarrow> (bool \<times> 's) option"
  assumes create_rel: "rel (snd (create n cs s)) = (if rel s n = None then (rel s)(n \<mapsto> (cs, [])) else rel s)"
    and create_ok: "fst (create n cs s) \<longleftrightarrow> rel s n = None"
    and create_ready: "ready (snd (create n cs s)) = ready s"
    and drop_rel_rel: "rel (snd (drop_rel n s)) = (rel s)(n := None)"
    and drop_rel_ok: "fst (drop_rel n s) \<longleftrightarrow> rel s n \<noteq> None"
    and ins_returns: "ready s \<Longrightarrow> \<exists>s'. ins n r s = Some (case rel s n of None \<Rightarrow> False | Some (cs, rs) \<Rightarrow> length r = length cs, s')"
    and ins_rel: "ins n r s = Some (ok, s') \<Longrightarrow>
      rel s' = (case rel s n of Some (cs, rs) \<Rightarrow> (if ok then (rel s)(n \<mapsto> (cs, rs @ [r])) else rel s) | None \<Rightarrow> rel s)"
    and ins_ready: "ins n r s = Some (ok, s') \<Longrightarrow> ready s' = ready s"
    and upd_returns: "ready s \<Longrightarrow> \<exists>s'. upd n i r s = Some (case rel s n of None \<Rightarrow> False
      | Some (cs, rs) \<Rightarrow> i < length rs \<and> length r = length cs, s')"
    and upd_rel: "upd n i r s = Some (ok, s') \<Longrightarrow>
      rel s' = (case rel s n of Some (cs, rs) \<Rightarrow> (if ok then (rel s)(n \<mapsto> (cs, rs[i := r])) else rel s) | None \<Rightarrow> rel s)"
    and rem_returns: "ready s \<Longrightarrow> \<exists>s'. rem n i s = Some (case rel s n of None \<Rightarrow> False
      | Some (cs, rs) \<Rightarrow> i < length rs, s')"
    and rem_rel: "rem n i s = Some (ok, s') \<Longrightarrow>
      rel s' = (case rel s n of Some (cs, rs) \<Rightarrow> (if ok then (rel s)(n \<mapsto> (cs, take i rs @ drop (Suc i) rs)) else rel s) | None \<Rightarrow> rel s)"
begin

lemma insert_all_rel:
  assumes "ready s" and "rel s n = Some (cs, rs)"
  shows "\<exists>s'. insert_all (ins n) rows s = Some s' \<and> ready s' \<and>
    rel s' = (rel s)(n \<mapsto> (cs, rs @ filter (\<lambda>r. length r = length cs) rows))"
  using assms
proof (induction rows arbitrary: s rs)
  case (Cons r rows)
  obtain s1 where i: "ins n r s = Some (length r = length cs, s1)"
    using ins_returns [OF Cons.prems(1), of n r] Cons.prems(2) by auto
  have r1: "ready s1" using ins_ready [OF i] Cons.prems(1) by simp
  have e: "rel s1 = (rel s)(n \<mapsto> (cs, if length r = length cs then rs @ [r] else rs))"
    using ins_rel [OF i] Cons.prems(2) by (auto simp: fun_eq_iff)
  then have "rel s1 n = Some (cs, if length r = length cs then rs @ [r] else rs)" by simp
  from Cons.IH [OF r1 this] show ?case by (auto simp: i e fun_eq_iff)
qed (auto simp: fun_eq_iff)

text \<open>What a session leaves: of a fresh table, exactly the rows of the right width in their order.\<close>

lemma session_rel:
  assumes "ready s" and "rel s n = None"
  shows "\<exists>s'. insert_all (ins n) rows (snd (create n cs s)) = Some s' \<and> ready s' \<and>
    rel s' = (rel s)(n \<mapsto> (cs, filter (\<lambda>r. length r = length cs) rows))"
  using insert_all_rel [of "snd (create n cs s)" n cs "[]" rows] assms
  by (auto simp: create_rel create_ready)

lemma insert_then_remove:
  assumes "ready s" and "rel s n = Some (cs, rs)" and "length r = length cs"
  shows "\<exists>s1 s2. ins n r s = Some (True, s1) \<and> rem n (length rs) s1 = Some (True, s2) \<and> rel s2 = rel s"
proof -
  obtain s1 where i: "ins n r s = Some (True, s1)" using ins_returns [OF assms(1), of n r] assms(2,3) by auto
  have e: "rel s1 = (rel s)(n \<mapsto> (cs, rs @ [r]))" using ins_rel [OF i] assms(2) by simp
  have "ready s1" using ins_ready [OF i] assms(1) by simp
  then obtain s2 where d: "rem n (length rs) s1 = Some (True, s2)"
    using rem_returns [of s1 n "length rs"] e by auto
  have "rel s2 = rel s" using rem_rel [OF d] e assms(2) by (auto simp: fun_eq_iff)
  then show ?thesis using i d by blast
qed

end

section \<open>The engine provides it\<close>

definition se_rel :: "StorageEngine \<Rightarrow> string \<Rightarrow> relation option" where
  "se_rel se n = map_option (\<lambda>t. (tbl_columns t, tbl_rows t)) (map_of (se_tables se) n)"

lemma se_rel_cases [simp]:
  "map_of (se_tables se) n = None \<Longrightarrow> se_rel se n = None"
  "map_of (se_tables se) n = Some t \<Longrightarrow> se_rel se n = Some (tbl_columns t, tbl_rows t)"
  by (simp_all add: se_rel_def)

lemma se_rel_None [simp]: "se_rel se n = None \<longleftrightarrow> map_of (se_tables se) n = None"
  by (simp add: se_rel_def)

lemma se_rel_put [simp]:
  "se_rel (put_table n t se) = (se_rel se)(n \<mapsto> (tbl_columns t, tbl_rows t))"
  by (simp add: se_rel_def put_table_def fun_eq_iff update_conv')

lemma put_table_simps [simp]:
  "se_subsystems (put_table n t se) = se_subsystems se" "se_initialized (put_table n t se) = se_initialized se"
  "se_config (put_table n t se) = se_config se" "cache_hits (put_table n t se) = cache_hits se"
  "cache_misses (put_table n t se) = cache_misses se"
  by (simp_all add: put_table_def)

lemma admitted_cong: "se_subsystems se' = se_subsystems se \<Longrightarrow> admitted later se' = admitted later se"
  by (simp add: admitted_def)

lemma insert_row_subsystems [simp]:
  "se_subsystems (snd (insert_row n r se)) = se_subsystems se"
  "se_subsystems (snd (create_table n cs se)) = se_subsystems se"
  "se_subsystems (snd (drop_table n se)) = se_subsystems se"
  "se_subsystems (snd (se_select n se)) = se_subsystems se"
  by (simp_all add: insert_row_def create_table_def drop_table_def se_select_def split: option.splits)

lemma se_update_subsystems:
  "se_update later n i r se = Some (ok, se') \<Longrightarrow> se_subsystems se' = se_subsystems se"
  "se_remove later n i se = Some (ok, se') \<Longrightarrow> se_subsystems se' = se_subsystems se"
  "se_insert later n r se = Some (ok, se') \<Longrightarrow> se_subsystems se' = se_subsystems se"
  by (auto simp: se_update_def se_remove_def se_insert_def split: if_splits option.splits)
    (drule arg_cong [where f = "\<lambda>x. se_subsystems (snd x)"], simp)

interpretation tables: table_store se_rel "admitted later" create_table drop_table "se_insert later"
  "se_update later" "se_remove later" for later
proof (unfold_locales, goal_cases)
  case 1 show ?case by (auto simp: create_table_def se_rel_def fun_eq_iff update_conv')
next
  case 2 show ?case by (simp add: create_table_def)
next
  case 3 show ?case by (rule admitted_cong) simp
next
  case 4 show ?case by (auto simp: drop_table_def se_rel_def fun_eq_iff delete_conv')
next
  case 5 show ?case by (simp add: drop_table_def)
next
  case 6 then show ?case by (auto simp: se_insert_def insert_row_def split: option.splits)
next
  case 7 then show ?case by (auto simp: se_insert_def insert_row_def split: if_splits option.splits)
next
  case 8 then show ?case using se_update_subsystems(3) admitted_cong by blast
next
  case 9 then show ?case by (auto simp: se_update_def split: option.splits)
next
  case 10 then show ?case by (auto simp: se_update_def split: if_splits option.splits)
next
  case 11 then show ?case by (auto simp: se_remove_def split: option.splits)
next
  case 12 then show ?case by (auto simp: se_remove_def split: if_splits option.splits)
qed

end
