(* ===== verification/Storage_Engine_Props.thy ===== *)
theory Storage_Engine_Props
  imports Table_Store
begin

text \<open>
  The storage engine over whole runs: the invariant of tables and subsystems, what sessions of table
  operations leave, start and stop, backups, and the statistics.
\<close>

section \<open>Invariant\<close>

definition table_ok :: "Table \<Rightarrow> bool" where
  "table_ok t \<longleftrightarrow> (\<forall>row \<in> set (tbl_rows t). length row = length (tbl_columns t)) \<and>
     (size_bytes t = calculate_table_size t \<or> tbl_rows t = [] \<and> size_bytes t = 0)"

definition tables_ok :: "StorageEngine \<Rightarrow> bool" where
  "tables_ok se \<longleftrightarrow> distinct (map fst (se_tables se)) \<and> (\<forall>(n, t) \<in> set (se_tables se). table_ok t)"

text \<open>The engine never creates a page, so that its pool stays empty.\<close>

definition subsystems_ok :: "StorageEngine \<Rightarrow> bool" where
  "subsystems_ok se \<longleftrightarrow>
     (case se_subsystems se of
        Running cm \<Rightarrow> se_initialized se \<and> cm_inv cm \<and> page_table (cm_pool cm) = [] \<and>
          file_present (disk_manager (cm_pool cm))
      | _ \<Rightarrow> \<not> se_initialized se)"

definition engine_inv :: "StorageEngine \<Rightarrow> bool" where
  "engine_inv se \<longleftrightarrow> tables_ok se \<and> subsystems_ok se \<and> cache_misses se = 0 \<and>
     buffer_pool_pages (se_config se) < 2 ^ 64"

text \<open>The operations of the engine, and the rounds of its background thread, in any order.\<close>

inductive se_step :: "StorageEngine \<Rightarrow> StorageEngine \<Rightarrow> bool" where
  se_step_create: "create_table n cs se = (ok, se') \<Longrightarrow> se_step se se'"
| se_step_drop: "drop_table n se = (ok, se') \<Longrightarrow> se_step se se'"
| se_step_insert: "se_insert later n r se = Some (ok, se') \<Longrightarrow> se_step se se'"
| se_step_select: "se_select n se = (rows, se') \<Longrightarrow> se_step se se'"
| se_step_update: "se_update later n i r se = Some (ok, se') \<Longrightarrow> se_step se se'"
| se_step_remove: "se_remove later n i se = Some (ok, se') \<Longrightarrow> se_step se se'"
| se_step_initialize: "se_initialize files now se = (ok, se') \<Longrightarrow> se_step se se'"
| se_step_shutdown: "se_shutdown t0 t1 t2 se = Some (se', left) \<Longrightarrow> se_step se se'"
| se_step_checkpoint: "se_checkpoint run t0 t1 t2 se = Some se' \<Longrightarrow> se_step se se'"
| se_step_backup: "create_backup run t0 t1 t2 d c se = Some (ok, copy, se') \<Longrightarrow> se_step se se'"
| se_step_background: "se_subsystems se = Running cm \<Longrightarrow> background_round now run t0 t1 t2 cm = Some cm' \<Longrightarrow>
    se_step se (se\<lparr>se_subsystems := Running cm'\<rparr>)"

section \<open>Table operations\<close>

lemma tables_ok_lookup: "tables_ok se \<Longrightarrow> map_of (se_tables se) n = Some t \<Longrightarrow> table_ok t"
  by (auto simp: tables_ok_def dest: map_of_SomeD)

lemma set_update_subset: "set (AList.update k v al) \<subseteq> insert (k, v) (set al)"
  by (induction al) auto

lemma tables_ok_update:
  assumes "tables_ok se" and "table_ok t"
  shows "tables_ok (se\<lparr>se_tables := AList.update n t (se_tables se)\<rparr>)"
  using assms set_update_subset [of n t "se_tables se"] distinct_update [of "se_tables se" n t]
  by (auto simp: tables_ok_def)

lemma tables_ok_put:
  assumes "tables_ok se" and "\<forall>row \<in> set (tbl_rows t). length row = length (tbl_columns t)"
  shows "tables_ok (put_table n t se)"
  unfolding put_table_def by (rule tables_ok_update) (use assms in \<open>auto simp: table_ok_def calculate_table_size_def\<close>)

lemma tables_ok_create: "tables_ok se \<Longrightarrow> tables_ok (snd (create_table n cs se))"
  by (auto simp: create_table_def table_ok_def intro!: tables_ok_update)

lemma tables_ok_drop: "tables_ok se \<Longrightarrow> tables_ok (snd (drop_table n se))"
  by (auto simp: drop_table_def tables_ok_def distinct_delete set_delete_alist)

lemma tables_ok_insert: "tables_ok se \<Longrightarrow> tables_ok (snd (insert_row n r se))"
  using tables_ok_lookup [of se n]
  by (auto simp: insert_row_def table_ok_def intro!: tables_ok_put split: option.splits)

lemma tables_ok_rows:
  "tables_ok se \<Longrightarrow> se_update later n i r se = Some (ok, se') \<Longrightarrow> tables_ok se'"
  "tables_ok se \<Longrightarrow> se_remove later n i se = Some (ok, se') \<Longrightarrow> tables_ok se'"
  using tables_ok_lookup [of se n]
  by (auto simp: se_update_def se_remove_def table_ok_def intro!: tables_ok_put split: option.splits if_splits)
    (blast dest: in_set_takeD in_set_dropD set_update_subset_insert [THEN subsetD])+

section \<open>Subsystems\<close>

lemma empty_pool_not_dirty: "page_table bp = [] \<Longrightarrow> get_dirty_pages bp = []"
  by (simp add: get_dirty_pages_def)

text \<open>On an empty pool a checkpoint returns, and touches only the log and the metrics.\<close>

lemma do_checkpoint_empty_pool:
  assumes "cm_inv cm" and "page_table (cm_pool cm) = []" and "do_checkpoint t run t0 t1 t2 cm = Some cm'"
  shows "cm_inv cm'" and "page_table (cm_pool cm') = []"
    and "disk_manager (cm_pool cm') = disk_manager (cm_pool cm)" and "running cm' = running cm"
proof -
  show "cm_inv cm'" using do_checkpoint_safe(1,3,4) [OF _ assms(3)] assms(1) by (simp add: cm_inv_def)
  from do_checkpoint_empty [OF empty_pool_not_dirty [OF assms(2)], of t run t0 t1 t2] assms(3)
  obtain w2 m1 m2 where "cm' = (checkpoint_block t cm)\<lparr>cm_wal := w2,
       cm_pool := set_metrics m2 (set_metrics m1 (cm_pool (checkpoint_block t cm))),
       checkpoint_in_progress := False, blocking_mode := False, last_checkpoint_time := t1\<rparr>"
    by (metis option.inject)
  then show "page_table (cm_pool cm') = []" and "disk_manager (cm_pool cm') = disk_manager (cm_pool cm)"
    and "running cm' = running cm"
    using assms(2) by (simp_all add: checkpoint_block_def Let_def set_metrics_def)
qed

lemma do_checkpoint_empty_returns:
  "page_table (cm_pool cm) = [] \<Longrightarrow> \<exists>cm'. do_checkpoint t run t0 t1 t2 cm = Some cm'"
  using do_checkpoint_empty [OF empty_pool_not_dirty] by metis

section \<open>Start\<close>

lemma demo_tables_simps [simp]:
  "se_subsystems (demo_tables se) = se_subsystems se" "se_initialized (demo_tables se) = se_initialized se"
  "se_config (demo_tables se) = se_config se" "cache_misses (demo_tables se) = cache_misses se"
proof -
  have i: "se_initialized (snd (insert_row n r se)) = se_initialized se"
    "se_initialized (snd (create_table n cs se)) = se_initialized se"
    "se_config (snd (insert_row n r se)) = se_config se" "se_config (snd (create_table n cs se)) = se_config se"
    "cache_misses (snd (insert_row n r se)) = cache_misses se"
    "cache_misses (snd (create_table n cs se)) = cache_misses se" for n r cs se
    by (simp_all add: insert_row_def create_table_def split: option.splits)
  show "se_subsystems (demo_tables se) = se_subsystems se" "se_initialized (demo_tables se) = se_initialized se"
    "se_config (demo_tables se) = se_config se" "cache_misses (demo_tables se) = cache_misses se"
    by (simp_all add: demo_tables_def i)
qed

lemma tables_ok_demo: "tables_ok se \<Longrightarrow> tables_ok (demo_tables se)"
  by (simp add: demo_tables_def tables_ok_create tables_ok_insert)

lemma tables_ok_fields [simp]:
  "tables_ok (se\<lparr>se_subsystems := x\<rparr>) = tables_ok se" "tables_ok (se\<lparr>se_initialized := b\<rparr>) = tables_ok se"
  by (simp_all add: tables_ok_def)

text \<open>The inserts of \<open>initialize\<close> are calls of \<open>insert\<close>: a manager that was just started does not block.\<close>

lemma started_admits:
  "se_subsystems se = Running (ckpt_start (CheckpointManager_new cfg bp w now)) \<Longrightarrow>
   se_insert later n r se = Some (insert_row n r se)"
  by (simp add: se_insert_def admitted_def ckpt_start_def CheckpointManager_new_def)

lemma open_present: "fs_is_open (fs_open_inout present f) \<Longrightarrow> \<not> fs_is_open f \<Longrightarrow> present"
  by (auto simp: fs_open_inout_def fs_next_def split: io_outcome.splits if_splits)

lemma disk_initialize_present:
  assumes "disk_initialize dm = (True, dm')" and "\<not> dm_initialized dm" and "\<not> fs_is_open (data_file dm)"
  shows "file_present dm'"
proof -
  have c: "file_present (disk_count_pages d) = file_present d" for d by (simp add: disk_count_pages_def Let_def)
  show ?thesis using assms open_present [of "file_present dm" "snd (fs_next (data_file dm))"]
    by (auto simp: disk_initialize_def Let_def c fs_next_def split: io_outcome.splits if_splits)
qed

lemma started_ok:
  assumes "disk_initialize (DiskManager_new c env) = (True, dm)" and "n < 2 ^ 64"
    and "wal_initialize w0 (initial_metrics now) = (ok, w, m)" 
  shows "cm_inv (ckpt_start (CheckpointManager_new cfg (BufferPool_new n dm m) w now))"
    and "page_table (cm_pool (ckpt_start (CheckpointManager_new cfg (BufferPool_new n dm m) w now))) = []"
    and "file_present (disk_manager (cm_pool (ckpt_start (CheckpointManager_new cfg (BufferPool_new n dm m) w now))))"
proof -
  have "disk_inv dm" by (rule disk_initialize_inv [OF assms(1)]) (simp add: DiskManager_new_def)
  moreover have "dirty_page_count_m m = 0"
    using assms(3) by (auto simp: wal_initialize_def wal_open_finish_def initial_metrics_def Let_def
        split: if_splits prod.splits io_outcome.splits)
  ultimately show "cm_inv (ckpt_start (CheckpointManager_new cfg (BufferPool_new n dm m) w now))"
    using assms(2) by (simp add: cm_inv_def ckpt_start_def CheckpointManager_new_def BufferPool_new_inv)
  have "file_present dm" by (rule disk_initialize_present [OF assms(1)]) (simp_all add: DiskManager_new_def)
  then show "file_present (disk_manager (cm_pool (ckpt_start (CheckpointManager_new cfg (BufferPool_new n dm m) w now))))"
    by (simp add: ckpt_start_def CheckpointManager_new_def BufferPool_new_def)
qed (simp add: ckpt_start_def CheckpointManager_new_def BufferPool_new_def)

lemma se_initialize_cases:
  assumes "se_initialize files now se = (ok, se')" and "\<not> se_initialized se"
  obtains (no_disk) m dm where "\<not> ok" "se' = se\<lparr>se_subsystems := DiskOnly m dm\<rparr>"
    | (no_wal) m dm w where "\<not> ok" "se' = se\<lparr>se_subsystems := DiskAndWal m dm w\<rparr>"
    | (started) dm w m where "ok"
      "disk_initialize (DiskManager_new (data_db files) (data_env files)) = (True, dm)"
      "wal_initialize (WriteAheadLog_new (wal_segments files) (64 * 1024 * 1024) (wal_outcomes files))
         (initial_metrics now) = (True, w, m)"
      "se' = (demo_tables (se\<lparr>se_subsystems := Running (ckpt_start (CheckpointManager_new
         (checkpoint_cfg (se_config se)) (BufferPool_new (buffer_pool_pages (se_config se)) dm m) w now))\<rparr>))
         \<lparr>se_initialized := True\<rparr>"
  using assms by (auto simp: se_initialize_def Let_def split: if_splits prod.splits)

lemma se_initialize_inv:
  assumes "engine_inv se" and "se_initialize files now se = (ok, se')"
  shows "engine_inv se'"
proof (cases "se_initialized se")
  case True
  then show ?thesis using assms by (simp add: se_initialize_def)
next
  case False
  from assms(2) False show ?thesis
  proof (cases rule: se_initialize_cases)
    case (started dm w m)
    then show ?thesis
      using assms(1) started_ok [OF started(2) _ started(3)] tables_ok_demo
      by (simp add: engine_inv_def subsystems_ok_def)
  qed (use assms(1) False in \<open>auto simp: engine_inv_def subsystems_ok_def tables_ok_def\<close>)
qed

section \<open>Stop\<close>

lemma ckpt_shutdown_empty_pool:
  assumes "cm_inv cm" and "page_table (cm_pool cm) = []"
  obtains cm' where "ckpt_shutdown t0 t1 t2 cm = Some cm'" "page_table (cm_pool cm') = []"
    "disk_manager (cm_pool cm') = disk_manager (cm_pool cm)"
proof (cases "running cm")
  case True
  let ?c = "cm\<lparr>running := False\<rparr>"
  have inv: "cm_inv ?c" using assms(1) by (simp add: cm_inv_def)
  obtain cm' where c: "do_checkpoint Shutdown (\<lambda>_. False) t0 t1 t2 ?c = Some cm'"
    using do_checkpoint_empty_returns [of ?c Shutdown "\<lambda>_. False" t0 t1 t2] assms(2) by auto
  show thesis
    by (rule that [of cm']) (use True c do_checkpoint_empty_pool(2,3) [OF inv _ c] assms(2) in
        \<open>simp_all add: ckpt_shutdown_def\<close>)
qed (use assms(2) that in \<open>simp add: ckpt_shutdown_def\<close>)

lemma se_shutdown_running:
  assumes "engine_inv se" and "se_subsystems se = Running cm"
  obtains m w where "se_shutdown t0 t1 t2 se =
    Some (se\<lparr>se_subsystems := Stopped m, se_tables := [], se_initialized := False\<rparr>,
          Some (disk_shutdown (disk_manager (cm_pool cm)), w))"
proof -
  have inv: "se_initialized se" "cm_inv cm" "page_table (cm_pool cm) = []"
    using assms by (simp_all add: engine_inv_def subsystems_ok_def)
  from inv(2,3) obtain cm' where c: "ckpt_shutdown t0 t1 t2 cm = Some cm'" "page_table (cm_pool cm') = []"
    "disk_manager (cm_pool cm') = disk_manager (cm_pool cm)" by (rule ckpt_shutdown_empty_pool)
  have d: "BufferPool_destroy (cm_pool cm') = cm_pool cm'"
    by (simp add: BufferPool_destroy_def empty_pool_not_dirty [OF c(2)])
  show thesis
    by (rule that [of "bp_metrics (cm_pool cm')" "wal_shutdown (cm_wal cm')"])
      (simp add: se_shutdown_def inv(1) assms(2) c(1,3) d Let_def)
qed

lemma se_shutdown_inv:
  assumes "engine_inv se" and "se_shutdown t0 t1 t2 se = Some (se', rest)"
  shows "engine_inv se'"
proof (cases "\<exists>cm. se_subsystems se = Running cm")
  case True
  then obtain cm where "se_subsystems se = Running cm" by blast
  from assms(1) this obtain m w where "se_shutdown t0 t1 t2 se =
    Some (se\<lparr>se_subsystems := Stopped m, se_tables := [], se_initialized := False\<rparr>,
          Some (disk_shutdown (disk_manager (cm_pool cm)), w))" by (rule se_shutdown_running)
  then show ?thesis using assms by (simp add: engine_inv_def subsystems_ok_def tables_ok_def)
next
  case False
  then have "\<not> se_initialized se"
    using assms(1) by (auto simp: engine_inv_def subsystems_ok_def split: subsystems.splits)
  then show ?thesis using assms by (simp add: se_shutdown_def)
qed

section \<open>Runs\<close>

lemma running_inv:
  assumes "engine_inv se" and "se_subsystems se = Running cm" and "do_checkpoint t run t0 t1 t2 cm = Some cm'"
  shows "engine_inv (se\<lparr>se_subsystems := Running cm'\<rparr>)"
  using assms do_checkpoint_empty_pool(1-3) [OF _ _ assms(3)]
  by (simp add: engine_inv_def subsystems_ok_def tables_ok_def)

lemma se_checkpoint_inv:
  assumes "engine_inv se" and "se_checkpoint run t0 t1 t2 se = Some se'"
  shows "engine_inv se'"
  using assms running_inv [OF assms(1)]
  by (auto simp: se_checkpoint_def manual_checkpoint_def split: subsystems.splits)

lemma create_backup_checkpoint:
  "create_backup run t0 t1 t2 d c se = Some (ok, copy, se') \<Longrightarrow> se_checkpoint run t0 t1 t2 se = Some se'"
  by (auto simp: create_backup_def Let_def split: option.splits if_splits)

text \<open>A change of the tables alone.\<close>

lemma engine_inv_tables:
  assumes "engine_inv se" and "tables_ok se'" and "se_subsystems se' = se_subsystems se"
    and "se_initialized se' = se_initialized se" and "cache_misses se' = cache_misses se"
    and "se_config se' = se_config se"
  shows "engine_inv se'"
proof -
  have "subsystems_ok se' = subsystems_ok se" unfolding subsystems_ok_def assms(3,4) ..
  then show ?thesis using assms by (simp add: engine_inv_def)
qed

lemma se_step_inv:
  assumes "se_step se se'" and inv: "engine_inv se"
  shows "engine_inv se'"
proof -
  have t: "tables_ok se" using inv by (simp add: engine_inv_def)
  from assms(1) show ?thesis
  proof cases
    case (se_step_create n cs ok)
    then show ?thesis using tables_ok_create [OF t, of n cs]
      by (auto simp: create_table_def intro: inv engine_inv_tables [OF inv] split: if_splits)
  next
    case (se_step_drop n ok)
    then show ?thesis using tables_ok_drop [OF t, of n]
      by (auto simp: drop_table_def intro: inv engine_inv_tables [OF inv] split: if_splits)
  next
    case (se_step_insert later n r ok)
    then show ?thesis using tables_ok_insert [OF t, of n r]
      by (auto simp: se_insert_def insert_row_def intro: inv engine_inv_tables [OF inv] split: if_splits option.splits)
  next
    case (se_step_select n rows)
    then show ?thesis using t
      by (auto simp: se_select_def tables_ok_def intro: inv engine_inv_tables [OF inv] split: option.splits)
  next
    case (se_step_update later n i r ok)
    then show ?thesis using tables_ok_rows(1) [OF t, of later n i r]
      by (auto simp: se_update_def intro: inv engine_inv_tables [OF inv] split: if_splits option.splits)
  next
    case (se_step_remove later n i ok)
    then show ?thesis using tables_ok_rows(2) [OF t, of later n i]
      by (auto simp: se_remove_def intro: inv engine_inv_tables [OF inv] split: if_splits option.splits)
  next
    case (se_step_background cm now run t0 t1 t2 cm')
    have "engine_inv (se\<lparr>se_subsystems := Running cm\<rparr>)"
      using se_step_background(2) t by (auto intro: engine_inv_tables [OF inv])
    then show ?thesis using se_step_background inv running_inv [OF inv se_step_background(2)]
      by (auto simp: background_round_def split: if_splits option.splits)
  next
    case (se_step_backup run t0 t1 t2 d c ok copy)
    from se_checkpoint_inv [OF inv create_backup_checkpoint [OF this]] show ?thesis .
  qed (use inv in \<open>blast intro: se_initialize_inv se_shutdown_inv se_checkpoint_inv\<close>)+
qed

interpretation engine: transition_invariant se_step engine_inv
  by unfold_locales (rule se_step_inv)

section \<open>An example engine\<close>

definition demo_files :: storage_files where
  "demo_files = \<lparr>data_db = None, data_env = (\<lambda>_. IoOk), wal_segments = [], wal_outcomes = (\<lambda>_. IoOk)\<rparr>"

definition demo_engine :: StorageEngine where
  "demo_engine = snd (se_initialize demo_files 0 (StorageEngine_new default_config))"

text \<open>With I/O that does not fail both files can be opened, whatever they hold.\<close>

lemma reliable_start:
  assumes "\<forall>n. env n = IoOk"
  shows "fst (disk_initialize (DiskManager_new c env))" and "fst (wal_initialize (WriteAheadLog_new dir cap env) m)"
  using assms
  by (auto simp: disk_initialize_def DiskManager_new_def fs_op_defs Let_def wal_initialize_def
      WriteAheadLog_new_def wal_io_def seg_open_app_def wal_open_finish_def split: prod.splits option.splits)

lemma se_initialize_reliable:
  assumes "\<not> se_initialized se" and "\<forall>n. data_env files n = IoOk" and "\<forall>n. wal_outcomes files n = IoOk"
  obtains cm where "se_initialize files now se =
    (True, (demo_tables (se\<lparr>se_subsystems := Running cm\<rparr>))\<lparr>se_initialized := True\<rparr>)"
    "cm_config cm = checkpoint_cfg (se_config se)" "running cm"
proof -
  obtain dm where d: "disk_initialize (DiskManager_new (data_db files) (data_env files)) = (True, dm)"
    using reliable_start(1) [OF assms(2)] by (metis prod.collapse)
  obtain w m where w: "wal_initialize (WriteAheadLog_new (wal_segments files) (64 * 1024 * 1024) (wal_outcomes files))
      (initial_metrics now) = (True, w, m)"
    using reliable_start(2) [OF assms(3)] by (metis prod.collapse)
  show thesis
    by (rule that [of "ckpt_start (CheckpointManager_new (checkpoint_cfg (se_config se))
            (BufferPool_new (buffer_pool_pages (se_config se)) dm m) w now)"])
      (simp_all only: se_initialize_def assms(1) d w Let_def prod.case simp_thms if_True if_False,
       simp_all add: ckpt_start_def CheckpointManager_new_def)
qed

lemma demo_tables_rel:
  assumes "se_tables se = []"
  shows "table_count (demo_tables se) = 3" and "total_records (demo_tables se) = 8"
    and "se_rel (demo_tables se) ''orders'' =
      Some ([''id'', ''user_id'', ''product_id'', ''quantity'', ''total''],
            [[''1'', ''1'', ''1'', ''1'', ''999.99''], [''2'', ''2'', ''2'', ''2'', ''59.98'']])"
  using assms
  by (simp_all add: demo_tables_def create_table_def insert_row_def put_table_def table_count_def total_records_def
      se_rel_def)

lemma demo_tables_cong:
  assumes "se_tables se = se_tables se'"
  shows "se_tables (demo_tables se) = se_tables (demo_tables se')"
proof -
  have c: "se_tables (snd (create_table n cs se)) = se_tables (snd (create_table n cs se'))"
    and i: "se_tables (snd (insert_row n r se)) = se_tables (snd (insert_row n r se'))"
    if "se_tables se = se_tables se'" for n cs r se se'
    using that by (simp_all add: create_table_def insert_row_def put_table_def split: option.splits)
  show ?thesis
    unfolding demo_tables_def fold.simps o_apply id_apply by (rule c i assms)+
qed

lemma new_engine_inv: "buffer_pool_pages cfg < 2 ^ 64 \<Longrightarrow> engine_inv (StorageEngine_new cfg)"
  by (simp add: engine_inv_def tables_ok_def subsystems_ok_def StorageEngine_new_def)

lemma demo_engine_start:
  obtains cm where "se_initialize demo_files 0 (StorageEngine_new default_config) = (True, demo_engine)"
    "demo_engine = (demo_tables ((StorageEngine_new default_config)\<lparr>se_subsystems := Running cm\<rparr>))\<lparr>se_initialized := True\<rparr>"
proof -
  have n: "\<not> se_initialized (StorageEngine_new default_config)" by (simp add: StorageEngine_new_def)
  show thesis
    by (rule se_initialize_reliable [OF n, of demo_files 0])
      (use that in \<open>auto simp: demo_files_def demo_engine_def\<close>)
qed

lemma demo_engine_reach: "reach se_step (StorageEngine_new default_config) demo_engine"
  by (rule demo_engine_start) (blast intro: reach.intros se_step_initialize)

lemma demo_engine_inv: "engine_inv demo_engine"
  by (rule engine.reach_inv [OF demo_engine_reach], rule new_engine_inv) (simp add: default_config_def)

lemma demo_engine_initialized: "se_initialized demo_engine"
  and demo_engine_running: "\<exists>cm. se_subsystems demo_engine = Running cm"
proof -
  obtain cm where d: "demo_engine = (demo_tables ((StorageEngine_new default_config)\<lparr>se_subsystems := Running cm\<rparr>))\<lparr>se_initialized := True\<rparr>"
    by (rule demo_engine_start)
  show "se_initialized demo_engine" "\<exists>cm. se_subsystems demo_engine = Running cm" unfolding d by simp_all
qed

lemma running_admits: "engine_inv se \<Longrightarrow> admitted later se"
  by (auto simp: engine_inv_def subsystems_ok_def admitted_def cm_inv_def split: subsystems.splits)

lemma demo_engine_orders:
  "se_rel demo_engine ''orders'' =
      Some ([''id'', ''user_id'', ''product_id'', ''quantity'', ''total''],
            [[''1'', ''1'', ''1'', ''1'', ''999.99''], [''2'', ''2'', ''2'', ''2'', ''59.98'']])"
  and demo_engine_log: "se_rel demo_engine ''log'' = None"
proof -
  obtain cm where d: "demo_engine = (demo_tables ((StorageEngine_new default_config)\<lparr>se_subsystems := Running cm\<rparr>))\<lparr>se_initialized := True\<rparr>"
    by (rule demo_engine_start)
  have "se_rel (se\<lparr>se_initialized := True\<rparr>) = se_rel se" for se by (simp add: se_rel_def fun_eq_iff)
  then show "se_rel demo_engine ''orders'' =
      Some ([''id'', ''user_id'', ''product_id'', ''quantity'', ''total''],
            [[''1'', ''1'', ''1'', ''1'', ''999.99''], [''2'', ''2'', ''2'', ''2'', ''59.98'']])"
    using demo_tables_rel(3) [of "(StorageEngine_new default_config)\<lparr>se_subsystems := Running cm\<rparr>"]
    by (simp add: d StorageEngine_new_def)
  show "se_rel demo_engine ''log'' = None"
    by (simp add: d StorageEngine_new_def demo_tables_def create_table_def insert_row_def put_table_def)
qed

section \<open>Properties\<close>



text \<open>C6. The table operations implement a finite map from names to columns and rows. A call that is not kept
  waiting succeeds exactly when its table exists (does not exist, for \<open>create_table\<close>), the row number is in range and
  the number of values fits; then it makes exactly its change to exactly that table, and otherwise the tables are
  unchanged.\<close>

theorem engine_tables_refine:
  assumes "admitted later se"
  shows "(\<exists>se'. create_table n cs se = (se_rel se n = None, se') \<and>
      se_rel se' = (if se_rel se n = None then (se_rel se)(n \<mapsto> (cs, [])) else se_rel se)) \<and>
    (\<exists>se'. drop_table n se = (se_rel se n \<noteq> None, se') \<and> se_rel se' = (se_rel se)(n := None)) \<and>
    (se_rel se n = None \<longrightarrow> se_insert later n r se = Some (False, se) \<and>
      se_update later n i r se = Some (False, se) \<and> se_remove later n i se = Some (False, se)) \<and>
    (\<forall>cs rs. se_rel se n = Some (cs, rs) \<longrightarrow>
      (\<exists>se'. se_insert later n r se = Some (length r = length cs, se') \<and>
         se_rel se' = (if length r = length cs then (se_rel se)(n \<mapsto> (cs, rs @ [r])) else se_rel se)) \<and>
      (\<exists>se'. se_update later n i r se = Some (i < length rs \<and> length r = length cs, se') \<and>
         se_rel se' = (if i < length rs \<and> length r = length cs then (se_rel se)(n \<mapsto> (cs, rs[i := r])) else se_rel se)) \<and>
      (\<exists>se'. se_remove later n i se = Some (i < length rs, se') \<and>
         se_rel se' = (if i < length rs then (se_rel se)(n \<mapsto> (cs, take i rs @ drop (Suc i) rs)) else se_rel se)))"
  (is "?C \<and> ?D \<and> ?N \<and> ?S")
proof (intro conjI)
  show ?C by (rule exI [of _ "snd (create_table n cs se)"]) (simp add: prod_eq_iff tables.create_ok tables.create_rel)
  show ?D by (rule exI [of _ "snd (drop_table n se)"]) (simp add: prod_eq_iff tables.drop_rel_ok tables.drop_rel_rel)
  show ?N using assms by (simp add: se_insert_def insert_row_def se_update_def se_remove_def)
  show ?S
  proof (intro allI impI conjI)
    fix cs rs assume s: "se_rel se n = Some (cs, rs)"
    from tables.ins_returns [OF assms, of n r] s obtain s1 where 1: "se_insert later n r se = Some (length r = length cs, s1)" by auto
    then show "\<exists>se'. se_insert later n r se = Some (length r = length cs, se') \<and>
         se_rel se' = (if length r = length cs then (se_rel se)(n \<mapsto> (cs, rs @ [r])) else se_rel se)"
      using tables.ins_rel [OF 1] s by simp
    from tables.upd_returns [OF assms, of n i r] s obtain s2 where
      2: "se_update later n i r se = Some (i < length rs \<and> length r = length cs, s2)" by auto
    then show "\<exists>se'. se_update later n i r se = Some (i < length rs \<and> length r = length cs, se') \<and>
         se_rel se' = (if i < length rs \<and> length r = length cs then (se_rel se)(n \<mapsto> (cs, rs[i := r])) else se_rel se)"
      using tables.upd_rel [OF 2] s by simp
    from tables.rem_returns [OF assms, of n i] s obtain s3 where 3: "se_remove later n i se = Some (i < length rs, s3)" by auto
    then show "\<exists>se'. se_remove later n i se = Some (i < length rs, se') \<and>
         se_rel se' = (if i < length rs then (se_rel se)(n \<mapsto> (cs, take i rs @ drop (Suc i) rs)) else se_rel se)"
      using tables.rem_rel [OF 3] s by simp
  qed
qed

theorem engine_tables_refine_witness:
  "\<exists>se'. se_remove [] ''orders'' 0 demo_engine = Some (True, se') \<and>
     se_rel se' ''orders'' = Some ([''id'', ''user_id'', ''product_id'', ''quantity'', ''total''],
       [[''2'', ''2'', ''2'', ''2'', ''59.98'']])"
  using engine_tables_refine [OF running_admits [OF demo_engine_inv], where n = "''orders''" and i = 0 and later = "[]" and r = "[]" and cs = "[]"]
  by (auto simp: demo_engine_orders)

text \<open>A client that creates a table and inserts any list of rows gets back from \<open>select\<close> exactly the rows of
  the right width, in the order in which they were inserted, and every other table is as before.\<close>

lemma engine_session:
  assumes "admitted later se" and "se_rel se n = None"
  shows "\<exists>se'. insert_all (se_insert later n) rows (snd (create_table n cs se)) = Some se' \<and>
    fst (se_select n se') = filter (\<lambda>r. length r = length cs) rows \<and> get_table_columns n se' = cs \<and>
    table_record_count n se' = length (filter (\<lambda>r. length r = length cs) rows) \<and>
    (\<forall>k. k \<noteq> n \<longrightarrow> se_rel se' k = se_rel se k)"
proof -
  obtain se' where s: "insert_all (se_insert later n) rows (snd (create_table n cs se)) = Some se'"
    and r: "se_rel se' = (se_rel se)(n \<mapsto> (cs, filter (\<lambda>r. length r = length cs) rows))"
    using tables.session_rel [OF assms, of rows cs] by blast
  then have "se_rel se' n = Some (cs, filter (\<lambda>r. length r = length cs) rows)" by simp
  then obtain t where "map_of (se_tables se') n = Some t" "tbl_columns t = cs"
    "tbl_rows t = filter (\<lambda>r. length r = length cs) rows" by (auto simp: se_rel_def)
  then show ?thesis using s r
    by (intro exI [of _ se']) (simp add: se_select_def get_table_columns_def table_record_count_def)
qed

text \<open>C38. The tables do not survive a restart: whatever a running engine holds, a stop followed by a successful start
  leaves the three example tables of a new engine, for every content of the data file and of the log. No operation on
  rows changes the log, the pool or the data file, and the stop leaves the data file as it was.\<close>

theorem engine_restart_loses_tables:
  assumes "engine_inv se" and "se_subsystems se = Running cm"
    and "\<forall>n. data_env files n = IoOk" and "\<forall>n. wal_outcomes files n = IoOk"
  shows "(\<exists>se1 dm w se2. se_shutdown t0 t1 t2 se = Some (se1, Some (dm, w)) \<and>
      file_bytes dm = file_bytes (disk_manager (cm_pool cm)) \<and>
      se_initialize files now se1 = (True, se2) \<and>
      se_tables se2 = se_tables (demo_tables (StorageEngine_new cfg)) \<and> table_count se2 = 3 \<and> total_records se2 = 8) \<and>
    (\<forall>ok se'. se_insert later n r se = Some (ok, se') \<or> se_update later n i r se = Some (ok, se') \<or>
      se_remove later n i se = Some (ok, se') \<longrightarrow> se_subsystems se' = se_subsystems se)"
proof (rule conjI)
  from assms(1,2) obtain m w where s: "se_shutdown t0 t1 t2 se =
    Some (se\<lparr>se_subsystems := Stopped m, se_tables := [], se_initialized := False\<rparr>,
          Some (disk_shutdown (disk_manager (cm_pool cm)), w))" by (rule se_shutdown_running)
  let ?s = "se\<lparr>se_subsystems := Stopped m, se_tables := [], se_initialized := False\<rparr>"
  have n: "\<not> se_initialized ?s" by simp
  obtain c where i: "se_initialize files now ?s =
    (True, (demo_tables (?s\<lparr>se_subsystems := Running c\<rparr>))\<lparr>se_initialized := True\<rparr>)"
    by (rule se_initialize_reliable [OF n assms(3,4)])
  have t: "se_tables (?s\<lparr>se_subsystems := Running c\<rparr>) = se_tables (StorageEngine_new cfg)"
    by (simp add: StorageEngine_new_def)
  have "file_bytes (disk_shutdown (disk_manager (cm_pool cm))) = file_bytes (disk_manager (cm_pool cm))"
    by (auto simp: disk_shutdown_def file_bytes_def Let_def fs_op_defs split: io_outcome.splits)
  then show "\<exists>se1 dm w se2. se_shutdown t0 t1 t2 se = Some (se1, Some (dm, w)) \<and>
      file_bytes dm = file_bytes (disk_manager (cm_pool cm)) \<and>
      se_initialize files now se1 = (True, se2) \<and>
      se_tables se2 = se_tables (demo_tables (StorageEngine_new cfg)) \<and> table_count se2 = 3 \<and> total_records se2 = 8"
    using s i demo_tables_cong [OF t] demo_tables_rel(1,2) [of "?s\<lparr>se_subsystems := Running c\<rparr>"]
    by (auto simp: table_count_def total_records_def)
qed (use se_update_subsystems in blast)

theorem engine_restart_loses_tables_witness:
  "\<exists>se1 dm w se2. se_shutdown 0 0 0 (snd (drop_table ''users'' demo_engine)) = Some (se1, Some (dm, w)) \<and>
     se_initialize demo_files 0 se1 = (True, se2) \<and> table_count se2 = 3 \<and> total_records se2 = 8"
proof -
  let ?e = "snd (drop_table ''users'' demo_engine)"
  obtain cm where c: "se_subsystems ?e = Running cm" using demo_engine_running by auto
  have "engine_inv ?e" by (rule se_step_inv [OF se_step_drop demo_engine_inv]) (rule prod.collapse [symmetric])
  from engine_restart_loses_tables [OF this c, of demo_files 0 0 0 0 default_config "[]" "[]" "[]" 0]
  show ?thesis by (auto simp: demo_files_def)
qed

text \<open>A backup of a running engine returns; if the two calls of the file system succeed it reports success and
  the copy is the flushed data file, if one of them fails it reports failure and there is no copy. Either way the
  tables and the data file are unchanged; since the tables are kept in memory only, no row is in the copy.\<close>

lemma engine_backup:
  assumes "engine_inv se" and "se_subsystems se = Running cm"
  shows "\<exists>se' cm'. create_backup run t0 t1 t2 dir_ok copy_ok se =
      Some (dir_ok \<and> copy_ok,
        if dir_ok \<and> copy_ok then Some (fs_flushed (data_file (disk_manager (cm_pool cm)))) else None, se') \<and>
    se_tables se' = se_tables se \<and> se_subsystems se' = Running cm' \<and>
    disk_manager (cm_pool cm') = disk_manager (cm_pool cm)"
proof -
  have inv: "cm_inv cm" "page_table (cm_pool cm) = []" and f: "file_present (disk_manager (cm_pool cm))"
    using assms by (simp_all add: engine_inv_def subsystems_ok_def)
  obtain cm' where c: "do_checkpoint Manual run t0 t1 t2 cm = Some cm'"
    using do_checkpoint_empty_returns [OF inv(2)] by blast
  then have "se_checkpoint run t0 t1 t2 se = Some (se\<lparr>se_subsystems := Running cm'\<rparr>)"
    by (simp add: se_checkpoint_def manual_checkpoint_def assms(2))
  then show ?thesis using do_checkpoint_empty_pool(3) [OF inv c] f by (auto simp: create_backup_def Let_def)
qed

text \<open>The statistics of an engine agree with its tables: counts and sizes are those of the rows that
  \<open>select\<close> returns, except that a table without rows may be reported with size 0 although its column names are counted for
  every other table. No page is ever cached or dirty, and the hit ratio is always one.\<close>

lemma engine_statistics:
  assumes "engine_inv se" and "se_rel se n = Some (cs, rs)"
  shows "fst (se_select n se) = rs \<and> table_record_count n se = length rs \<and> length rs \<le> total_records se \<and>
    (table_size n se = sum_list (map length cs) + sum_list (map (\<lambda>r. sum_list (map length r)) rs) \<or>
       rs = [] \<and> table_size n se = 0) \<and> table_size n se \<le> se_total_size se \<and>
    memory_usage se = se_total_size se \<and> dirty_page_count se = 0 \<and> cache_hit_ratio se = Fin 1"
proof -
  from assms(2) obtain t where t: "map_of (se_tables se) n = Some t" "cs = tbl_columns t" "rs = tbl_rows t"
    by (auto simp: se_rel_def)
  have ok: "table_ok t" by (rule tables_ok_lookup [OF _ t(1)]) (use assms(1) in \<open>simp add: engine_inv_def\<close>)
  have m: "(n, t) \<in> set (se_tables se)" by (rule map_of_SomeD [OF t(1)])
  have "f (n, t) \<le> sum_list (map f (se_tables se))" for f :: "string \<times> Table \<Rightarrow> nat"
    using m by (intro member_le_sum_list) auto
  from this [of "\<lambda>(n, t). length (tbl_rows t)"] this [of "\<lambda>(n, t). size_bytes t"]
  have "length rs \<le> total_records se" "table_size n se \<le> se_total_size se"
    by (simp_all add: total_records_def se_total_size_def table_size_def t)
  moreover have "dirty_page_count se = 0 \<and> memory_usage se = se_total_size se"
  proof (cases "se_subsystems se")
    case (Running cm)
    then have "cm_inv cm" "page_table (cm_pool cm) = []" using assms(1) by (simp_all add: engine_inv_def subsystems_ok_def)
    then have "unat (dirty_count (cm_pool cm)) = 0"
      using get_dirty_pages_count(1) [of "cm_pool cm"] empty_pool_not_dirty by (simp add: cm_inv_def)
    then show ?thesis using Running \<open>page_table (cm_pool cm) = []\<close>
      by (simp add: dirty_page_count_def memory_usage_def buffer_pool_usage_def bp_page_count_def unat_eq_0)
  qed (simp_all add: dirty_page_count_def memory_usage_def buffer_pool_usage_def)
  moreover have "cache_hit_ratio se = Fin 1"
  proof (cases "cache_hits se = 0")
    case False
    then have "0 < f32_of_nat (unat (cache_hits se))" by (intro f32_of_nat_pos) (simp add: unat_gt_0)
    with False show ?thesis using assms(1) by (simp add: cache_hit_ratio_def engine_inv_def f32_div_self)
  qed (use assms(1) in \<open>simp add: cache_hit_ratio_def engine_inv_def\<close>)
  ultimately show ?thesis using ok t
    by (auto simp: se_select_def table_record_count_def table_size_def table_ok_def calculate_table_size_def)
qed

end
