(* ===== verification/Engine_Lifecycle.thy ===== *)
theory Engine_Lifecycle
  imports Pool_Persistence Storage_Engine_Props
begin

text \<open>
  The end of the storage subsystems and their next start. The destructors call the shutdown of their object, which does
  nothing after an explicit one; an orderly shutdown of the engine leaves every page of the pool in the closed data file,
  also a page that a checkpoint without dirty pages had left in the buffer of the stream; and the next start finds it.
  The accessors of the classes are here, too.
\<close>

section \<open>Destructors\<close>

definition DiskManager_destroy :: "DiskManager \<Rightarrow> DiskManager" where
  "DiskManager_destroy dm = disk_shutdown dm"

definition WriteAheadLog_destroy :: "WriteAheadLog \<Rightarrow> WriteAheadLog" where
  "WriteAheadLog_destroy w = wal_shutdown w"

definition CheckpointManager_destroy :: "int \<Rightarrow> int \<Rightarrow> int \<Rightarrow> CheckpointManager \<Rightarrow> CheckpointManager option" where
  "CheckpointManager_destroy t0 t1 t2 cm = ckpt_shutdown t0 t1 t2 cm"

definition StorageEngine_destroy ::
  "int \<Rightarrow> int \<Rightarrow> int \<Rightarrow> StorageEngine \<Rightarrow> (StorageEngine \<times> (DiskManager \<times> WriteAheadLog) option) option" where
  "StorageEngine_destroy t0 t1 t2 se = se_shutdown t0 t1 t2 se"

lemma do_checkpoint_running: "do_checkpoint t run t0 t1 t2 cm = Some cm' \<Longrightarrow> running cm' = running cm"
  by (auto simp: do_checkpoint_def Let_def split: prod.splits if_splits option.splits)

text \<open>After an explicit shutdown the destructors have nothing to do: no second checkpoint, no second close.\<close>

lemma destructors_after_shutdown:
  "DiskManager_destroy (disk_shutdown dm) = disk_shutdown dm"
  "WriteAheadLog_destroy (wal_shutdown w) = wal_shutdown w"
  "ckpt_shutdown t0 t1 t2 cm = Some cm' \<Longrightarrow> CheckpointManager_destroy t0' t1' t2' cm' = Some cm'"
  "se_shutdown t0 t1 t2 se = Some (se', rest) \<Longrightarrow> StorageEngine_destroy t0' t1' t2' se' = Some (se', None)"
proof -
  show "DiskManager_destroy (disk_shutdown dm) = disk_shutdown dm"
    by (simp add: DiskManager_destroy_def disk_shutdown_def Let_def)
  show "WriteAheadLog_destroy (wal_shutdown w) = wal_shutdown w"
    by (simp add: WriteAheadLog_destroy_def wal_shutdown_def)
  show "CheckpointManager_destroy t0' t1' t2' cm' = Some cm'" if "ckpt_shutdown t0 t1 t2 cm = Some cm'"
  proof -
    have "\<not> running cm'"
    proof (cases "running cm")
      case True
      then show ?thesis using that do_checkpoint_running [of Shutdown "\<lambda>_. False" t0 t1 t2 "cm\<lparr>running := False\<rparr>" cm']
        by (simp add: ckpt_shutdown_def)
    qed (use that in \<open>auto simp: ckpt_shutdown_def\<close>)
    then show ?thesis by (simp add: CheckpointManager_destroy_def ckpt_shutdown_def)
  qed
  show "StorageEngine_destroy t0' t1' t2' se' = Some (se', None)" if "se_shutdown t0 t1 t2 se = Some (se', rest)"
  proof -
    have "\<not> se_initialized se'"
      using that by (auto simp: se_shutdown_def Let_def split: if_splits subsystems.splits option.splits)
    then show ?thesis by (simp add: StorageEngine_destroy_def se_shutdown_def)
  qed
qed

section \<open>Accessors\<close>

definition capacity :: "BufferPool \<Rightarrow> nat" where
  "capacity bp = pool_size bp"

definition pool_dirty_page_count :: "BufferPool \<Rightarrow> u64" where
  "pool_dirty_page_count bp = dirty_count bp"

definition current_size :: "WriteAheadLog \<Rightarrow> u64" where
  "current_size w = wal_current_size w"

definition current_lsn :: "WriteAheadLog \<Rightarrow> Lsn" where
  "current_lsn w = next_lsn w"

definition get_flushed_lsn :: "WriteAheadLog \<Rightarrow> Lsn" where
  "get_flushed_lsn w = flushed_lsn w"

definition ckpt_is_running :: "CheckpointManager \<Rightarrow> bool" where
  "ckpt_is_running cm = running cm"

definition disk_page_count :: "DiskManager \<Rightarrow> PageId" where
  "disk_page_count dm = next_page_id dm"

text \<open>What the accessors report of a consistent pool: no more dirty pages than pages, and no more pages than frames.\<close>

lemma pool_counts_bounded:
  assumes "bp_inv bp"
  shows "unat (pool_dirty_page_count bp) \<le> bp_page_count bp" and "bp_page_count bp \<le> capacity bp"
proof -
  have "length (get_dirty_pages bp) \<le> length (page_table bp)" by (simp add: get_dirty_pages_def)
  then show "unat (pool_dirty_page_count bp) \<le> bp_page_count bp"
    using get_dirty_pages_count(1) [OF assms] by (simp add: pool_dirty_page_count_def bp_page_count_def)
  have T: "table_inv bp" using assms by (simp add: bp_inv_def)
  then have "length (page_table bp) = card (set (map snd (page_table bp)))"
    using distinct_card [of "map snd (page_table bp)"] by (simp add: table_inv_def)
  also have "\<dots> \<le> card {..<pool_size bp}" by (rule card_mono) (use T in \<open>auto simp: table_inv_def\<close>)
  finally show "bp_page_count bp \<le> capacity bp" by (simp add: bp_page_count_def capacity_def)
qed

section \<open>An orderly shutdown\<close>

abbreviation pool_open :: "BufferPool \<Rightarrow> bool" where
  "pool_open bp \<equiv> dm_initialized (disk_manager bp)"

lemma flush_page_initialized: "pool_open (snd (flush_page p bp)) = pool_open bp"
proof -
  have "dm_initialized dm' = dm_initialized dm" if "write_page i pg dm = (b, pg', dm')" for i pg dm b pg' dm'
    using that by (auto simp: write_page_def Let_def split: if_splits)
  then show ?thesis by (auto simp: flush_page_def Let_def split: option.split prod.split)
qed

lemma flush_pages_initialized: "pool_open (snd (flush_pages ps bp)) = pool_open bp"
proof (induction ps arbitrary: bp)
  case (Cons p ps)
  from Cons.IH [of "snd (flush_page p bp)"] show ?case by (simp add: Let_def case_prod_beta' flush_page_initialized)
qed simp

lemma disk_sync_initialized [simp]: "dm_initialized (disk_sync dm) = dm_initialized dm"
  by (simp add: disk_sync_def)

lemma flush_loop_initialized:
  assumes "flush_loop dirty b t run bp = Some (i, n, bp', stop)"
  shows "pool_open bp' = pool_open bp"
proof -
  have "(\<lambda>(i, n, bp', stop). pool_open bp' = pool_open bp) (i, n, bp', stop)"
  proof (rule while_option_rule [OF _ assms [unfolded flush_loop_guard]])
    fix s :: flush_state
    assume "case s of (i, n, bp', stop) \<Rightarrow> pool_open bp' = pool_open bp"
    then show "case flush_batch dirty b t run s of (i, n, bp', stop) \<Rightarrow> pool_open bp' = pool_open bp"
      using flush_pages_initialized by (auto simp: flush_batch_def Let_def split: prod.split) (metis snd_conv)+
  qed simp
  then show ?thesis by simp
qed

text \<open>What the final checkpoint leaves for the steps after it.\<close>

definition closable :: "PageId \<Rightarrow> bytes \<Rightarrow> BufferPool \<Rightarrow> bool" where
  "closable q v bp \<longleftrightarrow> bp_inv bp \<and> disk_reliable (disk_manager bp) \<and> pool_open bp \<and> backed bp q \<and>
     bp_view bp q = Some v \<and> length (file_bytes (disk_manager bp)) < 2 ^ 44"

lemma do_checkpoint_closable:
  assumes c: "closable q v (cm_pool cm)" and d: "do_checkpoint Shutdown run t0 t1 t2 cm = Some cm'"
  shows "closable q v (cm_pool cm')"
proof -
  have inv: "bp_inv (cm_pool cm)" and rel: "disk_reliable (disk_manager (cm_pool cm))" using c by (simp_all add: closable_def)
  have k: "bp_inv (cm_pool cm')" "backed (cm_pool cm') q" "bp_view (cm_pool cm') q = Some v"
    using do_checkpoint_safe(1,2) [OF inv d] c by (simp_all add: closable_def keeps_def)
  have "disk_reliable (disk_manager (cm_pool cm')) \<and> pool_open (cm_pool cm') \<and>
      length (file_bytes (disk_manager (cm_pool cm'))) = length (file_bytes (disk_manager (cm_pool cm)))"
  proof (cases "get_dirty_pages (cm_pool cm) = []")
    case True
    obtain cm2 where "do_checkpoint Shutdown run t0 t1 t2 cm = Some cm2" "disk_manager (cm_pool cm2) = disk_manager (cm_pool cm)"
      using checkpoint_without_dirty_pages [OF True, of Shutdown run t0 t1 t2] by blast
    then show ?thesis using d c by (simp add: closable_def)
  next
    case False
    let ?bp = "cm_pool (checkpoint_block Shutdown cm)"
    obtain l1 w1 m1 i n bp2 stop l2 w2 m2 w3 m3 where
      b: "write_checkpoint_begin (cm_wal cm) (bp_metrics ?bp) = (l1, w1, m1)"
      and l: "flush_loop (get_dirty_pages (cm_pool cm)) (checkpoint_batch_size (cm_config cm)) Shutdown run
         (set_metrics m1 ?bp) = Some (i, n, bp2, stop)"
      and cm': "cm' = (checkpoint_block Shutdown cm)\<lparr>cm_wal := w3,
        cm_pool := set_metrics (record_checkpoint (to_milliseconds (t1 - t0)) n (was_forced Shutdown) t2 m3) (sync_all bp2),
        checkpoint_in_progress := False, blocking_mode := False, last_checkpoint_time := t1\<rparr>"
      by (rule do_checkpoint_flush [OF False d])
    have inv1: "bp_inv (set_metrics m1 ?bp)"
      using bp_inv_metrics [OF checkpoint_block_inv [OF inv]] checkpoint_record_metrics(1) [OF b] by simp
    have "disk_reliable (disk_manager bp2)"
      using flush_loop_complete(3) [OF inv1, of run Shutdown "checkpoint_batch_size (cm_config cm)" i n bp2 stop] rel l by simp
    moreover have "bp_inv bp2" using flush_loop_keeps(1) [OF inv1 l] .
    ultimately have "disk_reliable (disk_sync (disk_manager bp2))" using disk_sync_reliable(1) bp_invD(2) by blast
    moreover have "pool_open bp2 = pool_open (cm_pool cm)" using flush_loop_initialized [OF l] by simp
    ultimately show ?thesis using do_checkpoint_length [OF inv False d] c by (simp add: cm' closable_def)
  qed
  with k c show ?thesis by (simp add: closable_def)
qed

lemma BufferPool_destroy_stored:
  assumes c: "closable q v bp"
  shows "stored_page (disk_manager (BufferPool_destroy bp)) q = Some v"
    and "bp_inv (BufferPool_destroy bp) \<and> disk_reliable (disk_manager (BufferPool_destroy bp)) \<and> pool_open (BufferPool_destroy bp)"
    and "length (file_bytes (disk_manager (BufferPool_destroy bp))) < 2 ^ 44"
proof -
  let ?d = "get_dirty_pages bp"
  have inv: "bp_inv bp" and rel: "disk_reliable (disk_manager bp)" and b: "backed bp q" and v: "bp_view bp q = Some v"
    using c by (simp_all add: closable_def)
  obtain ok bp1 where f: "flush_pages ?d bp = (ok, bp1)" by fastforce
  note r = flush_pages_reliable [OF inv rel f]
  have inv1: "bp_inv bp1" using flush_pages_keeps(1) [OF inv, of ?d] f by simp
  have "backed bp1 q" using flush_pages_keeps(2) [OF inv, of q ?d] b f by (simp add: keeps_def)
  moreover have "get_dirty_pages bp1 = []" using r by (simp add: filter_empty_conv)
  ultimately have o1: "on_disk bp1 q v" using clean_on_disk [OF inv1] r v by simp
  have l1: "length (file_bytes (disk_manager bp1)) = length (file_bytes (disk_manager bp))"
    using flush_pages_length [OF inv, of ?d] f by simp
  have i1: "pool_open bp1" using flush_pages_initialized [of ?d bp] f c by (simp add: closable_def)
  have D: "BufferPool_destroy bp = (if ?d = [] then bp else sync_all bp1)" by (simp add: BufferPool_destroy_def f)
  show "stored_page (disk_manager (BufferPool_destroy bp)) q = Some v"
    using o1 clean_on_disk [OF inv b v] by (simp add: D on_disk_def)
  show "bp_inv (BufferPool_destroy bp) \<and> disk_reliable (disk_manager (BufferPool_destroy bp)) \<and> pool_open (BufferPool_destroy bp)"
    using sync_all_keeps(1) [OF inv1] disk_sync_reliable(1) [OF bp_invD(2) [OF inv1]] r i1 c by (simp add: D closable_def)
  show "length (file_bytes (disk_manager (BufferPool_destroy bp))) < 2 ^ 44" using l1 c by (simp add: D closable_def)
qed

lemma disk_shutdown_durable:
  assumes "disk_inv dm" and "disk_reliable dm" and "dm_initialized dm"
  shows "stored_page dm q = Some v \<Longrightarrow> durable (disk_shutdown dm) q v"
    and "fs_flushed (data_file (disk_shutdown dm)) = file_bytes dm"
proof -
  let ?f = "data_file dm"
  have f: "fs_reliable ?f" "fs_is_open ?f" "\<not> fs_fail ?f" using assms(1,2) by (auto simp: disk_inv_def disk_reliable_def)
  have "fs_flushed (fs_close (fs_flush ?f)) = fs_contents ?f"
    using f fs_reliable_ops(4) [of ?f] by (simp add: fs_close_def fs_next_def fs_reliable_def)
  then show fl: "fs_flushed (data_file (disk_shutdown dm)) = file_bytes dm"
    using assms(3) f(2) by (simp add: disk_shutdown_def Let_def file_bytes_def)
  show "durable (disk_shutdown dm) q v" if "stored_page dm q = Some v"
    using that by (simp add: durable_def fl stored_page_def split: if_splits)
qed

lemma wal_initialize_dirty: "dirty_page_count_m (snd (snd (wal_initialize w m))) = dirty_page_count_m m"
  by (auto simp: wal_initialize_def wal_open_finish_def Let_def split: prod.split io_outcome.split)

lemma ckpt_shutdown_closable:
  "closable q v (cm_pool cm) \<Longrightarrow> ckpt_shutdown t0 t1 t2 cm = Some cm' \<Longrightarrow> closable q v (cm_pool cm')"
  using do_checkpoint_closable [of q v "cm\<lparr>running := False\<rparr>" "\<lambda>_. False" t0 t1 t2 cm'] by (auto simp: ckpt_shutdown_def split: if_splits)

lemma ckpt_shutdown_returns:
  "0 < checkpoint_batch_size (cm_config cm) \<Longrightarrow> \<exists>cm'. ckpt_shutdown t0 t1 t2 cm = Some cm'"
  using do_checkpoint_returns [of "cm\<lparr>running := False\<rparr>" Shutdown "\<lambda>_. False" t0 t1 t2] by (simp add: ckpt_shutdown_def)

lemma se_initialize_finds:
  assumes "durable dm q v" and "length (fs_flushed (data_file dm)) < 2 ^ 44" and "\<not> se_initialized se"
    and i: "se_initialize \<lparr>data_db = Some (fs_flushed (data_file dm)), data_env = \<lambda>_. IoOk, wal_segments = segs, wal_outcomes = env\<rparr>
        now se = (True, se')"
    and n: "0 < buffer_pool_pages (se_config se)" "buffer_pool_pages (se_config se) < 2 ^ 64"
  shows "\<exists>cm j bp. se_subsystems se' = Running cm \<and> fetch_page q (cm_pool cm) = (Some j, bp) \<and> page_body (page_data (page_at bp j)) = v"
  using i assms(3)
proof (cases rule: se_initialize_cases)
  case (started dm1 w m)
  obtain dm' where d: "disk_initialize (DiskManager_new (Some (fs_flushed (data_file dm))) (\<lambda>_. IoOk)) = (True, dm')"
    "disk_inv dm'" "disk_reliable dm'" "stored_page dm' q = Some v"
    by (rule durable_reopen [OF assms(1,2)])
  with started(2) have dm1: "dm1 = dm'" by simp
  have "dirty_page_count_m m = 0"
    using wal_initialize_dirty [of "WriteAheadLog_new segs (64 * 1024 * 1024) env" "initial_metrics now"] started(3)
    by (simp add: initial_metrics_def)
  from fresh_pool_fetch [OF d(2-4) n this] obtain j bp where
    "fetch_page q (BufferPool_new (buffer_pool_pages (se_config se)) dm' m) = (Some j, bp)" "page_body (page_data (page_at bp j)) = v"
    by blast
  then show ?thesis by (simp add: started(4) dm1 ckpt_start_def CheckpointManager_new_def)
qed simp_all


definition demo_pool_engine :: StorageEngine where
  "demo_pool_engine = (StorageEngine_new default_config)\<lparr>se_initialized := True, se_subsystems := Running demo_durable\<rparr>"

lemma demo_written_open: "dm_initialized (disk_manager demo_written)"
proof -
  have "disk_manager demo_created = demo_disk1"
    by (simp add: demo_created_def demo_pool_def BufferPool_new_def new_page_def find_victim_frame_def Let_def demo_alloc)
  moreover have "dm_initialized demo_disk1 = dm_initialized demo_disk" by (simp add: demo_disk1_def allocate_page_def Let_def)
  moreover have "dm_initialized demo_disk"
    by (rule disk_initialize_inv(2) [OF demo_disk_init]) (simp add: DiskManager_new_def)
  ultimately show ?thesis by (simp add: demo_written_disk)
qed


end
