(* ===== verification/Sql_Lexer.thy ===== *)
theory Sql_Lexer
  imports Main "HOL-Library.Char_ord"
begin

text \<open>
  \<open>src/sql/lexer.hpp\<close> and \<open>lexer.cpp\<close>: the scanner of the SQL front end. The state has the fields of the
  class; a character of the input is a \<open>char\<close> and the end of the input is the character 0, as in the code.
  The positions are natural numbers. The loops are recursive functions that stop at the character 0, which
  every loop of the code does: letters, digits and white space are not 0, and the string loop tests for it.
\<close>

section \<open>Tokens and state\<close>

datatype TokenType =
    SELECT | FROM | WHERE | INSERT | INTO | VALUES | CREATE | TABLE
  | ASTERISK | COMMA | LPAREN | RPAREN | EQUALS | SEMICOLON
  | IDENTIFIER | STRING_LITERAL | NUMBER
  | END_OF_FILE | ILLEGAL

record Token =
  tok_type :: TokenType
  literal :: string
  tok_line :: int
  tok_column :: int

record Lexer =
  lex_input :: string
  position :: nat
  read_position :: nat
  ch :: char
  line :: int
  column :: int

abbreviation nul :: char where "nul \<equiv> CHR 0x00"

section \<open>Operations\<close>

definition read_char :: "Lexer \<Rightarrow> Lexer" where
  "read_char l =
     l\<lparr>ch := (if length (lex_input l) \<le> read_position l then nul else lex_input l ! read_position l),
       position := read_position l, read_position := read_position l + 1, column := column l + 1\<rparr>"

definition Lexer_new :: "string \<Rightarrow> Lexer" where
  "Lexer_new s =
     read_char \<lparr>lex_input = s, position = 0, read_position = 0, ch = nul, line = 1, column = 0\<rparr>"

definition peek_char :: "Lexer \<Rightarrow> char" where
  "peek_char l = (if length (lex_input l) \<le> read_position l then nul else lex_input l ! read_position l)"

definition is_letter :: "char \<Rightarrow> bool" where
  "is_letter c \<longleftrightarrow> (CHR ''a'' \<le> c \<and> c \<le> CHR ''z'') \<or> (CHR ''A'' \<le> c \<and> c \<le> CHR ''Z'') \<or> c = CHR ''_''"

definition is_digit :: "char \<Rightarrow> bool" where
  "is_digit c \<longleftrightarrow> CHR ''0'' \<le> c \<and> c \<le> CHR ''9''"

definition is_blank :: "char \<Rightarrow> bool" where
  "is_blank c \<longleftrightarrow> c = CHR '' '' \<or> c = CHR 0x09 \<or> c = CHR 0x0A \<or> c = CHR 0x0D"

text \<open>What is left to read; every loop decreases it. The end of the input is the character 0.\<close>

definition remaining :: "Lexer \<Rightarrow> nat" where
  "remaining l = length (lex_input l) - read_position l + (if ch l = nul then 0 else 1)"

lemma remaining_read_char: "ch l \<noteq> nul \<Longrightarrow> remaining (read_char l) < remaining l"
  by (auto simp: remaining_def read_char_def)

lemma remaining_read_char_le: "remaining (read_char l) \<le> remaining l"
  by (auto simp: remaining_def read_char_def)

function skip_whitespace :: "Lexer \<Rightarrow> Lexer" where
  "skip_whitespace l =
     (if is_blank (ch l)
      then skip_whitespace (read_char
        (if ch l = CHR 0x0A then l\<lparr>line := line l + 1, column := 0\<rparr> else l))
      else l)"
  by pat_completeness auto
termination
proof (relation "measure remaining")
  fix l :: Lexer assume s: "is_blank (ch l)"
  let ?l = "if ch l = CHR 0x0A then l\<lparr>line := line l + 1, column := 0\<rparr> else l"
  have "ch ?l \<noteq> nul" "remaining ?l = remaining l" using s by (auto simp: is_blank_def remaining_def)
  then show "(read_char ?l, l) \<in> measure remaining" using remaining_read_char [of ?l] by simp
qed simp

text \<open>\<open>while (P(ch_)) read_char();\<close>\<close>

function read_while :: "(char \<Rightarrow> bool) \<Rightarrow> Lexer \<Rightarrow> Lexer" where
  "read_while P l = (if ch l \<noteq> nul \<and> P (ch l) then read_while P (read_char l) else l)"
  by pat_completeness auto
termination
  by (relation "measure (\<lambda>(P, l). remaining l)") (simp_all add: remaining_read_char)

declare skip_whitespace.simps [simp del] read_while.simps [simp del]

text \<open>\<open>input_.substr(start, position_ - start)\<close>\<close>

definition substr_to :: "nat \<Rightarrow> Lexer \<Rightarrow> string" where
  "substr_to start l = take (position l - start) (drop start (lex_input l))"

definition read_string :: "Lexer \<Rightarrow> string \<times> Lexer" where
  "read_string l =
     (let quote = ch l;
          l1 = read_char l;
          start = position l1;
          l2 = read_while (\<lambda>c. c \<noteq> quote) l1
      in (substr_to start l2, if ch l2 = quote then read_char l2 else l2))"

definition read_identifier :: "Lexer \<Rightarrow> string \<times> Lexer" where
  "read_identifier l =
     (let l1 = read_while (\<lambda>c. is_letter c \<or> is_digit c \<or> c = CHR ''_'') l in (substr_to (position l) l1, l1))"

definition read_number :: "Lexer \<Rightarrow> string \<times> Lexer" where
  "read_number l = (let l1 = read_while is_digit l in (substr_to (position l) l1, l1))"

definition toupper :: "char \<Rightarrow> char" where
  "toupper c = (if CHR ''a'' \<le> c \<and> c \<le> CHR ''z'' then char_of (of_char c - 32 :: nat) else c)"

definition keyword_table :: "(string \<times> TokenType) list" where
  "keyword_table =
     [(''SELECT'', SELECT), (''FROM'', FROM), (''WHERE'', WHERE), (''INSERT'', INSERT),
      (''INTO'', INTO), (''VALUES'', VALUES), (''CREATE'', CREATE), (''TABLE'', TABLE)]"

definition lookup_ident :: "string \<Rightarrow> TokenType" where
  "lookup_ident ident =
     (case map_of keyword_table (map toupper ident) of Some t \<Rightarrow> t | None \<Rightarrow> IDENTIFIER)"

definition symbol_type :: "char \<Rightarrow> TokenType option" where
  "symbol_type c =
     map_of [(CHR ''*'', ASTERISK), (CHR '','', COMMA), (CHR '';'', SEMICOLON), (CHR ''('', LPAREN),
             (CHR '')'', RPAREN), (CHR ''='', EQUALS)] c"

definition next_token :: "Lexer \<Rightarrow> Token \<times> Lexer" where
  "next_token l0 =
     (let l = skip_whitespace l0;
          tok = (\<lambda>ty s. \<lparr>tok_type = ty, literal = s, tok_line = line l, tok_column = column l\<rparr>)
      in case symbol_type (ch l) of
           Some ty \<Rightarrow> (tok ty [ch l], read_char l)
         | None \<Rightarrow>
             (if ch l = nul then (tok END_OF_FILE [], read_char l)
              else if ch l = CHR 0x27 \<or> ch l = CHR 0x22
              then let (s, l') = read_string l in (tok STRING_LITERAL s, l')
              else if is_letter (ch l)
              then let (s, l') = read_identifier l in (tok (lookup_ident s) s, l')
              else if is_digit (ch l)
              then let (s, l') = read_number l in (tok NUMBER s, l')
              else (tok ILLEGAL [ch l], read_char l)))"

section \<open>Progress\<close>

lemma nul_not_blank [simp]: "\<not> is_blank nul" "\<not> is_letter nul" "\<not> is_digit nul"
  by (simp_all add: is_blank_def is_letter_def is_digit_def less_eq_char_def)

lemma remaining_fields [simp]: "remaining (l\<lparr>line := a, column := b\<rparr>) = remaining l"
  by (simp add: remaining_def)

lemma remaining_skip: "remaining (skip_whitespace l) \<le> remaining l"
proof (induction l rule: skip_whitespace.induct)
  case (1 l)
  let ?l = "if ch l = CHR 0x0A then l\<lparr>line := line l + 1, column := 0\<rparr> else l"
  have "remaining (read_char ?l) \<le> remaining l" using remaining_read_char_le [of ?l] by (simp split: if_splits)
  then show ?case using 1 by (subst skip_whitespace.simps) (auto intro: order_trans)
qed

lemma remaining_while: "remaining (read_while P l) \<le> remaining l"
proof (induction P l rule: read_while.induct)
  case (1 P l)
  then show ?case using remaining_read_char_le [of l] by (subst read_while.simps) (auto intro: order_trans)
qed

lemma remaining_while_less:
  assumes "ch l \<noteq> nul" and "P (ch l)"
  shows "remaining (read_while P l) < remaining l"
  using assms remaining_read_char [OF assms(1)] remaining_while [of P "read_char l"]
  by (subst read_while.simps) simp

lemma remaining_string: "ch l \<noteq> nul \<Longrightarrow> remaining (snd (read_string l)) < remaining l"
proof -
  assume "ch l \<noteq> nul"
  let ?l = "read_while (\<lambda>c. c \<noteq> ch l) (read_char l)"
  have "remaining ?l < remaining l"
    using remaining_while [of _ "read_char l"] remaining_read_char [OF \<open>ch l \<noteq> nul\<close>] by (rule le_less_trans)
  then show ?thesis using remaining_read_char_le [of ?l] by (simp add: read_string_def Let_def)
qed

text \<open>Every token but the end of the input consumes input.\<close>

lemma next_token_progress:
  assumes "next_token l = (t, l')"
  shows "remaining l' \<le> remaining l" and "tok_type t \<noteq> END_OF_FILE \<Longrightarrow> remaining l' < remaining l"
proof -
  let ?l = "skip_whitespace l"
  have less: "remaining l' < remaining ?l" if "ch ?l \<noteq> nul"
    using assms that remaining_read_char [of ?l] remaining_string [of ?l]
      remaining_while_less [of ?l is_digit] remaining_while_less [of ?l "\<lambda>c. is_letter c \<or> is_digit c \<or> c = CHR ''_''"]
    by (auto simp: next_token_def read_identifier_def read_number_def Let_def split: option.splits if_splits prod.splits)
  have eof: "tok_type t = END_OF_FILE \<and> remaining l' \<le> remaining ?l" if "ch ?l = nul"
    using assms that remaining_read_char_le [of ?l] by (auto simp: next_token_def symbol_type_def Let_def)
  show "remaining l' \<le> remaining l" "tok_type t \<noteq> END_OF_FILE \<Longrightarrow> remaining l' < remaining l"
    using less eof remaining_skip [of l] by (cases "ch ?l = nul"; simp)+
qed

section \<open>The unread input\<close>

definition lex_ok :: "Lexer \<Rightarrow> bool" where
  "lex_ok l \<longleftrightarrow> read_position l = Suc (position l) \<and>
     ch l = (if position l < length (lex_input l) then lex_input l ! position l else nul)"

definition rest :: "Lexer \<Rightarrow> string" where
  "rest l = drop (position l) (lex_input l)"

lemma Lexer_new_ok [simp]: "lex_ok (Lexer_new s)" "rest (Lexer_new s) = s"
  by (auto simp: lex_ok_def rest_def Lexer_new_def read_char_def)

lemma read_char_ok [simp]:
  assumes "lex_ok l"
  shows "lex_ok (read_char l)" "rest (read_char l) = tl (rest l)" "position (read_char l) = Suc (position l)"
  using assms by (auto simp: lex_ok_def rest_def read_char_def drop_Suc tl_drop)

lemma read_char_input [simp]: "lex_input (read_char l) = lex_input l"
  by (simp add: read_char_def)

lemma ch_rest: "lex_ok l \<Longrightarrow> ch l = (case rest l of [] \<Rightarrow> nul | c # _ \<Rightarrow> c)"
  by (auto simp: lex_ok_def rest_def Cons_nth_drop_Suc [symmetric] split: list.split)

lemma lex_ok_fields [simp]:
  "lex_ok (l\<lparr>line := a, column := b\<rparr>) = lex_ok l" "rest (l\<lparr>line := a, column := b\<rparr>) = rest l"
  by (simp_all add: lex_ok_def rest_def)

lemma skip_whitespace_ok:
  "lex_ok l \<Longrightarrow> lex_ok (skip_whitespace l) \<and> rest (skip_whitespace l) = dropWhile is_blank (rest l)"
proof (induction l rule: skip_whitespace.induct)
  case (1 l)
  show ?case
  proof (cases "is_blank (ch l)")
    case True
    then obtain c cs where r: "rest l = c # cs" "ch l = c"
      using ch_rest [OF 1(2)] by (auto split: list.splits)
    then show ?thesis
      using True 1 by (subst (1 2) skip_whitespace.simps) auto
  next
    case False
    then have "dropWhile is_blank (rest l) = rest l"
      using ch_rest [OF 1(2)] by (auto split: list.splits)
    then show ?thesis using False 1(2) by (simp add: skip_whitespace.simps)
  qed
qed

text \<open>A loop leaves what its test rejects and has passed what it accepts.\<close>

lemma read_while_ok:
  assumes "lex_ok l"
  shows "lex_ok (read_while P l) \<and> rest (read_while P l) = dropWhile (\<lambda>c. c \<noteq> nul \<and> P c) (rest l) \<and>
    position (read_while P l) = position l + length (takeWhile (\<lambda>c. c \<noteq> nul \<and> P c) (rest l)) \<and>
    lex_input (read_while P l) = lex_input l"
  using assms
proof (induction P l rule: read_while.induct)
  case (1 P l)
  show ?case
  proof (cases "ch l \<noteq> nul \<and> P (ch l)")
    case True
    then obtain c cs where r: "rest l = c # cs" "ch l = c"
      using ch_rest [OF 1(2)] by (auto split: list.splits)
    have "read_while P l = read_while P (read_char l)" using True by (subst read_while.simps) simp
    then show ?thesis using True 1 r by simp
  next
    case False
    have n: "\<not> (\<lambda>c. c \<noteq> nul \<and> P c) (case rest l of [] \<Rightarrow> nul | c # _ \<Rightarrow> c)" using False ch_rest [OF 1(2)] by simp
    have "read_while P l = l" using False by (subst read_while.simps) auto
    then show ?thesis using n 1(2) by (auto split: list.splits)
  qed
qed

lemma substr_read_while:
  assumes "lex_ok l"
  shows "substr_to (position l) (read_while P l) = takeWhile (\<lambda>c. c \<noteq> nul \<and> P c) (rest l)"
  using read_while_ok [OF assms, of P]
  by (simp add: substr_to_def rest_def) (metis takeWhile_eq_take)

lemma drop_nul [simp]:
  "(\<lambda>c. c \<noteq> nul \<and> is_digit c) = is_digit"
  "(\<lambda>c. c \<noteq> nul \<and> (is_letter c \<or> is_digit c \<or> c = CHR ''_'')) = (\<lambda>c. is_letter c \<or> is_digit c \<or> c = CHR ''_'')"
  by (auto simp: fun_eq_iff)

section \<open>Reference scanner\<close>

text \<open>The scanner without positions: the first token of a string, and what follows it.\<close>

type_synonym lexeme = "TokenType \<times> string"

abbreviation is_word_char :: "char \<Rightarrow> bool" where
  "is_word_char c \<equiv> is_letter c \<or> is_digit c \<or> c = CHR ''_''"

definition scan_string :: "char \<Rightarrow> string \<Rightarrow> lexeme \<times> string" where
  "scan_string q cs =
     (let inside = (\<lambda>d. d \<noteq> nul \<and> d \<noteq> q); r = dropWhile inside cs
      in ((STRING_LITERAL, takeWhile inside cs), if r \<noteq> [] \<and> hd r = q then tl r else r))"

definition scan1 :: "string \<Rightarrow> lexeme \<times> string" where
  "scan1 s =
     (case dropWhile is_blank s of
        [] \<Rightarrow> ((END_OF_FILE, []), [])
      | c # cs \<Rightarrow>
          (case symbol_type c of
             Some ty \<Rightarrow> ((ty, [c]), cs)
           | None \<Rightarrow>
               (if c = nul then ((END_OF_FILE, []), cs)
                else if c = CHR 0x27 \<or> c = CHR 0x22 then scan_string c cs
                else if is_letter c
                then let w = takeWhile is_word_char (c # cs) in ((lookup_ident w, w), dropWhile is_word_char (c # cs))
                else if is_digit c
                then ((NUMBER, takeWhile is_digit (c # cs)), dropWhile is_digit (c # cs))
                else ((ILLEGAL, [c]), cs))))"

definition lexeme_of :: "Token \<Rightarrow> lexeme" where
  "lexeme_of t = (tok_type t, literal t)"

lemma symbol_nul [simp]: "symbol_type nul = None"
  by (simp add: symbol_type_def)

lemma read_string_ok:
  assumes "lex_ok l" and "rest l = c # cs" and "c \<noteq> nul"
  shows "((STRING_LITERAL, fst (read_string l)), rest (snd (read_string l))) = scan_string c cs"
    and "lex_ok (snd (read_string l))"
proof -
  let ?l = "read_while (\<lambda>d. d \<noteq> c) (read_char l)"
  have c: "ch l = c" using ch_rest [OF assms(1)] assms(2) by simp
  have o: "lex_ok (read_char l)" "rest (read_char l) = cs" using assms by simp_all
  note w = read_while_ok [OF o(1), of "\<lambda>d. d \<noteq> c"] and s = substr_read_while [OF o(1), of "\<lambda>d. d \<noteq> c"]
  have h: "(ch ?l = c) = (rest ?l \<noteq> [] \<and> hd (rest ?l) = c)"
    using ch_rest [OF conjunct1 [OF w]] assms(3) by (cases "rest ?l") simp_all
  show "((STRING_LITERAL, fst (read_string l)), rest (snd (read_string l))) = scan_string c cs"
    and "lex_ok (snd (read_string l))"
    using w s h by (simp_all add: read_string_def scan_string_def c o(2) Let_def)
qed

lemma next_token_scan:
  assumes "lex_ok l" and "next_token l = (t, l')"
  shows "(lexeme_of t, rest l') = scan1 (rest l)" and "lex_ok l'"
proof -
  let ?l = "skip_whitespace l"
  have o: "lex_ok ?l" "rest ?l = dropWhile is_blank (rest l)" using skip_whitespace_ok [OF assms(1)] by simp_all
  have "(lexeme_of t, rest l') = scan1 (rest l) \<and> lex_ok l'"
  proof (cases "rest ?l")
    case Nil
    then have c: "ch ?l = nul" using ch_rest [OF o(1)] by simp
    show ?thesis using assms(2) o Nil by (auto simp: next_token_def scan1_def c Let_def lexeme_of_def)
  next
    case (Cons c cs)
    then have c: "ch ?l = c" using ch_rest [OF o(1)] by simp
    note d = Cons [unfolded o(2)]
    note i = read_while_ok [OF o(1), of is_word_char] substr_read_while [OF o(1), of is_word_char]
    note n = read_while_ok [OF o(1), of is_digit] substr_read_while [OF o(1), of is_digit]
    consider ty where "symbol_type c = Some ty" | "symbol_type c = None" "c = nul"
      | "symbol_type c = None" "c \<noteq> nul" "c = CHR 0x27 \<or> c = CHR 0x22"
      | "symbol_type c = None" "c \<noteq> nul" "\<not> (c = CHR 0x27 \<or> c = CHR 0x22)" "is_letter c"
      | "symbol_type c = None" "c \<noteq> nul" "\<not> (c = CHR 0x27 \<or> c = CHR 0x22)" "\<not> is_letter c" "is_digit c"
      | "symbol_type c = None" "c \<noteq> nul" "\<not> (c = CHR 0x27 \<or> c = CHR 0x22)" "\<not> is_letter c" "\<not> is_digit c"
      by (cases "symbol_type c") blast+
    then show ?thesis
    proof cases
      case 3
      then show ?thesis
        using assms(2) read_string_ok [OF o(1) Cons]
        by (auto simp: next_token_def scan1_def c d Let_def lexeme_of_def split: prod.splits)
    next
      case 4
      then show ?thesis using assms(2) i Cons
        by (auto simp: next_token_def read_identifier_def scan1_def c d Let_def lexeme_of_def)
    next
      case 5
      then show ?thesis using assms(2) n Cons
        by (auto simp: next_token_def read_number_def scan1_def c d Let_def lexeme_of_def)
    qed (use assms(2) o(1) Cons in \<open>auto simp: next_token_def scan1_def c d Let_def lexeme_of_def\<close>)
  qed
  then show "(lexeme_of t, rest l') = scan1 (rest l)" and "lex_ok l'" by simp_all
qed

section \<open>All lexemes up to the first end of the input\<close>

lemma scan1_shorter: "fst (fst (scan1 s)) \<noteq> END_OF_FILE \<Longrightarrow> length (snd (scan1 s)) < length s"
proof -
  assume a: "fst (fst (scan1 s)) \<noteq> END_OF_FILE"
  obtain c cs where d: "dropWhile is_blank s = c # cs"
    using a by (cases "dropWhile is_blank s") (auto simp: scan1_def)
  have l: "length (c # cs) \<le> length s" using length_dropWhile_le [of is_blank s] by (simp add: d)
  have "length (snd (scan_string q cs)) \<le> length cs" for q
    using length_dropWhile_le [of _ cs] by (auto simp: scan_string_def Let_def intro: le_trans [OF diff_le_self])
  then have "length (snd (scan1 s)) \<le> length cs"
    using length_dropWhile_le [of _ cs] by (auto simp: scan1_def d Let_def split: option.splits)
  then show ?thesis using l by simp
qed

function scan_all :: "string \<Rightarrow> lexeme list" where
  "scan_all s = (let (t, r) = scan1 s in if fst t = END_OF_FILE then [] else t # scan_all r)"
  by pat_completeness auto
termination
  by (relation "measure length") (simp, metis scan1_shorter fst_conv snd_conv in_measure)

declare scan_all.simps [simp del]

lemma scan_all_next:
  assumes "lex_ok l" and "next_token l = (t, l')"
  shows "scan_all (rest l) = (if tok_type t = END_OF_FILE then [] else lexeme_of t # scan_all (rest l'))"
  using next_token_scan(1) [OF assms, symmetric] by (subst scan_all.simps) (simp add: lexeme_of_def)

end
