(* ===== verification/Sql_Parser.thy ===== *)
theory Sql_Parser
  imports Sql_Lexer
begin

text \<open>
  \<open>src/sql/ast.hpp\<close>, \<open>ast.cpp\<close>, \<open>parser.hpp\<close> and \<open>parser.cpp\<close>: the statements, their printed form and the
  recursive descent parser. A null pointer is \<open>None\<close>. The three list loops of the parser differ in the token
  that ends them and in the tokens whose text they keep, which are the arguments of \<open>parse_list\<close>.
\<close>

section \<open>Statements\<close>

datatype StatementType = CREATE_TABLE | INSERT_STATEMENT | SELECT_STATEMENT | UNKNOWN

datatype Statement =
    CreateStatement string "string list"
  | InsertStatement string "string list"
  | SelectStatement string "string list"

fun statement_type :: "Statement \<Rightarrow> StatementType" where
  "statement_type (CreateStatement _ _) = CREATE_TABLE"
| "statement_type (InsertStatement _ _) = INSERT_STATEMENT"
| "statement_type (SelectStatement _ _) = SELECT_STATEMENT"

text \<open>\<open>columns[i] << (i < columns.size() - 1 ? ", " : "")\<close> for all \<open>i\<close>\<close>

fun comma_list :: "string list \<Rightarrow> string" where
  "comma_list [] = ''''"
| "comma_list [x] = x"
| "comma_list (x # xs) = x @ '', '' @ comma_list xs"

fun statement_to_string :: "Statement \<Rightarrow> string" where
  "statement_to_string (CreateStatement n cs) = ''CREATE TABLE '' @ n @ '' ('' @ comma_list cs @ '')''"
| "statement_to_string (InsertStatement n vs) = ''INSERT INTO '' @ n @ '' VALUES ('' @ comma_list vs @ '')''"
| "statement_to_string (SelectStatement n cs) =
     ''SELECT '' @ (if cs = [] then ''*'' else comma_list cs) @ '' FROM '' @ n"

section \<open>Parser\<close>

record Parser =
  p_lexer :: Lexer
  current_token :: Token
  peek_token :: Token

definition p_next_token :: "Parser \<Rightarrow> Parser" where
  "p_next_token p =
     (let (t, l) = next_token (p_lexer p)
      in p\<lparr>current_token := peek_token p, peek_token := t, p_lexer := l\<rparr>)"

text \<open>The two token fields are not set before the constructor reads two tokens, which overwrites them.\<close>

definition Parser_new :: "Lexer \<Rightarrow> Parser" where
  "Parser_new l =
     (let none = \<lparr>tok_type = ILLEGAL, literal = [], tok_line = 0, tok_column = 0\<rparr>
      in p_next_token (p_next_token \<lparr>p_lexer = l, current_token = none, peek_token = none\<rparr>))"

definition expect_peek :: "TokenType \<Rightarrow> Parser \<Rightarrow> Parser option" where
  "expect_peek ty p = (if tok_type (peek_token p) = ty then Some (p_next_token p) else None)"

definition unread :: "Parser \<Rightarrow> nat" where
  "unread p = remaining (p_lexer p) + (if tok_type (peek_token p) = END_OF_FILE then 0 else 1)"

lemma unread_next: "tok_type (peek_token p) \<noteq> END_OF_FILE \<Longrightarrow> unread (p_next_token p) < unread p"
  using next_token_progress [of "p_lexer p"]
  by (fastforce simp: unread_def p_next_token_def split: prod.split)

text \<open>One round of a list loop: a token is read, kept if its type is accepted, and a comma after it is skipped.\<close>

definition list_item :: "(TokenType \<Rightarrow> bool) \<Rightarrow> Parser \<Rightarrow> string list \<times> Parser" where
  "list_item accept p =
     (let p1 = p_next_token p;
          keep = (if accept (tok_type (current_token p1)) then [literal (current_token p1)] else [])
      in (keep, if tok_type (peek_token p1) = COMMA then p_next_token p1 else p1))"

lemma unread_item:
  assumes "tok_type (peek_token p) \<noteq> END_OF_FILE"
  shows "unread (snd (list_item accept p)) < unread p"
  using unread_next [OF assms] unread_next [of "p_next_token p"] by (auto simp: list_item_def Let_def)

function parse_list :: "TokenType \<Rightarrow> (TokenType \<Rightarrow> bool) \<Rightarrow> string list \<Rightarrow> Parser \<Rightarrow> string list \<times> Parser" where
  "parse_list stop accept acc p =
     (if tok_type (peek_token p) \<noteq> stop \<and> tok_type (peek_token p) \<noteq> END_OF_FILE
      then parse_list stop accept (acc @ fst (list_item accept p)) (snd (list_item accept p))
      else (acc, p))"
  by pat_completeness auto
termination
  by (relation "measure (\<lambda>(stop, accept, acc, p). unread p)") (simp_all add: unread_item)

declare parse_list.simps [simp del]

definition parse_create_table :: "Parser \<Rightarrow> Statement option" where
  "parse_create_table p0 =
     (case expect_peek TABLE p0 of None \<Rightarrow> None | Some p1 \<Rightarrow>
      case expect_peek IDENTIFIER p1 of None \<Rightarrow> None | Some p2 \<Rightarrow>
      let name = literal (current_token p2) in
      case expect_peek LPAREN p2 of None \<Rightarrow> None | Some p3 \<Rightarrow>
      let (columns, p4) = parse_list RPAREN (\<lambda>ty. ty = IDENTIFIER) [] p3 in
      case expect_peek RPAREN p4 of None \<Rightarrow> None | Some p5 \<Rightarrow> Some (CreateStatement name columns))"

definition parse_insert :: "Parser \<Rightarrow> Statement option" where
  "parse_insert p0 =
     (case expect_peek INTO p0 of None \<Rightarrow> None | Some p1 \<Rightarrow>
      case expect_peek IDENTIFIER p1 of None \<Rightarrow> None | Some p2 \<Rightarrow>
      let name = literal (current_token p2) in
      case expect_peek VALUES p2 of None \<Rightarrow> None | Some p3 \<Rightarrow>
      case expect_peek LPAREN p3 of None \<Rightarrow> None | Some p4 \<Rightarrow>
      let (vals, p5) = parse_list RPAREN (\<lambda>ty. ty = STRING_LITERAL \<or> ty = NUMBER \<or> ty = IDENTIFIER) [] p4 in
      case expect_peek RPAREN p5 of None \<Rightarrow> None | Some p6 \<Rightarrow> Some (InsertStatement name vals))"

definition parse_select :: "Parser \<Rightarrow> Statement option" where
  "parse_select p0 =
     (let (columns, p1) = parse_list FROM (\<lambda>ty. ty = ASTERISK \<or> ty = IDENTIFIER) [] p0 in
      case expect_peek FROM p1 of None \<Rightarrow> None | Some p2 \<Rightarrow>
      case expect_peek IDENTIFIER p2 of None \<Rightarrow> None | Some p3 \<Rightarrow>
      Some (SelectStatement (literal (current_token p3)) columns))"

definition parse_statement :: "Parser \<Rightarrow> Statement option" where
  "parse_statement p =
     (case tok_type (current_token p) of
        CREATE \<Rightarrow> parse_create_table p
      | INSERT \<Rightarrow> parse_insert p
      | SELECT \<Rightarrow> parse_select p
      | _ \<Rightarrow> None)"

definition parse :: "string \<Rightarrow> Statement option" where
  "parse s = parse_statement (Parser_new (Lexer_new s))"

section \<open>What the parser relies on\<close>

text \<open>
  A source of tokens stands for the list of lexemes before its first end of input, and each token is the next of them.
  With one token read ahead, the lexemes before the reader are those of the token and of the source.
\<close>

locale token_source =
  fixes nxt :: "'l \<Rightarrow> Token \<times> 'l"
    and ok :: "'l \<Rightarrow> bool"
    and lexemes :: "'l \<Rightarrow> lexeme list"
  assumes nxt_ok: "ok l \<Longrightarrow> ok (snd (nxt l))"
    and nxt_lexemes: "ok l \<Longrightarrow> lexemes l =
      (if tok_type (fst (nxt l)) = END_OF_FILE then [] else lexeme_of (fst (nxt l)) # lexemes (snd (nxt l)))"
begin

lemma lookahead:
  assumes "ok l" and "nxt l = (t, l')"
  shows "ok l'" and "lexemes l = (if tok_type t = END_OF_FILE then [] else lexeme_of t # lexemes l')"
  using nxt_ok [OF assms(1)] nxt_lexemes [OF assms(1)] assms(2) by simp_all

lemma two_tokens:
  assumes "ok l" and "nxt l = (t1, l1)" and "nxt l1 = (t2, l2)"
  shows "ok l2" and "lexemes l = (if tok_type t1 = END_OF_FILE then []
      else lexeme_of t1 # (if tok_type t2 = END_OF_FILE then [] else lexeme_of t2 # lexemes l2))"
  using lookahead [OF assms(1,2)] lookahead [of l1 t2 l2] assms(3) by simp_all

end

interpretation lexer: token_source next_token lex_ok "\<lambda>l. scan_all (rest l)"
proof
  show "lex_ok (snd (next_token l))" if "lex_ok l" for l
    using next_token_scan(2) [OF that] by (metis prod.collapse)
  show "scan_all (rest l) = (if tok_type (fst (next_token l)) = END_OF_FILE then []
      else lexeme_of (fst (next_token l)) # scan_all (rest (snd (next_token l))))" if "lex_ok l" for l
    using scan_all_next [OF that] by (metis prod.collapse)
qed

section \<open>The lexemes ahead\<close>

definition ahead :: "Parser \<Rightarrow> lexeme list" where
  "ahead p = (if tok_type (peek_token p) = END_OF_FILE then []
     else lexeme_of (peek_token p) # scan_all (rest (p_lexer p)))"

abbreviation p_ok :: "Parser \<Rightarrow> bool" where "p_ok p \<equiv> lex_ok (p_lexer p)"

lemma ahead_Nil: "ahead p = [] \<longleftrightarrow> tok_type (peek_token p) = END_OF_FILE"
  by (simp add: ahead_def)

lemma ahead_Cons: "ahead p = (ty, s) # ts \<Longrightarrow> tok_type (peek_token p) = ty \<and> literal (peek_token p) = s \<and> ty \<noteq> END_OF_FILE"
  by (auto simp: ahead_def lexeme_of_def split: if_splits)

lemma p_next_ok:
  assumes "p_ok p"
  shows "p_ok (p_next_token p)" and "ahead p = (ty, s) # ts \<Longrightarrow> ahead (p_next_token p) = ts"
    and "current_token (p_next_token p) = peek_token p"
proof -
  obtain t l where n: "next_token (p_lexer p) = (t, l)" by fastforce
  show "p_ok (p_next_token p)" "current_token (p_next_token p) = peek_token p"
    using lexer.lookahead(1) [OF assms n] by (simp_all add: p_next_token_def n)
  assume a: "ahead p = (ty, s) # ts"
  then show "ahead (p_next_token p) = ts"
    using lexer.lookahead(2) [OF assms n] by (auto simp: ahead_def p_next_token_def n split: if_splits)
qed

lemma expect_peek_Some:
  assumes "expect_peek ty p = Some q" and "p_ok p" and "ty \<noteq> END_OF_FILE"
  shows "p_ok q" and "ahead p = (ty, literal (current_token q)) # ahead q"
proof -
  have q: "q = p_next_token p" and t: "tok_type (peek_token p) = ty"
    using assms(1) by (auto simp: expect_peek_def split: if_splits)
  then obtain ts where a: "ahead p = (ty, literal (peek_token p)) # ts"
    using assms(3) by (auto simp: ahead_def lexeme_of_def)
  then show "p_ok q" "ahead p = (ty, literal (current_token q)) # ahead q"
    using p_next_ok [OF assms(2)] by (auto simp: q)
qed

lemma expect_peek_ahead:
  assumes "ahead p = (ty, s) # ts" and "p_ok p"
  obtains q where "expect_peek ty p = Some q" "p_ok q" "ahead q = ts" "literal (current_token q) = s"
  by (rule that [of "p_next_token p"])
    (use ahead_Cons [OF assms(1)] p_next_ok [OF assms(2)] assms(1) in \<open>auto simp: expect_peek_def\<close>)

definition kept :: "(TokenType \<Rightarrow> bool) \<Rightarrow> lexeme list \<Rightarrow> string list" where
  "kept accept ts = map snd (filter (\<lambda>t. accept (fst t)) ts)"

lemma kept_simps [simp]:
  "kept accept [] = []" "kept accept (t # ts) = (if accept (fst t) then snd t # kept accept ts else kept accept ts)"
  by (simp_all add: kept_def)

text \<open>A list loop keeps the accepted lexemes before the first one that ends it; commas do not matter.\<close>

lemma parse_list_ahead:
  assumes "p_ok p" and "stop \<noteq> COMMA" and "\<not> accept COMMA"
  shows "p_ok (snd (parse_list stop accept acc p)) \<and>
    fst (parse_list stop accept acc p) = acc @ kept accept (takeWhile (\<lambda>t. fst t \<noteq> stop) (ahead p)) \<and>
    ahead (snd (parse_list stop accept acc p)) = dropWhile (\<lambda>t. fst t \<noteq> stop) (ahead p)"
  using assms
proof (induction stop accept acc p rule: parse_list.induct)
  case (1 stop accept acc p)
  show ?case
  proof (cases "tok_type (peek_token p) \<noteq> stop \<and> tok_type (peek_token p) \<noteq> END_OF_FILE")
    case True
    then obtain ts where a: "ahead p = (tok_type (peek_token p), literal (peek_token p)) # ts"
      by (auto simp: ahead_def lexeme_of_def)
    let ?p = "p_next_token p"
    note n = p_next_ok [OF 1(2)]
    have a1: "ahead ?p = ts" by (rule n(2) [OF a])
    obtain q where q: "snd (list_item accept p) = q" by simp
    have "p_ok q \<and> (ahead q = ts \<or> (\<exists>s. ts = (COMMA, s) # ahead q))"
    proof (cases "tok_type (peek_token ?p) = COMMA")
      case True
      then obtain s us where u: "ts = (COMMA, s) # us" using a1 by (auto simp: ahead_def lexeme_of_def)
      then have "ahead (p_next_token ?p) = us" using p_next_ok(2) [OF n(1)] a1 by simp
      then show ?thesis using True u q p_next_ok(1) [OF n(1)] by (auto simp: list_item_def Let_def)
    qed (use n(1) a1 q in \<open>auto simp: list_item_def Let_def\<close>)
    then have k: "p_ok q" "kept accept (takeWhile (\<lambda>t. fst t \<noteq> stop) ts) = kept accept (takeWhile (\<lambda>t. fst t \<noteq> stop) (ahead q))"
      "dropWhile (\<lambda>t. fst t \<noteq> stop) ts = dropWhile (\<lambda>t. fst t \<noteq> stop) (ahead q)"
      using 1(3,4) by auto
    have i: "fst (list_item accept p) = (if accept (tok_type (peek_token p)) then [literal (peek_token p)] else [])"
      by (simp add: list_item_def Let_def n(3))
    have "parse_list stop accept acc p = parse_list stop accept (acc @ fst (list_item accept p)) q"
      using True q by (subst parse_list.simps) simp
    then show ?thesis using 1(1) [OF True] 1(3,4) k True by (simp add: q a i)
  next
    case False
    then have "ahead p = [] \<or> (\<exists>s ts. ahead p = (stop, s) # ts)"
      by (auto simp: ahead_def lexeme_of_def)
    moreover have "parse_list stop accept acc p = (acc, p)" using False by (subst parse_list.simps) auto
    ultimately show ?thesis using 1(2) by auto
  qed
qed

lemma split_at_stop:
  "dropWhile (\<lambda>t. fst t \<noteq> stop) ts = (stop, s) # vs \<Longrightarrow>
   ts = takeWhile (\<lambda>t. fst t \<noteq> stop) ts @ (stop, s) # vs \<and> stop \<notin> fst ` set (takeWhile (\<lambda>t. fst t \<noteq> stop) ts)"
  using takeWhile_dropWhile_id [of "\<lambda>t. fst t \<noteq> stop" ts] by (auto dest: set_takeWhileD)

lemma take_drop_stop [simp]:
  "stop \<notin> fst ` set us \<Longrightarrow> takeWhile (\<lambda>t. fst t \<noteq> stop) (us @ (stop, s) # vs) = us"
  "stop \<notin> fst ` set us \<Longrightarrow> dropWhile (\<lambda>t. fst t \<noteq> stop) (us @ (stop, s) # vs) = (stop, s) # vs"
  by (induction us) (auto simp: image_iff)

text \<open>A list that is closed by its stop token, in terms of the lexemes ahead.\<close>

definition list_loop :: "TokenType \<Rightarrow> (TokenType \<Rightarrow> bool) \<Rightarrow> bool" where
  "list_loop stop accept \<longleftrightarrow> stop \<noteq> COMMA \<and> stop \<noteq> END_OF_FILE \<and> \<not> accept COMMA"

lemma list_loops:
  "list_loop RPAREN (\<lambda>ty. ty = IDENTIFIER)"
  "list_loop RPAREN (\<lambda>ty. ty = STRING_LITERAL \<or> ty = NUMBER \<or> ty = IDENTIFIER)"
  "list_loop FROM (\<lambda>ty. ty = ASTERISK \<or> ty = IDENTIFIER)"
  by (simp_all add: list_loop_def)

lemma parse_list_closed:
  assumes "p_ok p" and loop: "list_loop stop accept"
    and l: "parse_list stop accept [] p = (items, q)" and e: "expect_peek stop q = Some r"
  obtains us s where "p_ok r" "ahead p = us @ (stop, s) # ahead r" "stop \<notin> fst ` set us" "items = kept accept us"
proof -
  note a = parse_list_ahead [of p stop accept "[]", OF assms(1), unfolded l, simplified]
  have "p_ok q" "stop \<noteq> END_OF_FILE" using a loop by (simp_all add: list_loop_def)
  note e = expect_peek_Some [OF e this]
  have "dropWhile (\<lambda>t. fst t \<noteq> stop) (ahead p) = (stop, literal (current_token r)) # ahead r"
    using e(2) a loop by (simp add: list_loop_def)
  from split_at_stop [OF this] show thesis
    using that [OF e(1)] a loop unfolding list_loop_def by blast
qed

lemma parse_list_ends:
  assumes "p_ok p" and loop: "list_loop stop accept"
    and "ahead p = us @ (stop, s) # vs" and "stop \<notin> fst ` set us"
  obtains q r where "parse_list stop accept [] p = (kept accept us, q)" "expect_peek stop q = Some r"
    "p_ok r" "ahead r = vs"
proof -
  obtain items q where l: "parse_list stop accept [] p = (items, q)" by fastforce
  note a = parse_list_ahead [of p stop accept "[]", OF assms(1), unfolded l, simplified]
  have i: "items = kept accept us" and q: "p_ok q" "ahead q = (stop, s) # vs"
    using a assms(3,4) loop by (simp_all add: list_loop_def)
  from q(2,1) obtain r where "expect_peek stop q = Some r" "p_ok r" "ahead r = vs" by (rule expect_peek_ahead)
  then show thesis using that l i by blast
qed

section \<open>What is accepted\<close>

lemma parse_create_table_iff:
  assumes ok: "p_ok p"
  shows "parse_create_table p = Some st \<longleftrightarrow>
    (\<exists>a n b us c vs. ahead p = (TABLE, a) # (IDENTIFIER, n) # (LPAREN, b) # us @ (RPAREN, c) # vs \<and>
       RPAREN \<notin> fst ` set us \<and> st = CreateStatement n (kept (\<lambda>ty. ty = IDENTIFIER) us))"
proof
  assume "parse_create_table p = Some st"
  then obtain p1 p2 p3 q r cs where e: "expect_peek TABLE p = Some p1" "expect_peek IDENTIFIER p1 = Some p2"
    "expect_peek LPAREN p2 = Some p3" "parse_list RPAREN (\<lambda>ty. ty = IDENTIFIER) [] p3 = (cs, q)"
    "expect_peek RPAREN q = Some r" "st = CreateStatement (literal (current_token p2)) cs"
    by (auto simp: parse_create_table_def Let_def split: option.splits prod.splits)
  note 1 = expect_peek_Some [OF e(1) ok, simplified]
  note 2 = expect_peek_Some [OF e(2) 1(1), simplified]
  note 3 = expect_peek_Some [OF e(3) 2(1), simplified]
  from 3(1) list_loops(1) e(4,5) obtain us s where "p_ok r"
    "ahead p3 = us @ (RPAREN, s) # ahead r" "RPAREN \<notin> fst ` set us" "cs = kept (\<lambda>ty. ty = IDENTIFIER) us" by (rule parse_list_closed)
  then show "\<exists>a n b us c vs. ahead p = (TABLE, a) # (IDENTIFIER, n) # (LPAREN, b) # us @ (RPAREN, c) # vs \<and>
       RPAREN \<notin> fst ` set us \<and> st = CreateStatement n (kept (\<lambda>ty. ty = IDENTIFIER) us)"
    using 1(2) 2(2) 3(2) e(6) by fastforce
next
  assume "\<exists>a n b us c vs. ahead p = (TABLE, a) # (IDENTIFIER, n) # (LPAREN, b) # us @ (RPAREN, c) # vs \<and>
       RPAREN \<notin> fst ` set us \<and> st = CreateStatement n (kept (\<lambda>ty. ty = IDENTIFIER) us)"
  then obtain a n b us c vs where h: "ahead p = (TABLE, a) # (IDENTIFIER, n) # (LPAREN, b) # us @ (RPAREN, c) # vs"
    "RPAREN \<notin> fst ` set us" "st = CreateStatement n (kept (\<lambda>ty. ty = IDENTIFIER) us)" by blast
  from h(1) ok obtain p1 where 1: "expect_peek TABLE p = Some p1" "p_ok p1"
    "ahead p1 = (IDENTIFIER, n) # (LPAREN, b) # us @ (RPAREN, c) # vs" by (rule expect_peek_ahead)
  from 1(3,2) obtain p2 where 2: "expect_peek IDENTIFIER p1 = Some p2" "p_ok p2"
    "ahead p2 = (LPAREN, b) # us @ (RPAREN, c) # vs" "literal (current_token p2) = n" by (rule expect_peek_ahead)
  from 2(3,2) obtain p3 where 3: "expect_peek LPAREN p2 = Some p3" "p_ok p3"
    "ahead p3 = us @ (RPAREN, c) # vs" by (rule expect_peek_ahead)
  from 3(2) list_loops(1) 3(3) h(2) obtain q r where "parse_list RPAREN (\<lambda>ty. ty = IDENTIFIER) [] p3 = (kept (\<lambda>ty. ty = IDENTIFIER) us, q)"
    "expect_peek RPAREN q = Some r" by (rule parse_list_ends)
  then show "parse_create_table p = Some st" using 1(1) 2(1,4) 3(1) h(3) by (simp add: parse_create_table_def)
qed

lemma parse_insert_iff:
  assumes ok: "p_ok p"
  shows "parse_insert p = Some st \<longleftrightarrow>
    (\<exists>a n b d us c vs. ahead p = (INTO, a) # (IDENTIFIER, n) # (VALUES, b) # (LPAREN, d) # us @ (RPAREN, c) # vs \<and>
       RPAREN \<notin> fst ` set us \<and>
       st = InsertStatement n (kept (\<lambda>ty. ty = STRING_LITERAL \<or> ty = NUMBER \<or> ty = IDENTIFIER) us))"
  (is "_ \<longleftrightarrow> ?R")
proof
  let ?acc = "\<lambda>ty. ty = STRING_LITERAL \<or> ty = NUMBER \<or> ty = IDENTIFIER"
  assume "parse_insert p = Some st"
  then obtain p1 p2 p3 p4 q r cs where e: "expect_peek INTO p = Some p1" "expect_peek IDENTIFIER p1 = Some p2"
    "expect_peek VALUES p2 = Some p3" "expect_peek LPAREN p3 = Some p4" "parse_list RPAREN ?acc [] p4 = (cs, q)"
    "expect_peek RPAREN q = Some r" "st = InsertStatement (literal (current_token p2)) cs"
    by (auto simp: parse_insert_def Let_def split: option.splits prod.splits)
  note 1 = expect_peek_Some [OF e(1) ok, simplified]
  note 2 = expect_peek_Some [OF e(2) 1(1), simplified]
  note 3 = expect_peek_Some [OF e(3) 2(1), simplified]
  note 4 = expect_peek_Some [OF e(4) 3(1), simplified]
  from 4(1) list_loops(2) e(5,6) obtain us s where "p_ok r"
    "ahead p4 = us @ (RPAREN, s) # ahead r" "RPAREN \<notin> fst ` set us" "cs = kept ?acc us" by (rule parse_list_closed)
  then show ?R using 1(2) 2(2) 3(2) 4(2) e(7) by fastforce
next
  let ?acc = "\<lambda>ty. ty = STRING_LITERAL \<or> ty = NUMBER \<or> ty = IDENTIFIER"
  assume ?R
  then obtain a n b d us c vs where
    h: "ahead p = (INTO, a) # (IDENTIFIER, n) # (VALUES, b) # (LPAREN, d) # us @ (RPAREN, c) # vs"
    "RPAREN \<notin> fst ` set us" "st = InsertStatement n (kept ?acc us)" by blast
  from h(1) ok obtain p1 where 1: "expect_peek INTO p = Some p1" "p_ok p1"
    "ahead p1 = (IDENTIFIER, n) # (VALUES, b) # (LPAREN, d) # us @ (RPAREN, c) # vs" by (rule expect_peek_ahead)
  from 1(3,2) obtain p2 where 2: "expect_peek IDENTIFIER p1 = Some p2" "p_ok p2"
    "ahead p2 = (VALUES, b) # (LPAREN, d) # us @ (RPAREN, c) # vs" "literal (current_token p2) = n"
    by (rule expect_peek_ahead)
  from 2(3,2) obtain p3 where 3: "expect_peek VALUES p2 = Some p3" "p_ok p3"
    "ahead p3 = (LPAREN, d) # us @ (RPAREN, c) # vs" by (rule expect_peek_ahead)
  from 3(3,2) obtain p4 where 4: "expect_peek LPAREN p3 = Some p4" "p_ok p4"
    "ahead p4 = us @ (RPAREN, c) # vs" by (rule expect_peek_ahead)
  from 4(2) list_loops(2) 4(3) h(2) obtain q r where "parse_list RPAREN ?acc [] p4 = (kept ?acc us, q)"
    "expect_peek RPAREN q = Some r" by (rule parse_list_ends)
  then show "parse_insert p = Some st" using 1(1) 2(1,4) 3(1) 4(1) h(3) by (simp add: parse_insert_def)
qed

lemma parse_select_iff:
  assumes ok: "p_ok p"
  shows "parse_select p = Some st \<longleftrightarrow>
    (\<exists>us a n vs. ahead p = us @ (FROM, a) # (IDENTIFIER, n) # vs \<and> FROM \<notin> fst ` set us \<and>
       st = SelectStatement n (kept (\<lambda>ty. ty = ASTERISK \<or> ty = IDENTIFIER) us))"
  (is "_ \<longleftrightarrow> ?R")
proof
  let ?acc = "\<lambda>ty. ty = ASTERISK \<or> ty = IDENTIFIER"
  assume "parse_select p = Some st"
  then obtain p2 p3 q cs where e: "parse_list FROM ?acc [] p = (cs, q)" "expect_peek FROM q = Some p2"
    "expect_peek IDENTIFIER p2 = Some p3" "st = SelectStatement (literal (current_token p3)) cs"
    by (auto simp: parse_select_def Let_def split: option.splits prod.splits)
  from ok list_loops(3) e(1,2) obtain us s where
    1: "p_ok p2" "ahead p = us @ (FROM, s) # ahead p2" "FROM \<notin> fst ` set us" "cs = kept ?acc us" by (rule parse_list_closed)
  from expect_peek_Some(2) [OF e(3) 1(1)] 1 e(4) show ?R by auto
next
  let ?acc = "\<lambda>ty. ty = ASTERISK \<or> ty = IDENTIFIER"
  assume ?R
  then obtain us a n vs where h: "ahead p = us @ (FROM, a) # (IDENTIFIER, n) # vs" "FROM \<notin> fst ` set us"
    "st = SelectStatement n (kept ?acc us)" by blast
  from ok list_loops(3) h(1,2) obtain q r where 1: "parse_list FROM ?acc [] p = (kept ?acc us, q)"
    "expect_peek FROM q = Some r" "p_ok r" "ahead r = (IDENTIFIER, n) # vs" by (rule parse_list_ends)
  from 1(4,3) obtain s where "expect_peek IDENTIFIER r = Some s" "literal (current_token s) = n"
    by (rule expect_peek_ahead)
  then show "parse_select p = Some st" using 1(1,2) h(3) by (simp add: parse_select_def)
qed

end
