(* ===== verification/Sql_Props.thy ===== *)
theory Sql_Props
  imports Sql_Parser
begin

text \<open>
  The properties of the SQL front end: the scanner agrees with a scanner on plain strings and terminates, the
  parser accepts exactly a grammar over the lexemes, and printed statements are read back.
\<close>

section \<open>The first token of the parser\<close>

lemma parser_start:
  fixes s
  defines "p \<equiv> Parser_new (Lexer_new s)"
  shows "p_ok p"
    and "scan_all s = (if tok_type (current_token p) = END_OF_FILE then [] else lexeme_of (current_token p) # ahead p)"
proof -
  obtain t1 l1 where 1: "next_token (Lexer_new s) = (t1, l1)" by fastforce
  obtain t2 l2 where 2: "next_token l1 = (t2, l2)" by fastforce
  have p: "p_lexer p = l2" "current_token p = t1" "peek_token p = t2"
    by (simp_all add: p_def Parser_new_def p_next_token_def 1 2 Let_def)
  note t = lexer.two_tokens [OF Lexer_new_ok(1) 1 2]
  show "p_ok p" using t(1) by (simp add: p)
  show "scan_all s = (if tok_type (current_token p) = END_OF_FILE then [] else lexeme_of (current_token p) # ahead p)"
    using t(2) by (simp add: p ahead_def)
qed

section \<open>What the parser accepts\<close>

lemma parse_iff:
  "parse s = Some st \<longleftrightarrow>
    (\<exists>k a n b us c vs. scan_all s = (CREATE, k) # (TABLE, a) # (IDENTIFIER, n) # (LPAREN, b) # us @ (RPAREN, c) # vs \<and>
       RPAREN \<notin> fst ` set us \<and> st = CreateStatement n (kept (\<lambda>ty. ty = IDENTIFIER) us)) \<or>
    (\<exists>k a n b d us c vs. scan_all s =
         (INSERT, k) # (INTO, a) # (IDENTIFIER, n) # (VALUES, b) # (LPAREN, d) # us @ (RPAREN, c) # vs \<and>
       RPAREN \<notin> fst ` set us \<and>
       st = InsertStatement n (kept (\<lambda>ty. ty = STRING_LITERAL \<or> ty = NUMBER \<or> ty = IDENTIFIER) us)) \<or>
    (\<exists>k us a n vs. scan_all s = (SELECT, k) # us @ (FROM, a) # (IDENTIFIER, n) # vs \<and> FROM \<notin> fst ` set us \<and>
       st = SelectStatement n (kept (\<lambda>ty. ty = ASTERISK \<or> ty = IDENTIFIER) us))"
proof -
  let ?p = "Parser_new (Lexer_new s)"
  note p = parser_start [of s]
  show ?thesis
  proof (cases "tok_type (current_token ?p)")
    case CREATE
    then show ?thesis using p(2) parse_create_table_iff [OF p(1), of st]
      by (simp add: parse_def parse_statement_def lexeme_of_def)
  next
    case INSERT
    then show ?thesis using p(2) parse_insert_iff [OF p(1), of st]
      by (simp add: parse_def parse_statement_def lexeme_of_def)
  next
    case SELECT
    then show ?thesis using p(2) parse_select_iff [OF p(1), of st]
      by (simp add: parse_def parse_statement_def lexeme_of_def)
  qed (use p(2) in \<open>simp_all add: parse_def parse_statement_def lexeme_of_def\<close>)
qed

lemma parse_intros:
  "scan_all s = (CREATE, k) # (TABLE, a) # (IDENTIFIER, n) # (LPAREN, b) # us @ (RPAREN, c) # vs \<Longrightarrow>
   RPAREN \<notin> fst ` set us \<Longrightarrow> parse s = Some (CreateStatement n (kept (\<lambda>ty. ty = IDENTIFIER) us))"
  "scan_all s = (INSERT, k) # (INTO, a) # (IDENTIFIER, n) # (VALUES, b) # (LPAREN, d) # us @ (RPAREN, c) # vs \<Longrightarrow>
   RPAREN \<notin> fst ` set us \<Longrightarrow>
   parse s = Some (InsertStatement n (kept (\<lambda>ty. ty = STRING_LITERAL \<or> ty = NUMBER \<or> ty = IDENTIFIER) us))"
  "scan_all s = (SELECT, k) # us @ (FROM, a) # (IDENTIFIER, n) # vs \<Longrightarrow> FROM \<notin> fst ` set us \<Longrightarrow>
   parse s = Some (SelectStatement n (kept (\<lambda>ty. ty = ASTERISK \<or> ty = IDENTIFIER) us))"
  unfolding parse_iff by blast+

section \<open>Lexemes of printed text\<close>

lemma scan_all_space [simp]: "scan_all (CHR '' '' # s) = scan_all s"
proof -
  have "scan1 (CHR '' '' # s) = scan1 s" by (simp add: scan1_def is_blank_def)
  then show ?thesis by (simp add: scan_all.simps)
qed

lemma symbol_type_cases:
  assumes "symbol_type c = Some ty"
  shows "\<not> is_blank c" and "ty \<noteq> END_OF_FILE"
  using assms by (auto simp: symbol_type_def is_blank_def split: if_splits)

lemma scan_all_symbol: "symbol_type c = Some ty \<Longrightarrow> scan_all (c # s) = (ty, [c]) # scan_all s"
  using symbol_type_cases [of c ty] by (subst scan_all.simps) (simp add: scan1_def)

lemma no_word_chars [simp]:
  "\<not> is_letter (CHR '' '')" "\<not> is_letter (CHR '','')" "\<not> is_letter (CHR '')'')" "\<not> is_letter (CHR ''('')"
  "\<not> is_digit (CHR '' '')" "\<not> is_digit (CHR '','')" "\<not> is_digit (CHR '')'')" "\<not> is_digit (CHR ''('')"
  by code_simp+

lemma letter_first:
  assumes "is_letter c \<or> is_digit c"
  shows "\<not> is_blank c" "symbol_type c = None" "c \<noteq> nul" "c \<noteq> CHR 0x27" "c \<noteq> CHR 0x22"
proof -
  have "\<forall>c \<in> set ('' *,;()='' @ [CHR 0x09, CHR 0x0A, CHR 0x0D, CHR 0x27, CHR 0x22, nul]). \<not> is_letter c \<and> \<not> is_digit c"
    by code_simp
  then have n: "c \<notin> set ('' *,;()='' @ [CHR 0x09, CHR 0x0A, CHR 0x0D, CHR 0x27, CHR 0x22, nul])" using assms by blast
  then show "\<not> is_blank c" "symbol_type c = None" "c \<noteq> nul" "c \<noteq> CHR 0x27" "c \<noteq> CHR 0x22"
    by (simp_all add: is_blank_def symbol_type_def)
qed

lemma digit_not_letter: "is_digit c \<Longrightarrow> \<not> is_letter c"
  by (auto simp: is_digit_def is_letter_def less_eq_char_def)

lemma takeWhile_run:
  assumes "\<forall>c \<in> set w. P c" and "s = [] \<or> \<not> P (hd s)"
  shows "takeWhile P (w @ s) = w" and "dropWhile P (w @ s) = s"
  using assms by (cases s; simp)+

lemma lookup_ident_not_eof: "lookup_ident w \<noteq> END_OF_FILE"
  by (auto simp: lookup_ident_def keyword_table_def split: option.splits if_splits)

text \<open>A text that is read as one lexeme of a given type wherever no letter, digit or underscore follows it.\<close>

definition lexes_as :: "string \<Rightarrow> TokenType \<Rightarrow> bool" where
  "lexes_as w ty \<longleftrightarrow> (\<forall>s. s = [] \<or> \<not> is_word_char (hd s) \<longrightarrow> scan_all (w @ s) = (ty, w) # scan_all s)"

lemma lexes_asD: "lexes_as w ty \<Longrightarrow> \<not> is_word_char c \<Longrightarrow> scan_all (w @ c # s) = (ty, w) # scan_all (c # s)"
  "lexes_as w ty \<Longrightarrow> scan_all w = [(ty, w)]"
proof -
  show "lexes_as w ty \<Longrightarrow> \<not> is_word_char c \<Longrightarrow> scan_all (w @ c # s) = (ty, w) # scan_all (c # s)"
    by (simp add: lexes_as_def)
  have "scan_all [] = []" by (subst scan_all.simps) (simp add: scan1_def)
  moreover assume "lexes_as w ty"
  ultimately show "scan_all w = [(ty, w)]" unfolding lexes_as_def by (metis append_Nil2)
qed

lemma lexes_as_word:
  assumes "w \<noteq> []" and "is_letter (hd w)" and "\<forall>c \<in> set w. is_word_char c"
  shows "lexes_as w (lookup_ident w)"
  unfolding lexes_as_def
proof (intro allI impI)
  fix s :: string assume s: "s = [] \<or> \<not> is_word_char (hd s)"
  obtain c cs where w: "w = c # cs" "is_letter c" using assms(1,2) by (cases w) auto
  note t = takeWhile_run [OF assms(3) s, unfolded w, simplified]
  have "scan1 (w @ s) = ((lookup_ident w, w), s)"
    using letter_first [of c] t w(2) by (simp add: scan1_def w Let_def)
  then show "scan_all (w @ s) = (lookup_ident w, w) # scan_all s"
    using lookup_ident_not_eof [of w] by (subst scan_all.simps) simp
qed

lemma lexes_as_number:
  assumes "w \<noteq> []" and "\<forall>c \<in> set w. is_digit c"
  shows "lexes_as w NUMBER"
  unfolding lexes_as_def
proof (intro allI impI)
  fix s :: string assume s: "s = [] \<or> \<not> is_word_char (hd s)"
  obtain c cs where w: "w = c # cs" "is_digit c" using assms by (cases w) auto
  have "s = [] \<or> \<not> is_digit (hd s)" using s by auto
  note t = takeWhile_run [OF assms(2) this, unfolded w, simplified]
  have "scan1 (w @ s) = ((NUMBER, w), s)"
    using letter_first [of c] digit_not_letter [OF w(2)] t w(2) by (simp add: scan1_def w)
  then show "scan_all (w @ s) = (NUMBER, w) # scan_all s" by (subst scan_all.simps) simp
qed

lemma lexes_as_star: "lexes_as ''*'' ASTERISK"
  by (simp add: lexes_as_def scan_all_symbol symbol_type_def)

lemma keyword_lexes:
  "lexes_as ''CREATE'' CREATE" "lexes_as ''TABLE'' TABLE" "lexes_as ''INSERT'' INSERT" "lexes_as ''INTO'' INTO"
  "lexes_as ''VALUES'' VALUES" "lexes_as ''SELECT'' SELECT" "lexes_as ''FROM'' FROM"
proof -
  have k: "lookup_ident ''CREATE'' = CREATE" "lookup_ident ''TABLE'' = TABLE" "lookup_ident ''INSERT'' = INSERT"
    "lookup_ident ''INTO'' = INTO" "lookup_ident ''VALUES'' = VALUES" "lookup_ident ''SELECT'' = SELECT"
    "lookup_ident ''FROM'' = FROM"
    by code_simp+
  have l: "\<forall>c \<in> set ''ABCEFILMNORSTUV''. is_letter c" by code_simp
  show "lexes_as ''CREATE'' CREATE" "lexes_as ''TABLE'' TABLE" "lexes_as ''INSERT'' INSERT" "lexes_as ''INTO'' INTO"
    "lexes_as ''VALUES'' VALUES" "lexes_as ''SELECT'' SELECT" "lexes_as ''FROM'' FROM"
    by (rule lexes_as_word [where w = "''CREATE''", unfolded k] lexes_as_word [where w = "''TABLE''", unfolded k]
        lexes_as_word [where w = "''INSERT''", unfolded k] lexes_as_word [where w = "''INTO''", unfolded k]
        lexes_as_word [where w = "''VALUES''", unfolded k] lexes_as_word [where w = "''SELECT''", unfolded k]
        lexes_as_word [where w = "''FROM''", unfolded k]; use l in simp)+
qed

section \<open>Lists\<close>

fun comma_lexemes :: "(string \<Rightarrow> TokenType) \<Rightarrow> string list \<Rightarrow> lexeme list" where
  "comma_lexemes f [] = []"
| "comma_lexemes f [x] = [(f x, x)]"
| "comma_lexemes f (x # xs) = (f x, x) # (COMMA, '','') # comma_lexemes f xs"

lemma scan_comma_list:
  assumes "\<forall>x \<in> set xs. lexes_as x (f x)" and "\<not> is_word_char c"
  shows "scan_all (comma_list xs @ c # s) = comma_lexemes f xs @ scan_all (c # s)"
  using assms
proof (induction f xs rule: comma_lexemes.induct)
  case (2 f x)
  then show ?case using lexes_asD(1) [of x "f x" c s] by simp
next
  case (3 f x y ys)
  then show ?case
    using lexes_asD(1) [of x "f x" "CHR '',''" "CHR '' '' # comma_list (y # ys) @ c # s"]
      scan_all_symbol [of "CHR '',''" COMMA "CHR '' '' # comma_list (y # ys) @ c # s"]
    by (simp add: symbol_type_def)
qed simp

lemma kept_comma_lexemes:
  assumes "\<forall>x \<in> set xs. accept (f x)" and "\<not> accept COMMA"
  shows "kept accept (comma_lexemes f xs) = xs"
  using assms by (induction f xs rule: comma_lexemes.induct) simp_all

lemma comma_lexemes_types: "fst ` set (comma_lexemes f xs) \<subseteq> insert COMMA (f ` set xs)"
  by (induction f xs rule: comma_lexemes.induct) auto

section \<open>Statements that can be printed and read back\<close>

definition is_name :: "string \<Rightarrow> bool" where
  "is_name w \<longleftrightarrow> w \<noteq> [] \<and> is_letter (hd w) \<and> (\<forall>c \<in> set w. is_word_char c) \<and> lookup_ident w = IDENTIFIER"

definition is_numeral :: "string \<Rightarrow> bool" where
  "is_numeral w \<longleftrightarrow> w \<noteq> [] \<and> (\<forall>c \<in> set w. is_digit c)"

fun printable :: "Statement \<Rightarrow> bool" where
  "printable (CreateStatement n cs) \<longleftrightarrow> is_name n \<and> (\<forall>c \<in> set cs. is_name c)"
| "printable (InsertStatement n vs) \<longleftrightarrow> is_name n \<and> (\<forall>v \<in> set vs. is_name v \<or> is_numeral v)"
| "printable (SelectStatement n cs) \<longleftrightarrow> is_name n \<and> cs \<noteq> [] \<and> (\<forall>c \<in> set cs. is_name c \<or> c = ''*'')"

definition item_type :: "string \<Rightarrow> TokenType" where
  "item_type w = (if is_name w then IDENTIFIER else if is_numeral w then NUMBER else ASTERISK)"

lemma name_lexes: "is_name w \<Longrightarrow> lexes_as w IDENTIFIER"
  using lexes_as_word [of w] by (simp add: is_name_def)

lemma item_lexes: "is_name w \<or> is_numeral w \<or> w = ''*'' \<Longrightarrow> lexes_as w (item_type w)"
proof -
  have "\<not> is_numeral ''*''" by code_simp
  then show "is_name w \<or> is_numeral w \<or> w = ''*'' \<Longrightarrow> lexes_as w (item_type w)"
    using name_lexes lexes_as_number [of w] lexes_as_star by (auto simp: item_type_def is_numeral_def)
qed

lemma word_space:
  "lexes_as w ty \<Longrightarrow> scan_all (w @ CHR '' '' # s) = (ty, w) # scan_all s"
  using lexes_asD(1) [of w ty "CHR '' ''" s] by simp

lemmas scan_paren = scan_all_symbol [of "CHR ''(''" LPAREN] scan_all_symbol [of "CHR '')''" RPAREN]

lemma scan_create:
  assumes "is_name n" and "\<forall>c \<in> set cs. is_name c"
  shows "scan_all (statement_to_string (CreateStatement n cs)) =
    (CREATE, ''CREATE'') # (TABLE, ''TABLE'') # (IDENTIFIER, n) # (LPAREN, ''('') #
      comma_lexemes item_type cs @ [(RPAREN, '')'')]"
proof -
  have l: "\<forall>c \<in> set cs. lexes_as c (item_type c)" using assms(2) item_lexes by blast
  have e: "scan_all [] = []" by code_simp
  have p: "statement_to_string (CreateStatement n cs) = ''CREATE'' @ CHR '' '' # ''TABLE'' @ CHR '' '' # n @ CHR '' '' #
      CHR ''('' # comma_list cs @ CHR '')'' # []" by simp
  show ?thesis unfolding p
    by (simp only: word_space [OF keyword_lexes(1)] word_space [OF keyword_lexes(2)] word_space [OF name_lexes [OF assms(1)]])
      (simp add: scan_paren scan_comma_list [OF l] symbol_type_def e)
qed

lemma scan_insert:
  assumes "is_name n" and "\<forall>v \<in> set vs. is_name v \<or> is_numeral v"
  shows "scan_all (statement_to_string (InsertStatement n vs)) =
    (INSERT, ''INSERT'') # (INTO, ''INTO'') # (IDENTIFIER, n) # (VALUES, ''VALUES'') # (LPAREN, ''('') #
      comma_lexemes item_type vs @ [(RPAREN, '')'')]"
proof -
  have l: "\<forall>v \<in> set vs. lexes_as v (item_type v)" using assms(2) item_lexes by blast
  have e: "scan_all [] = []" by code_simp
  have p: "statement_to_string (InsertStatement n vs) = ''INSERT'' @ CHR '' '' # ''INTO'' @ CHR '' '' # n @ CHR '' '' #
      ''VALUES'' @ CHR '' '' # CHR ''('' # comma_list vs @ CHR '')'' # []" by simp
  show ?thesis unfolding p
    by (simp only: word_space [OF keyword_lexes(3)] word_space [OF keyword_lexes(4)] word_space [OF keyword_lexes(5)]
        word_space [OF name_lexes [OF assms(1)]])
      (simp add: scan_paren scan_comma_list [OF l] symbol_type_def e)
qed

lemma scan_select:
  assumes "is_name n" and "cs \<noteq> []" and "\<forall>c \<in> set cs. is_name c \<or> c = ''*''"
  shows "scan_all (statement_to_string (SelectStatement n cs)) =
    (SELECT, ''SELECT'') # comma_lexemes item_type cs @ [(FROM, ''FROM''), (IDENTIFIER, n)]"
proof -
  have l: "\<forall>c \<in> set cs. lexes_as c (item_type c)" using assms(3) item_lexes by blast
  have p: "statement_to_string (SelectStatement n cs) =
      ''SELECT'' @ CHR '' '' # comma_list cs @ CHR '' '' # ''FROM'' @ CHR '' '' # n" using assms(2) by simp
  show ?thesis unfolding p
    using scan_comma_list [OF l, of "CHR '' ''" "''FROM'' @ CHR '' '' # n"]
    by (simp only: word_space [OF keyword_lexes(6)] no_word_chars scan_all_space
        word_space [OF keyword_lexes(7)] lexes_asD(2) [OF name_lexes [OF assms(1)]]) simp
qed

section \<open>Properties\<close>

text \<open>C39. The scanner agrees with a reference scanner on plain strings: from a new scanner and after every token,
  the token that \<open>next_token\<close> returns and the input it leaves unread are those of the reference, positions apart;
  and every token but the end of the input consumes input, so that reading tokens ends.\<close>

theorem lexer_matches_reference:
  "lex_ok (Lexer_new s) \<and> rest (Lexer_new s) = s \<and>
   (\<forall>l t l'. lex_ok l \<and> next_token l = (t, l') \<longrightarrow>
      lex_ok l' \<and> (lexeme_of t, rest l') = scan1 (rest l) \<and>
      (tok_type t = END_OF_FILE \<or> remaining l' < remaining l))"
proof -
  have "lex_ok l' \<and> (lexeme_of t, rest l') = scan1 (rest l) \<and> (tok_type t = END_OF_FILE \<or> remaining l' < remaining l)"
    if "lex_ok l" "next_token l = (t, l')" for l t l'
    using next_token_scan [OF that] next_token_progress(2) [OF that(2)] by blast
  then show ?thesis by (simp, blast)
qed

theorem lexer_matches_reference_witness:
  "scan1 (rest (snd (next_token (Lexer_new ''a=1'')))) = ((EQUALS, ''=''), ''1'')"
proof -
  obtain t l where n: "next_token (Lexer_new ''a=1'') = (t, l)" by fastforce
  have "(lexeme_of t, rest l) = scan1 ''a=1''"
    using lexer_matches_reference [of "''a=1''"] n by (metis Lexer_new_ok)
  moreover have "scan1 ''a=1'' = ((IDENTIFIER, ''a''), ''=1'')" by code_simp
  moreover have "scan1 ''=1'' = ((EQUALS, ''=''), ''1'')" by code_simp
  ultimately show ?thesis by (simp add: n)
qed

text \<open>C7. The parser accepts exactly this language over the lexemes before the first end of the input: after the
  fixed words of the statement, the items of a list are all lexemes of the accepted types before the closing one,
  whatever stands between them, and whatever follows the statement is ignored.\<close>

theorem parser_grammar:
  "parse s = Some st \<longleftrightarrow>
    (\<exists>k a n b us c vs. scan_all s = (CREATE, k) # (TABLE, a) # (IDENTIFIER, n) # (LPAREN, b) # us @ (RPAREN, c) # vs \<and>
       RPAREN \<notin> fst ` set us \<and> st = CreateStatement n (kept (\<lambda>ty. ty = IDENTIFIER) us)) \<or>
    (\<exists>k a n b d us c vs. scan_all s =
         (INSERT, k) # (INTO, a) # (IDENTIFIER, n) # (VALUES, b) # (LPAREN, d) # us @ (RPAREN, c) # vs \<and>
       RPAREN \<notin> fst ` set us \<and>
       st = InsertStatement n (kept (\<lambda>ty. ty = STRING_LITERAL \<or> ty = NUMBER \<or> ty = IDENTIFIER) us)) \<or>
    (\<exists>k us a n vs. scan_all s = (SELECT, k) # us @ (FROM, a) # (IDENTIFIER, n) # vs \<and> FROM \<notin> fst ` set us \<and>
       st = SelectStatement n (kept (\<lambda>ty. ty = ASTERISK \<or> ty = IDENTIFIER) us))"
  by (rule parse_iff)

text \<open>C22. Printing and parsing: the printed form of a statement whose names are identifiers and whose values are
  identifiers or numbers is parsed back to the same statement.\<close>

theorem parser_roundtrip:
  assumes "printable st"
  shows "parse (statement_to_string st) = Some st"
proof (cases st)
  case (CreateStatement n cs)
  have "RPAREN \<notin> fst ` set (comma_lexemes item_type cs)"
    using comma_lexemes_types [of item_type cs] by (auto simp: item_type_def split: if_splits)
  moreover have "kept (\<lambda>ty. ty = IDENTIFIER) (comma_lexemes item_type cs) = cs"
    using assms CreateStatement by (intro kept_comma_lexemes) (simp_all add: item_type_def)
  ultimately show ?thesis using assms parse_intros(1) [OF scan_create [of n cs]] CreateStatement by simp
next
  case (InsertStatement n vs)
  let ?acc = "\<lambda>ty. ty = STRING_LITERAL \<or> ty = NUMBER \<or> ty = IDENTIFIER"
  have "RPAREN \<notin> fst ` set (comma_lexemes item_type vs)"
    using comma_lexemes_types [of item_type vs] by (auto simp: item_type_def split: if_splits)
  moreover have "kept ?acc (comma_lexemes item_type vs) = vs"
    using assms InsertStatement by (intro kept_comma_lexemes) (auto simp: item_type_def)
  ultimately show ?thesis using assms parse_intros(2) [OF scan_insert [of n vs]] InsertStatement by simp
next
  case (SelectStatement n cs)
  let ?acc = "\<lambda>ty. ty = ASTERISK \<or> ty = IDENTIFIER"
  have n: "\<not> is_numeral ''*''" by code_simp
  have "FROM \<notin> fst ` set (comma_lexemes item_type cs)"
    using comma_lexemes_types [of item_type cs] by (auto simp: item_type_def split: if_splits)
  moreover have "kept ?acc (comma_lexemes item_type cs) = cs"
    using assms SelectStatement n by (intro kept_comma_lexemes) (auto simp: item_type_def)
  ultimately show ?thesis using assms parse_intros(3) [OF scan_select [of n cs]] SelectStatement by simp
qed

theorem parser_roundtrip_witness:
  "parse (statement_to_string (InsertStatement ''users'' [''1'', ''Bob''])) = Some (InsertStatement ''users'' [''1'', ''Bob''])"
proof -
  have "printable (InsertStatement ''users'' [''1'', ''Bob''])" by code_simp
  from parser_roundtrip [OF this] show ?thesis .
qed

end
