(* ===== verification/Text_Engine.thy ===== *)
theory Text_Engine
  imports Sql_Lexer File_Stream
begin

text \<open>
  \<open>src/core/engine.hpp\<close>: the engine that keeps its tables in memory and the text of every changing command in
  the file \<open>datyre.wal\<close>, which it replays when it starts. The class \<open>Table\<close> that it uses, with a constructor from
  columns, \<open>insert\<close> and \<open>to_string\<close>, is in no file of the repository (\<open>src/core/table.hpp\<close> declares another
  class); its three operations are the argument \<open>api\<close> of the model. \<open>insert\<close> may throw; it returns the text of the
  exception, if any, and the table afterwards. Exceptions are the left summand of the results.
\<close>

section \<open>Strings\<close>

text \<open>The successive results of \<open>getline\<close> with a delimiter.\<close>

function getlines :: "char \<Rightarrow> string \<Rightarrow> string list" where
  "getlines d s =
     (if s = [] then []
      else takeWhile (\<lambda>c. c \<noteq> d) s # getlines d (tl (dropWhile (\<lambda>c. c \<noteq> d) s)))"
  by pat_completeness auto
termination
proof (relation "measure (\<lambda>(d, s). length s)")
  fix d :: char and s :: string assume "s \<noteq> []"
  then show "((d, tl (dropWhile (\<lambda>c. c \<noteq> d) s)), (d, s)) \<in> measure (\<lambda>(d, s). length s)"
    using length_dropWhile_le [of "\<lambda>c. c \<noteq> d" s] by (cases s) (auto simp: less_Suc_eq_le intro: le_trans [OF diff_le_self])
qed simp

declare getlines.simps [simp del]

text \<open>The two calls of \<open>erase\<close> in \<open>split\<close>: white space goes from both ends.\<close>

definition trim :: "string \<Rightarrow> string" where
  "trim s = rev (dropWhile is_blank (rev (dropWhile is_blank s)))"

definition split_fields :: "string \<Rightarrow> char \<Rightarrow> string list" where
  "split_fields s d = filter (\<lambda>t. t \<noteq> []) (map trim (getlines d s))"

text \<open>The white space of \<open>operator>>\<close>, and the words it extracts one after the other.\<close>

definition is_cspace :: "char \<Rightarrow> bool" where
  "is_cspace c \<longleftrightarrow> is_blank c \<or> c = CHR 0x0B \<or> c = CHR 0x0C"

function cwords :: "string \<Rightarrow> string list" where
  "cwords s =
     (let r = dropWhile is_cspace s
      in if r = [] then [] else takeWhile (\<lambda>c. \<not> is_cspace c) r # cwords (dropWhile (\<lambda>c. \<not> is_cspace c) r))"
  by pat_completeness auto
termination
proof (relation "measure length")
  fix s r :: string assume r: "r = dropWhile is_cspace s" "r \<noteq> []"
  then have "\<not> is_cspace (hd r)" using hd_dropWhile by blast
  then have "length (dropWhile (\<lambda>c. \<not> is_cspace c) r) < length r"
    using r(2) length_dropWhile_le [of "\<lambda>c. \<not> is_cspace c" "tl r"] by (cases r) auto
  then show "(dropWhile (\<lambda>c. \<not> is_cspace c) r, s) \<in> measure length"
    using r(1) length_dropWhile_le [of is_cspace s] by simp
qed simp

declare cwords.simps [simp del]

text \<open>An extraction that fails leaves its variable as it is; the variables start empty.\<close>

definition get_first_word :: "string \<Rightarrow> string" where
  "get_first_word s = map toupper (case cwords s of [] \<Rightarrow> [] | w # _ \<Rightarrow> w)"

definition nth_word :: "nat \<Rightarrow> string \<Rightarrow> string" where
  "nth_word k s = (if k < length (cwords s) then cwords s ! k else [])"

section \<open>State\<close>

record 't table_api =
  api_new :: "string \<Rightarrow> string list \<Rightarrow> 't"
  api_insert :: "string list \<Rightarrow> 't \<Rightarrow> string option \<times> 't"
  api_to_string :: "'t \<Rightarrow> string"

record 't DatabaseEngine =
  de_tables :: "(string \<times> 't) list"
  wal_text :: string
  wal_writer_open :: bool
  wal_writer_fail :: bool

section \<open>Commands\<close>

text \<open>
  The text between the parentheses: \<open>substr(open + 1, close - open - 1)\<close>. When the first closing parenthesis
  stands before the first opening one the length wraps around and the text extends to the end.
\<close>

definition paren_text :: "string \<Rightarrow> (string \<times> string) option" where
  "paren_text query =
     (if CHR ''('' \<notin> set query \<or> CHR '')'' \<notin> set query then None
      else let opn = length (takeWhile (\<lambda>c. c \<noteq> CHR ''('') query);
               cls = length (takeWhile (\<lambda>c. c \<noteq> CHR '')'') query);
               tail = drop (opn + 1) query
           in Some (take opn query, if opn < cls then take (cls - opn - 1) tail else tail))"

definition internal_create :: "'t table_api \<Rightarrow> string \<Rightarrow> (string \<times> 't) list \<Rightarrow> string + (string \<times> 't) list" where
  "internal_create api query tables =
     (case paren_text query of
        None \<Rightarrow> Inl ''Syntax error''
      | Some (pre_paren, cols_str) \<Rightarrow>
          (let table_name = nth_word 2 pre_paren
           in if map_of tables table_name \<noteq> None then Inl ''Table already exists''
              else Inr (AList.update table_name (api_new api table_name (split_fields cols_str (CHR '',''))) tables)))"

text \<open>An exception of \<open>Table::insert\<close> leaves the table that \<open>insert\<close> left.\<close>

definition internal_insert ::
  "'t table_api \<Rightarrow> string \<Rightarrow> (string \<times> 't) list \<Rightarrow> string option \<times> (string \<times> 't) list" where
  "internal_insert api query tables =
     (case paren_text query of
        None \<Rightarrow> (Some ''Syntax error'', tables)
      | Some (pre_paren, vals_str) \<Rightarrow>
          (let table_name = nth_word 2 pre_paren
           in case map_of tables table_name of
                None \<Rightarrow> (Some ''Table not found'', tables)
              | Some t \<Rightarrow>
                  (let (err, t') = api_insert api (split_fields vals_str (CHR '','')) t
                   in (err, AList.update table_name t' tables))))"

definition internal_select :: "'t table_api \<Rightarrow> string \<Rightarrow> (string \<times> 't) list \<Rightarrow> string + string" where
  "internal_select api query tables =
     (case map_of tables (nth_word 3 query) of
        None \<Rightarrow> Inl ''Table not found''
      | Some t \<Rightarrow> Inr (api_to_string api t))"

section \<open>Recovery and persistence\<close>

text \<open>One line of the journal; every exception is ignored.\<close>

definition replay_line :: "'t table_api \<Rightarrow> string \<Rightarrow> (string \<times> 't) list \<Rightarrow> (string \<times> 't) list" where
  "replay_line api ln tables =
     (if ln = [] then tables
      else if get_first_word ln = ''CREATE''
      then (case internal_create api ln tables of Inl _ \<Rightarrow> tables | Inr tables' \<Rightarrow> tables')
      else if get_first_word ln = ''INSERT'' then snd (internal_insert api ln tables)
      else tables)"

definition recover :: "'t table_api \<Rightarrow> string option \<Rightarrow> (string \<times> 't) list" where
  "recover api journal =
     (case journal of None \<Rightarrow> [] | Some text \<Rightarrow> fold (replay_line api) (getlines (CHR 0x0A) text) [])"

text \<open>\<open>opened\<close> is the outcome of the call that opens the journal for appending.\<close>

definition DatabaseEngine_new :: "'t table_api \<Rightarrow> string option \<Rightarrow> bool \<Rightarrow> 't DatabaseEngine" where
  "DatabaseEngine_new api journal opened =
     \<lparr>de_tables = recover api journal, wal_text = (case journal of None \<Rightarrow> [] | Some text \<Rightarrow> text),
      wal_writer_open = opened, wal_writer_fail = \<not> opened\<rparr>"

text \<open>A write that fails leaves a prefix in the file and the stream in error; nothing is written after that.\<close>

definition persist :: "io_outcome \<Rightarrow> string \<Rightarrow> 't DatabaseEngine \<Rightarrow> 't DatabaseEngine" where
  "persist io query de =
     (if \<not> wal_writer_open de \<or> wal_writer_fail de then de
      else case io of
        IoOk \<Rightarrow> de\<lparr>wal_text := wal_text de @ query @ [CHR 0x0A]\<rparr>
      | IoFail k \<Rightarrow> de\<lparr>wal_text := wal_text de @ take k (query @ [CHR 0x0A]), wal_writer_fail := True\<rparr>)"

definition strip_semicolon :: "string \<Rightarrow> string" where
  "strip_semicolon query = (if query \<noteq> [] \<and> last query = CHR '';'' then butlast query else query)"

definition execute_command ::
  "'t table_api \<Rightarrow> io_outcome \<Rightarrow> string \<Rightarrow> 't DatabaseEngine \<Rightarrow> string \<times> 't DatabaseEngine" where
  "execute_command api io query0 de =
     (let query = strip_semicolon query0;
          command = get_first_word query
      in if command = ''CREATE''
         then (case internal_create api query (de_tables de) of
                 Inl e \<Rightarrow> (''Error: '' @ e, de)
               | Inr ts \<Rightarrow> (''Success: Table created.'', persist io query (de\<lparr>de_tables := ts\<rparr>)))
         else if command = ''INSERT''
         then (case internal_insert api query (de_tables de) of
                 (Some e, ts) \<Rightarrow> (''Error: '' @ e, de\<lparr>de_tables := ts\<rparr>)
               | (None, ts) \<Rightarrow> (''Success: Row inserted.'', persist io query (de\<lparr>de_tables := ts\<rparr>)))
         else if command = ''SELECT''
         then (case internal_select api query (de_tables de) of
                 Inl e \<Rightarrow> (''Error: '' @ e, de)
               | Inr out \<Rightarrow> (out, de))
         else (''Error: Unknown command.'', de))"

text \<open>The destructor closes the journal.\<close>

definition DatabaseEngine_destroy :: "'t DatabaseEngine \<Rightarrow> 't DatabaseEngine" where
  "DatabaseEngine_destroy de = (if wal_writer_open de then de\<lparr>wal_writer_open := False\<rparr> else de)"

end
