(* ===== verification/Text_Engine_Props.thy ===== *)
theory Text_Engine_Props
  imports Text_Engine
begin

text \<open>
  Recovery of the text engine: replaying the journal gives back the tables, provided that no command contains
  a line end; a command that fails changes nothing.
\<close>

section \<open>Lines of the journal\<close>

lemma getlines_Nil [simp]: "getlines d [] = []"
  by (simp add: getlines.simps)

lemma getlines_line:
  assumes "d \<notin> set q"
  shows "getlines d (q @ d # s) = q # getlines d s"
proof -
  have q: "\<forall>c \<in> set q. c \<noteq> d" using assms by auto
  then have "takeWhile (\<lambda>c. c \<noteq> d) (q @ d # s) = q" "dropWhile (\<lambda>c. c \<noteq> d) (q @ d # s) = d # s"
    by (simp_all add: takeWhile_append2 dropWhile_append2)
  then show ?thesis by (subst getlines.simps) simp
qed

lemma getlines_snoc:
  assumes "xs = [] \<or> last xs = d" and "d \<notin> set q"
  shows "getlines d (xs @ q @ [d]) = getlines d xs @ [q]"
  using assms(1)
proof (induction xs rule: length_induct)
  case (1 xs)
  show ?case
  proof (cases "xs = []")
    case True
    then show ?thesis using getlines_line [OF assms(2), of "[]"] by simp
  next
    case False
    then have "d \<in> set xs" using 1(2) last_in_set by blast
    then obtain ys zs where x: "xs = ys @ d # zs" "d \<notin> set ys" using split_list_first by metis
    have "zs = [] \<or> last zs = d" using 1(2) x by (auto split: if_splits)
    moreover have "length zs < length xs" using x(1) by simp
    ultimately have "getlines d (zs @ q @ [d]) = getlines d zs @ [q]" using 1(1) by blast
    then show ?thesis using x getlines_line [OF x(2)] by simp
  qed
qed

section \<open>The invariant of the journal\<close>

text \<open>What the engine relies on of \<open>Table::insert\<close>: if it throws, the table is as before.\<close>

definition insert_safe :: "'t table_api \<Rightarrow> bool" where
  "insert_safe api \<longleftrightarrow> (\<forall>vs t e t'. api_insert api vs t = (Some e, t') \<longrightarrow> t' = t)"

definition recoverable :: "'t table_api \<Rightarrow> 't DatabaseEngine \<Rightarrow> bool" where
  "recoverable api de \<longleftrightarrow> de_tables de = recover api (Some (wal_text de)) \<and>
     (wal_text de = [] \<or> last (wal_text de) = CHR 0x0A) \<and> wal_writer_open de \<and> \<not> wal_writer_fail de"

lemma internal_insert_error:
  assumes "insert_safe api" and "internal_insert api q ts = (Some e, ts')"
  shows "ts' = ts"
proof -
  have "AList.update n t' ts = ts" if "map_of ts n = Some t" "api_insert api vs t = (Some e, t')" for n t t' vs
  proof -
    have "t' = t" using that(2) assms(1) unfolding insert_safe_def by blast
    then show ?thesis using that(1) by (simp add: update_triv)
  qed
  then show ?thesis using assms(2)
    by (auto simp: internal_insert_def Let_def split: option.splits prod.splits)
qed

lemma recover_line:
  assumes "txt = [] \<or> last txt = CHR 0x0A" and "CHR 0x0A \<notin> set q"
  shows "recover api (Some (txt @ q @ [CHR 0x0A])) = replay_line api q (recover api (Some txt))"
  by (simp add: recover_def getlines_snoc [OF assms])

lemma persist_recoverable:
  assumes "recoverable api de" and "CHR 0x0A \<notin> set q" and "replay_line api q (de_tables de) = ts"
  shows "recoverable api (persist IoOk q (de\<lparr>de_tables := ts\<rparr>))"
  using assms recover_line [of "wal_text de" q api] by (simp add: recoverable_def persist_def)

lemma strip_semicolon_set: "set (strip_semicolon q) \<subseteq> set q"
  by (auto simp: strip_semicolon_def dest: in_set_butlastD)

lemma execute_recoverable:
  assumes "insert_safe api" and "recoverable api de" and "CHR 0x0A \<notin> set q"
  shows "recoverable api (snd (execute_command api IoOk q de))"
proof -
  let ?q = "strip_semicolon q"
  have n: "CHR 0x0A \<notin> set ?q" using assms(3) strip_semicolon_set by blast
  have w: "?q \<noteq> []" if "get_first_word ?q \<noteq> []"
    using that by (auto simp: get_first_word_def cwords.simps)
  consider ts where "get_first_word ?q = ''CREATE''" "internal_create api ?q (de_tables de) = Inr ts"
    | ts where "get_first_word ?q = ''INSERT''" "internal_insert api ?q (de_tables de) = (None, ts)"
    | "snd (execute_command api IoOk q de) = de"
  proof (cases "get_first_word ?q = ''CREATE''")
    case True
    then show ?thesis using that by (cases "internal_create api ?q (de_tables de)") (auto simp: execute_command_def Let_def)
  next
    case False
    obtain e ts where i: "internal_insert api ?q (de_tables de) = (e, ts)" by fastforce
    show ?thesis
    proof (cases "get_first_word ?q = ''INSERT''")
      case True
      then show ?thesis using that i internal_insert_error [OF assms(1)]
        by (cases e) (auto simp: execute_command_def Let_def)
    next
      case no: False
      then show ?thesis using that(3) False by (auto simp: execute_command_def Let_def split: sum.splits)
    qed
  qed
  then show ?thesis
  proof cases
    case (1 ts)
    then have "replay_line api ?q (de_tables de) = ts" using w by (simp add: replay_line_def)
    from persist_recoverable [OF assms(2) n this] 1 show ?thesis by (simp add: execute_command_def Let_def)
  next
    case (2 ts)
    then have "replay_line api ?q (de_tables de) = ts" using w by (simp add: replay_line_def)
    from persist_recoverable [OF assms(2) n this] 2 show ?thesis by (simp add: execute_command_def Let_def)
  qed (use assms(2) in simp)
qed

text \<open>A session of commands on which no write fails.\<close>

definition run_commands :: "'t table_api \<Rightarrow> string list \<Rightarrow> 't DatabaseEngine \<Rightarrow> 't DatabaseEngine" where
  "run_commands api qs de = fold (\<lambda>q de. snd (execute_command api IoOk q de)) qs de"

lemma run_recoverable:
  assumes "insert_safe api" and "recoverable api de" and "\<forall>q \<in> set qs. CHR 0x0A \<notin> set q"
  shows "recoverable api (run_commands api qs de)"
  using assms(2,3)
  by (induction qs arbitrary: de) (simp_all add: run_commands_def execute_recoverable [OF assms(1)])

section \<open>An example of a table class\<close>

definition list_api :: "(string list \<times> string list list) table_api" where
  "list_api = \<lparr>api_new = (\<lambda>n cs. (cs, [])),
     api_insert = (\<lambda>vs (cs, rs). if length vs = length cs then (None, (cs, rs @ [vs])) else (Some ''Column count mismatch'', (cs, rs))),
     api_to_string = (\<lambda>(cs, rs). concat (concat rs))\<rparr>"

lemma list_api_safe: "insert_safe list_api"
  by (auto simp: insert_safe_def list_api_def split: if_splits)

section \<open>Properties\<close>



text \<open>Closing the engine keeps the journal, and a closed engine writes nothing more into it.\<close>

lemma text_engine_close:
  "wal_text (DatabaseEngine_destroy de) = wal_text de" "persist io q (DatabaseEngine_destroy de) = DatabaseEngine_destroy de"
  by (simp_all add: DatabaseEngine_destroy_def persist_def)

text \<open>A command that is not answered with success changes neither the tables nor the journal, under every outcome
  of the write; an answer of success means that the command changed the tables as its replay would.\<close>

lemma text_engine_errors:
  assumes "insert_safe api" and "execute_command api io q de = (reply, de')"
  shows "(de' = de \<or> reply = ''Success: Table created.'' \<or> reply = ''Success: Row inserted.'') \<and>
    de_tables de' = (if de' = de then de_tables de else replay_line api (strip_semicolon q) (de_tables de))"
proof -
  let ?q = "strip_semicolon q"
  have w: "?q \<noteq> []" if "get_first_word ?q \<noteq> []"
    using that by (auto simp: get_first_word_def cwords.simps)
  have p: "de_tables (persist io ?q d) = de_tables d" for d :: "'a DatabaseEngine"
    by (simp add: persist_def split: io_outcome.splits)
  have u: "de\<lparr>de_tables := de_tables de\<rparr> = de" by simp
  show ?thesis using assms(2) w p u internal_insert_error [OF assms(1)]
    by (auto simp: execute_command_def replay_line_def Let_def split: if_splits sum.splits option.splits prod.splits)
qed

text \<open>A command that spans two lines is lost: the table it creates is in memory and the answer is success, but an
  engine that is started on the journal has no table.\<close>

lemma text_engine_newline_lost:
  "execute_command api IoOk (''CREATE TABLE t'' @ CHR 0x0A # ''(a)'') (DatabaseEngine_new api None True) =
     (''Success: Table created.'',
      \<lparr>de_tables = [(''t'', api_new api ''t'' [''a''])], wal_text = ''CREATE TABLE t'' @ CHR 0x0A # ''(a)'' @ [CHR 0x0A],
       wal_writer_open = True, wal_writer_fail = False\<rparr>) \<and>
   de_tables (DatabaseEngine_new api (Some (''CREATE TABLE t'' @ CHR 0x0A # ''(a)'' @ [CHR 0x0A])) True) = []"
proof -
  let ?q = "''CREATE TABLE t'' @ CHR 0x0A # ''(a)''"
  have q: "strip_semicolon ?q = ?q" "get_first_word ?q = ''CREATE''"
    "paren_text ?q = Some (''CREATE TABLE t'' @ [CHR 0x0A], ''a'')"
    "nth_word 2 (''CREATE TABLE t'' @ [CHR 0x0A]) = ''t''" "split_fields ''a'' (CHR '','') = [''a'']"
    by code_simp+
  have r: "getlines (CHR 0x0A) (?q @ [CHR 0x0A]) = [''CREATE TABLE t'', ''(a)'']"
    "get_first_word ''CREATE TABLE t'' = ''CREATE''" "get_first_word ''(a)'' = ''(A)''" "paren_text ''CREATE TABLE t'' = None"
    by code_simp+
  have "internal_create api ?q [] = Inr [(''t'', api_new api ''t'' [''a''])]"
    unfolding internal_create_def q option.case prod.case Let_def by simp
  then have "execute_command api IoOk ?q (DatabaseEngine_new api None True) =
     (''Success: Table created.'',
      \<lparr>de_tables = [(''t'', api_new api ''t'' [''a''])], wal_text = ?q @ [CHR 0x0A],
       wal_writer_open = True, wal_writer_fail = False\<rparr>)"
    unfolding execute_command_def q(1,2) Let_def by (simp add: DatabaseEngine_new_def recover_def persist_def)
  moreover have "replay_line api ''CREATE TABLE t'' [] = []" "replay_line api ''(a)'' [] = []"
    unfolding replay_line_def r internal_create_def by simp_all
  then have "recover api (Some (?q @ [CHR 0x0A])) = []" unfolding recover_def option.case r(1) by simp
  ultimately show ?thesis by (simp add: DatabaseEngine_new_def)
qed

end
