(* ===== verification/Page_Props.thy ===== *)
theory Page_Props
  imports Page
begin

text \<open>
  Runs of the operations of a page, the writes of its clients through \<open>payload()\<close> included: what every page satisfies,
  whatever was done to it.
\<close>

section \<open>Runs\<close>

datatype page_op = SetPageId PageId | SetLsn Lsn | MarkDirty | MarkClean | Pin | Unpin | UpdateChecksum | Reset
  | WritePayload nat bytes

text \<open>The write of a client at an offset of the payload.\<close>

definition write_payload :: "nat \<Rightarrow> bytes \<Rightarrow> Page \<Rightarrow> Page" where
  "write_payload off bs p = p\<lparr>page_data := write_at (PageHeader_SIZE + off) bs (page_data p)\<rparr>"

fun page_apply :: "page_op \<Rightarrow> Page \<Rightarrow> Page" where
  "page_apply (SetPageId i) p = set_page_id i p"
| "page_apply (SetLsn l) p = set_lsn l p"
| "page_apply MarkDirty p = mark_dirty p"
| "page_apply MarkClean p = mark_clean p"
| "page_apply Pin p = pin p"
| "page_apply Unpin p = unpin p"
| "page_apply UpdateChecksum p = update_checksum p"
| "page_apply Reset p = reset p"
| "page_apply (WritePayload off bs) p = write_payload off bs p"

fun in_bounds :: "page_op \<Rightarrow> bool" where
  "in_bounds (WritePayload off bs) \<longleftrightarrow> off + length bs \<le> payload_size"
| "in_bounds op \<longleftrightarrow> True"

section \<open>The type of a page\<close>

definition page_typed :: "Page \<Rightarrow> bool" where
  "page_typed p \<longleftrightarrow> wf_page p \<and> 0 \<le> pin_count p \<and>
     (header_page_id (page_data p) = page_id p \<or> header_page_id (page_data p) = 0 \<and> page_id p = INVALID_PAGE_ID)"

lemma header_page_id_set_lsn: "wf_page p \<Longrightarrow> header_page_id (page_data (set_lsn l p)) = header_page_id (page_data p)"
  by (simp add: header_page_id_def set_lsn_def wf_page_def layout_defs read_write_before)

lemma header_page_id_payload:
  "wf_page p \<Longrightarrow> header_page_id (page_data (write_payload off bs p)) = header_page_id (page_data p)"
  by (simp add: header_page_id_def write_payload_def wf_page_def layout_defs read_write_before)

lemma header_page_id_zero: "header_page_id (replicate PAGE_SIZE 0) = 0"
  by (simp add: header_page_id_def read_at_def layout_defs le_word_def numeral_eq_Suc)

lemma page_apply_typed: "page_typed p \<Longrightarrow> in_bounds op \<Longrightarrow> page_typed (page_apply op p)"
proof (cases op)
  case (SetLsn l)
  assume "page_typed p"
  with SetLsn header_page_id_set_lsn [of p l] show ?thesis by (auto simp: page_typed_def) (auto simp: set_lsn_def)
next
  case Reset
  then show ?thesis by (simp add: page_typed_def) (simp add: reset_def header_page_id_zero)
next
  case (WritePayload off bs)
  assume "page_typed p" "in_bounds op"
  with WritePayload header_page_id_payload [of p off bs] show ?thesis
    by (auto simp: page_typed_def) (auto simp: write_payload_def wf_page_def payload_size_def layout_defs)
qed (auto simp: page_typed_def)

lemma page_fold_typed: "page_typed p \<Longrightarrow> list_all in_bounds ops \<Longrightarrow> page_typed (fold page_apply ops p)"
  by (induction ops arbitrary: p) (auto simp: page_apply_typed)

lemma page_new_typed: "page_typed (Page_new i)" "page_typed Page_default"
proof -
  have "header_page_id (page_data (Page_new i)) = i"
    by (simp add: Page_new_def header_page_id_def u32c.field_get_set)
  then show "page_typed (Page_new i)" by (simp add: page_typed_def) (simp add: Page_new_def)
  show "page_typed Page_default"
    by (simp add: page_typed_def) (simp add: Page_default_def header_page_id_zero)
qed

section \<open>Properties\<close>



end
