(* ===== verification/Front_End.thy ===== *)
theory Front_End
  imports Text_Engine Decimal
begin

text \<open>
  The layers between clients and the engine: \<open>src/datyredb/status.hpp\<close>, \<open>src/core/query_result.cpp\<close>,
  \<open>src/core/table.cpp\<close>, \<open>src/core/database.cpp\<close>, and of \<open>src/network/\<close> the dispatcher, the session of a TCP client
  and the messages of the Telegram bot. The sockets of Boost.Asio appear through their events: the completion of an
  asynchronous read or write is a call of its handler, with the error code as an argument.
\<close>

section \<open>Status\<close>

datatype StatusCode = kOk | kNotFound | kCorruption | kNotSupported | kInvalidArgument | kIOError

record Status =
  status_code :: StatusCode
  status_msg :: string

definition Status_OK :: Status where
  "Status_OK = \<lparr>status_code = kOk, status_msg = ''''\<rparr>"

definition NotFound :: "string \<Rightarrow> Status" where
  "NotFound msg = \<lparr>status_code = kNotFound, status_msg = msg\<rparr>"

definition Corruption :: "string \<Rightarrow> Status" where
  "Corruption msg = \<lparr>status_code = kCorruption, status_msg = msg\<rparr>"

definition NotSupported :: "string \<Rightarrow> Status" where
  "NotSupported msg = \<lparr>status_code = kNotSupported, status_msg = msg\<rparr>"

definition InvalidArgument :: "string \<Rightarrow> Status" where
  "InvalidArgument msg = \<lparr>status_code = kInvalidArgument, status_msg = msg\<rparr>"

definition IOError :: "string \<Rightarrow> Status" where
  "IOError msg = \<lparr>status_code = kIOError, status_msg = msg\<rparr>"

definition status_ok :: "Status \<Rightarrow> bool" where
  "status_ok st \<longleftrightarrow> status_code st = kOk"

definition IsNotFound :: "Status \<Rightarrow> bool" where
  "IsNotFound st \<longleftrightarrow> status_code st = kNotFound"

definition ToString :: "Status \<Rightarrow> string" where
  "ToString st =
     (case status_code st of
        kOk \<Rightarrow> ''OK''
      | kNotFound \<Rightarrow> ''NotFound: '' @ status_msg st
      | kCorruption \<Rightarrow> ''Corruption: '' @ status_msg st
      | kNotSupported \<Rightarrow> ''NotSupported: '' @ status_msg st
      | kInvalidArgument \<Rightarrow> ''InvalidArgument: '' @ status_msg st
      | kIOError \<Rightarrow> ''IOError: '' @ status_msg st)"

section \<open>Query results\<close>

record Row =
  row_values :: "string list"

definition Row_at :: "nat \<Rightarrow> Row \<Rightarrow> string + string" where
  "Row_at i r = (if length (row_values r) \<le> i then Inl ''Row index out of range'' else Inr (row_values r ! i))"

definition Row_size :: "Row \<Rightarrow> nat" where
  "Row_size r = length (row_values r)"

record QueryResult =
  qr_status :: Status
  qr_message :: string
  qr_columns :: "string list"
  qr_rows :: "Row list"

definition QueryResult_default :: QueryResult where
  "QueryResult_default = \<lparr>qr_status = Status_OK, qr_message = '''', qr_columns = [], qr_rows = []\<rparr>"

definition QueryResult_of_status :: "Status \<Rightarrow> QueryResult" where
  "QueryResult_of_status st = \<lparr>qr_status = st, qr_message = '''', qr_columns = [], qr_rows = []\<rparr>"

definition QueryResult_of_data :: "string list \<Rightarrow> Row list \<Rightarrow> QueryResult" where
  "QueryResult_of_data cols rows = \<lparr>qr_status = Status_OK, qr_message = '''', qr_columns = cols, qr_rows = rows\<rparr>"

definition with_message :: "string \<Rightarrow> QueryResult \<Rightarrow> QueryResult" where
  "with_message msg r = r\<lparr>qr_message := msg\<rparr>"

definition qr_ok :: "QueryResult \<Rightarrow> bool" where
  "qr_ok r \<longleftrightarrow> status_ok (qr_status r)"

definition row_count :: "QueryResult \<Rightarrow> nat" where
  "row_count r = length (qr_rows r)"

definition Success :: "string \<Rightarrow> QueryResult" where
  "Success msg = with_message msg QueryResult_default"

definition QueryResult_Error :: "Status \<Rightarrow> QueryResult" where
  "QueryResult_Error st = QueryResult_of_status st"

definition FromData :: "string list \<Rightarrow> string list list \<Rightarrow> QueryResult" where
  "FromData cols raw_rows = QueryResult_of_data cols (map (\<lambda>v. \<lparr>row_values = v\<rparr>) raw_rows)"

section \<open>Tables and database\<close>

text \<open>The documents of \<open>nlohmann::json\<close> are a type parameter; the code asks one question about them.\<close>

record CoreTable =
  ct_name :: string

definition CoreTable_new :: "string \<Rightarrow> CoreTable" where
  "CoreTable_new n = \<lparr>ct_name = n\<rparr>"

definition validate :: "('j \<Rightarrow> bool) \<Rightarrow> 'j \<Rightarrow> CoreTable \<Rightarrow> bool" where
  "validate json_empty data t = (if json_empty data then False else True)"

definition ct_insert :: "('j \<Rightarrow> bool) \<Rightarrow> 'j \<Rightarrow> CoreTable \<Rightarrow> Status \<times> CoreTable" where
  "ct_insert json_empty data t =
     (if \<not> validate json_empty data t then (InvalidArgument ''Data validation failed'', t) else (Status_OK, t))"

record Database =
  db_tables :: "(string \<times> CoreTable) list"
  data_dir :: string

definition Database_new :: Database where
  "Database_new = \<lparr>db_tables = [], data_dir = ''./data''\<rparr>"

text \<open>\<open>shutdown\<close>, which the destructor calls, prints a message; \<open>load_tables\<close> is empty and has no caller.\<close>

definition Database_shutdown :: "Database \<Rightarrow> Database" where
  "Database_shutdown db = db"

definition Database_destroy :: "Database \<Rightarrow> Database" where
  "Database_destroy db = Database_shutdown db"

definition load_tables :: "Database \<Rightarrow> Database" where
  "load_tables db = db"

definition CreateTable :: "string \<Rightarrow> string list \<Rightarrow> Database \<Rightarrow> Status \<times> Database" where
  "CreateTable name columns db =
     (if map_of (db_tables db) name \<noteq> None then (InvalidArgument ''Table already exists'', db)
      else (Status_OK, db\<lparr>db_tables := AList.update name (CoreTable_new name) (db_tables db)\<rparr>))"

definition GetTable :: "string \<Rightarrow> Database \<Rightarrow> CoreTable option" where
  "GetTable name db = map_of (db_tables db) name"

definition db_execute :: "string \<Rightarrow> string" where
  "db_execute query = ''Executed: '' @ query"

section \<open>Dispatcher\<close>

definition dispatch :: "string \<Rightarrow> string" where
  "dispatch request =
     (if request = [] then ''Error: Empty command''
      else if take 6 request = ''CREATE'' then ''ACK: CREATE command received''
      else if take 6 request = ''SELECT'' then ''ACK: SELECT command received''
      else if request = ''PING'' \<or> request = ''ping'' then ''PONG''
      else ''Error: Unknown command'')"

section \<open>Session\<close>

text \<open>
  The write queue, whether the asynchronous write of its front and the one of the farewell have been started and not
  completed, and the bytes that completed writes of the queue have put on the socket.
\<close>

record Session =
  write_msgs :: "string list"
  write_active :: bool
  goodbye_active :: bool
  socket_open :: bool
  socket_bytes :: string

definition Session_new :: Session where
  "Session_new = \<lparr>write_msgs = [], write_active = False, goodbye_active = False, socket_open = True, socket_bytes = []\<rparr>"

text \<open>\<open>erase_all(msg, "\r")\<close> and \<open>replace_all(msg, "\n", "\r\n")\<close>\<close>

definition crlf :: "string \<Rightarrow> string" where
  "crlf msg = concat (map (\<lambda>c. if c = CHR 0x0A then [CHR 0x0D, CHR 0x0A] else [c]) msg)"

definition normalize :: "string \<Rightarrow> string" where
  "normalize msg = crlf (filter (\<lambda>c. c \<noteq> CHR 0x0D) msg)"

definition do_write :: "Session \<Rightarrow> Session" where
  "do_write s = s\<lparr>write_active := True\<rparr>"

definition deliver :: "string \<Rightarrow> Session \<Rightarrow> Session" where
  "deliver msg s =
     (let write_in_progress = (write_msgs s \<noteq> []);
          s1 = s\<lparr>write_msgs := write_msgs s @ [normalize msg]\<rparr>
      in if write_in_progress then s1 else do_write s1)"

text \<open>The completion handler of \<open>do_write\<close>; after an error it does nothing.\<close>

definition write_done :: "bool \<Rightarrow> Session \<Rightarrow> Session" where
  "write_done ok s =
     (if \<not> ok then s\<lparr>write_active := False\<rparr>
      else let s1 = s\<lparr>socket_bytes := socket_bytes s @ hd (write_msgs s), write_msgs := tl (write_msgs s),
                      write_active := False\<rparr>
           in if write_msgs s1 \<noteq> [] then do_write s1 else s1)"

definition process_command :: "string \<Rightarrow> Session \<Rightarrow> Session" where
  "process_command command s =
     (let cmd_upper = map toupper command
      in if cmd_upper = ''PING'' then deliver (''PONG'' @ [CHR 0x0A] @ ''db > '') s
         else if cmd_upper = ''EXIT'' \<or> cmd_upper = ''QUIT'' then s\<lparr>goodbye_active := True\<rparr>
         else deliver (''Unrecognized command: '' @ command @ [CHR 0x0A] @ ''db > '') s)"

definition goodbye_done :: "Session \<Rightarrow> Session" where
  "goodbye_done s = s\<lparr>goodbye_active := False, socket_open := False\<rparr>"

text \<open>The completion handler of \<open>do_read\<close>, with the line it extracts.\<close>

definition read_done :: "bool \<Rightarrow> string \<Rightarrow> Session \<Rightarrow> Session" where
  "read_done ok ln s =
     (if \<not> ok then s
      else let cmd = trim ln in if cmd \<noteq> [] then process_command cmd s else deliver ''db > '' s)"

definition welcome_text :: string where
  "welcome_text = ''Welcome to DatyreDB (Async Pro Edition)!'' @ [CHR 0x0A] @ ''Type '' @ [CHR 0x27] @ ''EXIT'' @ [CHR 0x27]
     @ '' to quit.'' @ [CHR 0x0A] @ [CHR 0x0A] @ ''db > ''"

definition session_start :: "Session \<Rightarrow> Session" where
  "session_start s = deliver welcome_text s"

section \<open>Telegram bot\<close>

text \<open>The chat and the text of the message that \<open>handle_message\<close> sends; the text is cut to 4096 bytes.\<close>

definition bot_send :: "int \<Rightarrow> string \<Rightarrow> int \<times> string" where
  "bot_send chat_id txt = (chat_id, take 4096 txt)"

definition handle_message :: "bool \<Rightarrow> int \<Rightarrow> string \<Rightarrow> int \<times> string" where
  "handle_message has_db chat_id txt =
     (if \<not> has_db then bot_send chat_id ''Error: Database not connected.''
      else let response =
             (if txt = ''/start'' then ''Welcome to DatyreDB Bot! Send SQL query.''
              else if txt = ''/stats'' then ''Stats: Uptime 100%''
              else db_execute txt)
           in bot_send chat_id response)"

definition cells :: "string list \<Rightarrow> string" where
  "cells xs = concat (map (\<lambda>x. x @ '' | '') xs)"

text \<open>The loop over the rows; \<open>count\<close> is the counter before the test \<open>count++ > 10\<close>.\<close>

fun format_rows :: "nat \<Rightarrow> nat \<Rightarrow> Row list \<Rightarrow> string" where
  "format_rows nrows count [] = []"
| "format_rows nrows count (r # rs) =
     (if 10 < count then ''... and '' @ to_string (nrows - 10) @ '' more''
      else cells (row_values r) @ [CHR 0x0A] @ format_rows nrows (count + 1) rs)"

definition format_query_result :: "QueryResult \<Rightarrow> string" where
  "format_query_result r =
     (if \<not> qr_ok r then ''Error: '' @ qr_message r
      else cells (qr_columns r) @ [CHR 0x0A] @ replicate 20 (CHR ''-'') @ [CHR 0x0A] @
           format_rows (row_count r) 0 (qr_rows r))"

end
