(* ===== verification/Net_Server.thy ===== *)
theory Net_Server
  imports Front_End
begin

text \<open>
  The TCP server (\<open>src/network/server.cpp\<close>) and the program that runs it (\<open>src/main.cpp\<close>): the main thread, which
  waits for a signal and then shuts the server down, the server thread, which runs the event loop, and the handlers
  the loop calls. The two threads share the flags \<open>g_running\<close> and \<open>running_\<close> and the event loop; a run of the process
  is a sequence of events, each of them one access of one thread to that shared state, a signal, or a completed
  asynchronous operation. The loop itself is Boost.Asio's \<open>io_context\<close>, a parameter.
\<close>

section \<open>Command line\<close>

text \<open>\<open>std::stoi\<close>: white space, a sign, digits up to the first other character; both exceptions are \<open>None\<close>.\<close>

definition stoi :: "string \<Rightarrow> int option" where
  "stoi s =
     (let t = dropWhile is_space s;
          neg = (t \<noteq> [] \<and> hd t = CHR ''-'');
          u = (if t \<noteq> [] \<and> (hd t = CHR ''-'' \<or> hd t = CHR ''+'') then tl t else t)
      in if \<not> starts_with_digit u then None
         else let v = (if neg then - int (read_digits 0 u) else int (read_digits 0 u))
              in if v < - (2 ^ 31) \<or> 2 ^ 31 \<le> v then None else Some v)"

definition port_argument :: "string list \<Rightarrow> int" where
  "port_argument argv =
     (if 1 < length argv then (case stoi (argv ! 1) of None \<Rightarrow> 7432 | Some p \<Rightarrow> p) else 7432)"

record ServerConfig =
  tcp_port :: int
  max_connections :: int

definition ServerConfig_default :: ServerConfig where
  "ServerConfig_default = \<lparr>tcp_port = 7432, max_connections = 1000\<rparr>"

section \<open>Server\<close>

text \<open>
  What the server uses of the event loop: a new context, \<open>stop\<close>, whether it is stopped, and whether an acceptor can be
  opened on a port. Documented are only that a new context is not stopped and that one on which \<open>stop\<close> was called is.
\<close>

record 'io event_loop =
  io_new :: 'io
  io_stop :: "'io \<Rightarrow> 'io"
  io_stopped :: "'io \<Rightarrow> bool"
  acceptor_opens :: "u16 \<Rightarrow> bool"

definition event_loop_laws :: "'io event_loop \<Rightarrow> bool" where
  "event_loop_laws L \<longleftrightarrow> \<not> io_stopped L (io_new L) \<and> (\<forall>c. io_stopped L (io_stop L c))"

text \<open>A session in the server, with whether a read of it is outstanding.\<close>

record ServerSession =
  ss_session :: Session
  ss_reading :: bool

record 'io Server =
  io_context :: 'io
  acceptor_port :: u16
  running :: bool
  accept_pending :: bool
  srv_sessions :: "ServerSession list"

text \<open>\<open>Session::create\<close> and \<open>start\<close>, which delivers the welcome text and begins to read.\<close>

definition start_session :: ServerSession where
  "start_session = \<lparr>ss_session = session_start Session_new, ss_reading = True\<rparr>"

definition do_accept :: "'io Server \<Rightarrow> 'io Server" where
  "do_accept s = s\<lparr>accept_pending := True\<rparr>"

text \<open>The constructor; the port of the configuration, an \<open>int\<close>, becomes the 16-bit port of \<open>tcp::endpoint\<close>.\<close>

definition Server_new :: "'io event_loop \<Rightarrow> ServerConfig \<Rightarrow> string + 'io Server" where
  "Server_new L config =
     (let port = word_of_int (tcp_port config) :: u16
      in if \<not> acceptor_opens L port then Inl ''bind''
         else Inr (do_accept \<lparr>io_context = io_new L, acceptor_port = port, running = False, accept_pending = False,
                             srv_sessions = []\<rparr>))"

text \<open>\<open>run\<close> up to the blocking call of \<open>io_context_.run\<close>.\<close>

definition server_run :: "'io Server \<Rightarrow> 'io Server" where
  "server_run s = s\<lparr>running := True\<rparr>"

text \<open>
  The handler of \<open>async_accept\<close>: an error code, or a socket whose \<open>remote_endpoint\<close> is the address of the client, or
  throws when the client has already gone. \<open>Inl\<close> is an exception that leaves the handler, and \<open>io_context_.run\<close> with it.
\<close>

datatype accept_outcome = AcceptError | Accepted "string option"

definition accept_done :: "accept_outcome \<Rightarrow> 'io Server \<Rightarrow> 'io Server + 'io Server" where
  "accept_done ec s =
     (let s1 = s\<lparr>accept_pending := False\<rparr>
      in case ec of
           AcceptError \<Rightarrow> Inr (do_accept s1)
         | Accepted None \<Rightarrow> Inl s1
         | Accepted (Some address) \<Rightarrow>
             Inr (do_accept (s1\<lparr>srv_sessions := srv_sessions s1 @ [start_session]\<rparr>)))"

text \<open>
  The handlers of the sessions, for an operation that is outstanding; on a closed socket it can only have failed. A read
  that fails is not followed by another one.
\<close>

datatype session_io = SessionRead bool string | SessionWritten bool | SessionGoodbye

fun session_done :: "session_io \<Rightarrow> ServerSession \<Rightarrow> ServerSession option" where
  "session_done (SessionRead ok ln) c =
     (if ss_reading c \<and> (ok \<longrightarrow> socket_open (ss_session c))
      then Some \<lparr>ss_session = read_done ok ln (ss_session c), ss_reading = ok\<rparr> else None)"
| "session_done (SessionWritten ok) c =
     (if write_active (ss_session c) \<and> (ok \<longrightarrow> socket_open (ss_session c))
      then Some (c\<lparr>ss_session := write_done ok (ss_session c)\<rparr>) else None)"
| "session_done SessionGoodbye c =
     (if goodbye_active (ss_session c) then Some (c\<lparr>ss_session := goodbye_done (ss_session c)\<rparr>) else None)"

definition session_outstanding :: "ServerSession \<Rightarrow> bool" where
  "session_outstanding c \<longleftrightarrow> ss_reading c \<or> write_active (ss_session c) \<or> goodbye_active (ss_session c)"

text \<open>\<open>io_context_.run\<close> returns once the context is stopped, or when no asynchronous operation is outstanding.\<close>

definition run_returns :: "'io event_loop \<Rightarrow> 'io Server \<Rightarrow> bool" where
  "run_returns L s \<longleftrightarrow>
     io_stopped L (io_context s) \<or> \<not> accept_pending s \<and> \<not> list_ex session_outstanding (srv_sessions s)"

section \<open>Process\<close>

text \<open>
  Where each thread is. The main thread: the test of the waiting loop and its sleep, the test, the call and the
  assignment of \<open>Server::stop\<close>, the join, the shutdown of the database, the return of \<open>main\<close>. The server thread: before
  the assignment of \<open>run\<close>, inside \<open>io_context_.run\<close>, in the \<open>catch\<close> of its function, finished.
\<close>

datatype main_point = MTest | MSleep | MStopTest | MStopIo | MStopFlag | MJoin | MShutdown | MExited int
datatype thread_point = TStart | TRun | TCatch | TDone

record 'io process =
  g_running :: bool
  main_at :: main_point
  thread_at :: thread_point
  server :: "'io Server"
  database_down :: bool

definition signal_handler :: "'io process \<Rightarrow> 'io process" where
  "signal_handler p = (if g_running p then p\<lparr>g_running := False\<rparr> else p)"

text \<open>\<open>Server::stop\<close>, one shared access at a time: the test of \<open>running_\<close>, \<open>io_context_.stop\<close>, the assignment.\<close>

definition stop_test :: "'io process \<Rightarrow> 'io process" where
  "stop_test p = (if running (server p) then p\<lparr>main_at := MStopIo\<rparr> else p\<lparr>main_at := MJoin\<rparr>)"

definition stop_io :: "'io event_loop \<Rightarrow> 'io process \<Rightarrow> 'io process" where
  "stop_io L p = p\<lparr>server := (server p)\<lparr>io_context := io_stop L (io_context (server p))\<rparr>, main_at := MStopFlag\<rparr>"

definition stop_flag :: "'io process \<Rightarrow> 'io process" where
  "stop_flag p = p\<lparr>server := (server p)\<lparr>running := False\<rparr>, main_at := MJoin\<rparr>"

text \<open>One step of the main thread, from the waiting loop to the return of \<open>main\<close>; \<open>None\<close> where it cannot go on.\<close>

definition main_tick :: "'io event_loop \<Rightarrow> 'io process \<Rightarrow> 'io process option" where
  "main_tick L p =
     (case main_at p of
        MTest \<Rightarrow> Some (p\<lparr>main_at := if g_running p then MSleep else MStopTest\<rparr>)
      | MSleep \<Rightarrow> Some (p\<lparr>main_at := MTest\<rparr>)
      | MStopTest \<Rightarrow> Some (stop_test p)
      | MStopIo \<Rightarrow> Some (stop_io L p)
      | MStopFlag \<Rightarrow> Some (stop_flag p)
      | MJoin \<Rightarrow> if thread_at p = TDone then Some (p\<lparr>main_at := MShutdown\<rparr>) else None
      | MShutdown \<Rightarrow> Some (p\<lparr>database_down := True, main_at := MExited 0\<rparr>)
      | MExited code \<Rightarrow> None)"

text \<open>One step of the function of the server thread.\<close>

definition thread_tick :: "'io event_loop \<Rightarrow> 'io process \<Rightarrow> 'io process option" where
  "thread_tick L p =
     (case thread_at p of
        TStart \<Rightarrow> Some (p\<lparr>server := server_run (server p), thread_at := TRun\<rparr>)
      | TRun \<Rightarrow> if run_returns L (server p) then Some (p\<lparr>thread_at := TDone\<rparr>) else None
      | TCatch \<Rightarrow> Some (p\<lparr>g_running := False, thread_at := TDone\<rparr>)
      | TDone \<Rightarrow> None)"

datatype event = Signal | MainTick | ThreadTick | Accept accept_outcome | SessionIO nat session_io

definition loop_active :: "'io event_loop \<Rightarrow> 'io process \<Rightarrow> bool" where
  "loop_active L p \<longleftrightarrow> thread_at p = TRun \<and> \<not> io_stopped L (io_context (server p))"

definition accept_event :: "'io event_loop \<Rightarrow> accept_outcome \<Rightarrow> 'io process \<Rightarrow> 'io process option" where
  "accept_event L ec p =
     (if loop_active L p \<and> accept_pending (server p)
      then case accept_done ec (server p) of
             Inl s \<Rightarrow> Some (p\<lparr>server := s, thread_at := TCatch\<rparr>)
           | Inr s \<Rightarrow> Some (p\<lparr>server := s\<rparr>)
      else None)"

definition session_event :: "'io event_loop \<Rightarrow> nat \<Rightarrow> session_io \<Rightarrow> 'io process \<Rightarrow> 'io process option" where
  "session_event L i io p =
     (if loop_active L p \<and> i < length (srv_sessions (server p))
      then map_option (\<lambda>s. p\<lparr>server := (server p)\<lparr>srv_sessions := (srv_sessions (server p))[i := s]\<rparr>\<rparr>)
             (session_done io (srv_sessions (server p) ! i))
      else None)"

fun proc_event :: "'io event_loop \<Rightarrow> event \<Rightarrow> 'io process \<Rightarrow> 'io process option" where
  "proc_event L Signal p = Some (signal_handler p)"
| "proc_event L MainTick p = main_tick L p"
| "proc_event L ThreadTick p = thread_tick L p"
| "proc_event L (Accept ec) p = accept_event L ec p"
| "proc_event L (SessionIO i io) p = session_event L i io p"

fun schedule :: "'io event_loop \<Rightarrow> event list \<Rightarrow> 'io process \<Rightarrow> 'io process option" where
  "schedule L [] p = Some p"
| "schedule L (e # es) p = (case proc_event L e p of None \<Rightarrow> None | Some q \<Rightarrow> schedule L es q)"

text \<open>\<open>main\<close> up to the waiting loop; an exception of the constructors makes it return \<open>EXIT_FAILURE\<close>.\<close>

definition main_begin :: "'io event_loop \<Rightarrow> string list \<Rightarrow> int + 'io process" where
  "main_begin L argv =
     (let port = port_argument argv;
          server_config = ServerConfig_default\<lparr>tcp_port := port, max_connections := 5000\<rparr>
      in case Server_new L server_config of
           Inl e \<Rightarrow> Inl 1
         | Inr srv \<Rightarrow> Inr \<lparr>g_running = True, main_at = MTest, thread_at = TStart, server = srv,
                           database_down = False\<rparr>)"

end
