(* ===== verification/Net_Server_Props.thy ===== *)
theory Net_Server_Props
  imports Net_Server
begin

text \<open>
  The server process: an invariant of all its runs, the order of a shutdown, the conditions under which a shutdown
  completes and the one under which it does not, what a client that leaves at once does to the process, and the port
  the server listens on.
\<close>

section \<open>Runs\<close>

text \<open>Runs whose events are all of a given kind, as a step relation.\<close>

inductive proc_step :: "'io event_loop \<Rightarrow> (event \<Rightarrow> bool) \<Rightarrow> 'io process \<Rightarrow> 'io process \<Rightarrow> bool" for L A where
  proc_stepI: "A e \<Longrightarrow> proc_event L e p = Some q \<Longrightarrow> proc_step L A p q"

inductive_cases proc_stepE: "proc_step L A p q"

lemma schedule_append: "schedule L (es @ fs) p = Option.bind (schedule L es p) (schedule L fs)"
  by (induction es arbitrary: p) (auto split: option.splits)

lemma schedule_reach:
  "schedule L es p = Some q \<Longrightarrow> list_all A es \<Longrightarrow> reach (proc_step L A) p q"
proof (induction es arbitrary: p)
  case Nil
  then show ?case by (simp add: reach_refl)
next
  case (Cons e es)
  then obtain p1 where e: "proc_event L e p = Some p1" "schedule L es p1 = Some q"
    by (auto split: option.splits)
  with Cons have "reach (proc_step L A) p1 q" by simp
  moreover have "reach (proc_step L A) p p1"
    using Cons.prems e by (auto intro: reach_step [OF reach_refl] proc_stepI)
  ultimately show ?case by (rule reach_trans)
qed

text \<open>
  What one event does to the state the threads share. A handler of the event loop runs only while the loop does, and
  leaves both flags, the loop and the main thread alone.
\<close>

definition same_shared :: "'io process \<Rightarrow> 'io process \<Rightarrow> bool" where
  "same_shared p q \<longleftrightarrow> main_at q = main_at p \<and> g_running q = g_running p \<and> database_down q = database_down p \<and>
     running (server q) = running (server p) \<and> io_context (server q) = io_context (server p)"

lemma accept_event_effect:
  assumes "accept_event L ec p = Some q"
  shows "loop_active L p" and "same_shared p q"
    and "thread_at q = (if ec = Accepted None then TCatch else TRun)"
    and "accept_pending (server q) = (ec \<noteq> Accepted None)"
  using assms
  by (auto simp: accept_event_def accept_done_def do_accept_def same_shared_def loop_active_def Let_def
           split: accept_outcome.splits option.splits if_splits)

lemma session_event_effect:
  assumes "session_event L i io p = Some q"
  shows "loop_active L p" and "same_shared p q" and "thread_at q = TRun"
    and "accept_pending (server q) = accept_pending (server p)"
  using assms by (auto simp: session_event_def same_shared_def loop_active_def split: if_splits)

lemma signal_effect [simp]:
  "main_at (signal_handler p) = main_at p" "thread_at (signal_handler p) = thread_at p"
  "server (signal_handler p) = server p" "database_down (signal_handler p) = database_down p"
  "g_running (signal_handler p) = False"
  by (simp_all add: signal_handler_def)

lemmas tick_defs = main_tick_def thread_tick_def stop_test_def stop_io_def stop_flag_def server_run_def

section \<open>The invariant of the process\<close>

definition waiting :: "'io process \<Rightarrow> bool" where
  "waiting p \<longleftrightarrow> main_at p = MTest \<or> main_at p = MSleep"

definition shut_down :: "'io process \<Rightarrow> bool" where
  "shut_down p \<longleftrightarrow> (case main_at p of MShutdown \<Rightarrow> True | MExited c \<Rightarrow> True | _ \<Rightarrow> False)"

lemma main_only [simp]:
  "waiting (p\<lparr>server := s\<rparr>) = waiting p" "waiting (p\<lparr>thread_at := t\<rparr>) = waiting p" "waiting (p\<lparr>g_running := b\<rparr>) = waiting p"
  "shut_down (p\<lparr>server := s\<rparr>) = shut_down p" "shut_down (p\<lparr>thread_at := t\<rparr>) = shut_down p"
  "shut_down (p\<lparr>g_running := b\<rparr>) = shut_down p"
  by (simp_all add: waiting_def shut_down_def)

definition proc_inv :: "'io event_loop \<Rightarrow> 'io process \<Rightarrow> bool" where
  "proc_inv L p \<longleftrightarrow>
     (shut_down p \<longrightarrow> thread_at p = TDone) \<and>
     (database_down p \<longleftrightarrow> main_at p = MExited 0) \<and> (\<forall>c. main_at p = MExited c \<longrightarrow> c = 0) \<and>
     (thread_at p = TStart \<longrightarrow> \<not> running (server p) \<and> srv_sessions (server p) = []) \<and>
     (thread_at p = TStart \<or> thread_at p = TRun \<longrightarrow> accept_pending (server p)) \<and>
     (waiting p \<and> thread_at p \<noteq> TStart \<longrightarrow> running (server p)) \<and>
     (g_running p \<longrightarrow> waiting p) \<and>
     (waiting p \<longrightarrow> \<not> io_stopped L (io_context (server p)))"

lemma proc_inv_main: "main_tick L p = Some q \<Longrightarrow> proc_inv L p \<Longrightarrow> proc_inv L q"
  by (cases "main_at p"; clarsimp simp: tick_defs proc_inv_def waiting_def shut_down_def split: if_splits)

lemma proc_inv_thread: "thread_tick L p = Some q \<Longrightarrow> proc_inv L p \<Longrightarrow> proc_inv L q"
  by (cases "thread_at p") (auto simp: tick_defs proc_inv_def run_returns_def split: if_splits)

lemma proc_inv_signal: "proc_inv L p \<Longrightarrow> proc_inv L (signal_handler p)"
  by (simp add: signal_handler_def proc_inv_def)

lemma proc_inv_handler:
  assumes "loop_active L p" and "same_shared p q" and "thread_at q = TCatch \<or> thread_at q = TRun \<and> accept_pending (server q)"
    and "proc_inv L p"
  shows "proc_inv L q"
proof -
  have "waiting q = waiting p" "shut_down q = shut_down p" "\<not> shut_down p"
    using assms by (auto simp: same_shared_def waiting_def shut_down_def loop_active_def proc_inv_def)
  with assms show ?thesis by (auto simp: same_shared_def loop_active_def proc_inv_def)
qed

lemma proc_event_inv: "proc_event L e p = Some q \<Longrightarrow> proc_inv L p \<Longrightarrow> proc_inv L q"
proof (cases e)
  case Signal
  assume "proc_event L e p = Some q" "proc_inv L p"
  with Signal show ?thesis by (auto dest: proc_inv_signal)
next
  case (Accept ec)
  assume "proc_event L e p = Some q" "proc_inv L p"
  with Accept show ?thesis
    using accept_event_effect [of L ec p q] by (intro proc_inv_handler [of L p q]) (auto split: if_splits)
next
  case (SessionIO i io)
  assume a: "proc_event L e p = Some q" "proc_inv L p"
  with SessionIO have "session_event L i io p = Some q" by simp
  from session_event_effect [OF this] a(2) show ?thesis
    by (intro proc_inv_handler [of L p q]) (auto simp: proc_inv_def loop_active_def)
qed (auto intro: proc_inv_main proc_inv_thread)

interpretation proc: transition_invariant "proc_step L A" "proc_inv L"
  by unfold_locales (auto elim!: proc_stepE intro: proc_event_inv)

lemma main_begin_eq:
  assumes "main_begin L argv = Inr p"
  shows "p = \<lparr>g_running = True, main_at = MTest, thread_at = TStart,
              server = \<lparr>io_context = io_new L, acceptor_port = word_of_int (port_argument argv), running = False,
                        accept_pending = True, srv_sessions = []\<rparr>, database_down = False\<rparr>"
  using assms
  by (auto simp: main_begin_def Server_new_def ServerConfig_default_def do_accept_def Let_def split: if_splits)

lemma main_begin_inv:
  assumes "event_loop_laws L" and "main_begin L argv = Inr p"
  shows "proc_inv L p"
  using assms(1)
  by (simp add: main_begin_eq [OF assms(2)] proc_inv_def waiting_def shut_down_def event_loop_laws_def)

lemma run_inv:
  assumes "event_loop_laws L" and "main_begin L argv = Inr p" and "schedule L es p = Some q"
  shows "proc_inv L q"
proof (rule proc.reach_inv)
  show "reach (proc_step L (\<lambda>_. True)) p q"
    using assms(3) by (rule schedule_reach) (simp add: list_all_iff)
  show "proc_inv L p" using assms(1,2) by (rule main_begin_inv)
qed

section \<open>A shutdown that completes\<close>

text \<open>The steps that the two threads still have to take when the process is stopping.\<close>

definition main_left :: "main_point \<Rightarrow> nat" where
  "main_left m = (case m of MSleep \<Rightarrow> 7 | MTest \<Rightarrow> 6 | MStopTest \<Rightarrow> 5 | MStopIo \<Rightarrow> 4 | MStopFlag \<Rightarrow> 3 | MJoin \<Rightarrow> 2
     | MShutdown \<Rightarrow> 1 | MExited c \<Rightarrow> 0)"

definition thread_left :: "thread_point \<Rightarrow> nat" where
  "thread_left t = (case t of TStart \<Rightarrow> 2 | TRun \<Rightarrow> 1 | TCatch \<Rightarrow> 1 | TDone \<Rightarrow> 0)"

definition steps_left :: "'io process \<Rightarrow> nat" where
  "steps_left p = main_left (main_at p) + thread_left (thread_at p)"

definition is_tick :: "event \<Rightarrow> bool" where
  "is_tick e \<longleftrightarrow> e = MainTick \<or> e = ThreadTick"

text \<open>A process that is stopping and cannot be caught in the join: the event loop will be stopped before it.\<close>

definition stopping :: "'io event_loop \<Rightarrow> 'io process \<Rightarrow> bool" where
  "stopping L p \<longleftrightarrow> \<not> g_running p \<and> thread_at p \<noteq> TStart \<and>
     (case main_at p of
        MSleep \<Rightarrow> running (server p) | MTest \<Rightarrow> running (server p) | MStopTest \<Rightarrow> running (server p)
      | MStopIo \<Rightarrow> True | _ \<Rightarrow> io_stopped L (io_context (server p)))"

lemma stopping_main:
  assumes "event_loop_laws L" and "main_tick L p = Some q" and "stopping L p"
  shows "stopping L q \<and> steps_left q + 1 \<le> steps_left p"
  using assms
  by (cases "main_at p")
     (auto simp: tick_defs stopping_def event_loop_laws_def steps_left_def main_left_def split: if_splits)

lemma stopping_thread:
  assumes "thread_tick L p = Some q" and "stopping L p"
  shows "stopping L q \<and> steps_left q + 1 \<le> steps_left p"
  using assms
  by (cases "thread_at p")
     (auto simp: tick_defs stopping_def steps_left_def thread_left_def split: if_splits main_point.splits)

lemma stopping_handler:
  assumes "loop_active L p" and "same_shared p q" and "thread_at q = TCatch \<or> thread_at q = TRun" and "stopping L p"
  shows "stopping L q \<and> steps_left q \<le> steps_left p"
  using assms
  by (auto simp: same_shared_def loop_active_def stopping_def steps_left_def thread_left_def split: main_point.splits)

lemma stopping_event:
  assumes "event_loop_laws L" and "proc_event L e p = Some q" and "stopping L p"
  shows "stopping L q \<and> steps_left q + (if is_tick e then 1 else 0) \<le> steps_left p"
proof (cases e)
  case Signal
  with assms show ?thesis by (auto simp: signal_handler_def is_tick_def stopping_def)
next
  case MainTick
  with assms show ?thesis using stopping_main [of L p q] by (simp add: is_tick_def)
next
  case ThreadTick
  with assms show ?thesis using stopping_thread [of L p q] by (simp add: is_tick_def)
next
  case (Accept ec)
  with assms show ?thesis
    using accept_event_effect [of L ec p q] stopping_handler [of L p q] by (auto simp: is_tick_def split: if_splits)
next
  case (SessionIO i io)
  with assms show ?thesis
    using session_event_effect [of L i io p q] stopping_handler [of L p q] by (auto simp: is_tick_def)
qed

lemma stopping_progress:
  assumes "stopping L p" and "\<forall>c. main_at p \<noteq> MExited c"
  shows "\<exists>e. is_tick e \<and> proc_event L e p \<noteq> None"
proof (cases "main_at p = MJoin \<and> thread_at p \<noteq> TDone")
  case True
  with assms(1) have "proc_event L ThreadTick p \<noteq> None"
    by (auto simp: stopping_def thread_tick_def run_returns_def split: thread_point.splits)
  then show ?thesis by (auto simp: is_tick_def)
next
  case False
  with assms have "proc_event L MainTick p \<noteq> None"
    by (auto simp: main_tick_def split: main_point.splits)
  then show ?thesis by (auto simp: is_tick_def)
qed

lemma stopping_run:
  assumes "event_loop_laws L" and "schedule L es p = Some q" and "stopping L p"
  shows "stopping L q \<and> length (filter is_tick es) + steps_left q \<le> steps_left p"
  using assms(2,3)
proof (induction es arbitrary: p)
  case (Cons e es)
  then obtain p1 where e: "proc_event L e p = Some p1" "schedule L es p1 = Some q"
    by (auto split: option.splits)
  note p1 = stopping_event [OF assms(1) e(1) Cons.prems(2)]
  with Cons.IH [OF e(2)] have "stopping L q \<and> length (filter is_tick es) + steps_left q \<le> steps_left p1" by blast
  with p1 show ?case by auto
qed simp

lemma steps_left_bound: "thread_at p \<noteq> TStart \<Longrightarrow> steps_left p \<le> 8"
  by (simp add: steps_left_def main_left_def thread_left_def split: main_point.splits thread_point.splits)

text \<open>Both halves: the number of steps is bounded, and until \<open>main\<close> has returned one of them can be taken.\<close>

lemma stopping_completes:
  assumes "event_loop_laws L" and "proc_inv L p" and "stopping L p" and "schedule L es p = Some q"
  shows "length (filter is_tick es) \<le> 8 \<and>
    (main_at q = MExited 0 \<and> thread_at q = TDone \<and> database_down q \<or> (\<exists>e. is_tick e \<and> proc_event L e q \<noteq> None))"
proof
  have s: "stopping L q" "length (filter is_tick es) + steps_left q \<le> steps_left p"
    using stopping_run [OF assms(1,4,3)] by auto
  with steps_left_bound [of p] assms(3) show "length (filter is_tick es) \<le> 8"
    by (auto simp: stopping_def)
  have "proc_inv L q"
    using proc.reach_inv [OF schedule_reach [OF assms(4), of "\<lambda>_. True"] assms(2)] by (simp add: list_all_iff)
  then have "main_at q = MExited c \<Longrightarrow> main_at q = MExited 0 \<and> thread_at q = TDone \<and> database_down q" for c
    by (auto simp: proc_inv_def shut_down_def)
  with stopping_progress [OF s(1)]
  show "main_at q = MExited 0 \<and> thread_at q = TDone \<and> database_down q \<or> (\<exists>e. is_tick e \<and> proc_event L e q \<noteq> None)"
    by blast
qed

section \<open>A shutdown that does not complete\<close>

text \<open>The main thread waits for a server thread whose event loop nobody will stop.\<close>

definition hung :: "'io event_loop \<Rightarrow> 'io process \<Rightarrow> bool" where
  "hung L p \<longleftrightarrow> main_at p = MJoin \<and> loop_active L p \<and> accept_pending (server p) \<and> \<not> database_down p"

lemma hung_event:
  assumes "proc_event L e p = Some q" and "e \<noteq> Accept (Accepted None)" and "hung L p"
  shows "hung L q"
proof (cases e)
  case (Accept ec)
  with assms show ?thesis using accept_event_effect [of L ec p q] by (auto simp: hung_def same_shared_def loop_active_def)
next
  case (SessionIO i io)
  with assms show ?thesis
    using session_event_effect [of L i io p q] by (auto simp: hung_def same_shared_def loop_active_def)
qed (use assms in \<open>auto simp: hung_def loop_active_def tick_defs run_returns_def\<close>)

interpretation hang: transition_invariant "proc_step L (\<lambda>e. e \<noteq> Accept (Accepted None))" "hung L"
  by unfold_locales (auto elim!: proc_stepE intro: hung_event)

text \<open>The events of a signal that is seen before the server thread has reached the assignment of \<open>run\<close>.\<close>

abbreviation early_signal :: "event list" where
  "early_signal \<equiv> [Signal, MainTick, MainTick, ThreadTick]"

lemma early_signal_hangs:
  assumes "event_loop_laws L" and "main_begin L argv = Inr p"
  shows "\<exists>q. schedule L early_signal p = Some q \<and> hung L q"
  using assms(1) unfolding main_begin_eq [OF assms(2)]
  by (simp add: signal_handler_def tick_defs hung_def loop_active_def event_loop_laws_def)

section \<open>Runs without a signal\<close>

text \<open>Without a signal only the \<open>catch\<close> of the server thread clears \<open>g_running\<close>.\<close>

definition quiet :: "'io process \<Rightarrow> bool" where
  "quiet p \<longleftrightarrow> g_running p \<or> thread_at p = TDone"

lemma quiet_event:
  assumes "proc_event L e p = Some q" and "e \<noteq> Signal" and "quiet p \<and> proc_inv L p"
  shows "quiet q \<and> proc_inv L q"
proof
  show "proc_inv L q" using assms proc_event_inv by blast
  show "quiet q"
  proof (cases e)
    case MainTick
    with assms show ?thesis by (cases "main_at p") (auto simp: quiet_def tick_defs split: if_splits)
  next
    case ThreadTick
    with assms show ?thesis by (cases "thread_at p") (auto simp: quiet_def tick_defs split: if_splits)
  next
    case (Accept ec)
    with assms show ?thesis
      using accept_event_effect [of L ec p q] by (auto simp: quiet_def same_shared_def loop_active_def)
  next
    case (SessionIO i io)
    with assms show ?thesis
      using session_event_effect [of L i io p q] by (auto simp: quiet_def same_shared_def loop_active_def)
  qed (use assms in simp)
qed

interpretation quiet: transition_invariant "proc_step L (\<lambda>e. e \<noteq> Signal)" "\<lambda>p. quiet p \<and> proc_inv L p"
  by unfold_locales (auto elim!: proc_stepE dest: quiet_event)

lemma quiet_run:
  assumes "event_loop_laws L" and "main_begin L argv = Inr p0" and "schedule L evs p0 = Some p" and "Signal \<notin> set evs"
  shows "quiet p"
proof -
  have "reach (proc_step L (\<lambda>e. e \<noteq> Signal)) p0 p"
    using assms(3) by (rule schedule_reach) (use assms(4) in \<open>auto simp: list_all_iff\<close>)
  moreover have "quiet p0" by (simp add: main_begin_eq [OF assms(2)] quiet_def)
  ultimately show ?thesis using quiet.reach_inv main_begin_inv [OF assms(1,2)] by blast
qed

lemma finished_event: "proc_event L e p = Some q \<Longrightarrow> thread_at p = TDone \<Longrightarrow> thread_at q = TDone"
  by (cases e; cases "main_at p")
     (auto simp: tick_defs accept_event_def session_event_def loop_active_def split: if_splits)

lemma finished_stays: "schedule L es p = Some q \<Longrightarrow> thread_at p = TDone \<Longrightarrow> thread_at q = TDone"
  by (induction es arbitrary: p) (auto split: option.splits dest: finished_event)

section \<open>The port\<close>

lemma stoi_to_string: "stoi (to_string n) = (if n < 2 ^ 31 then Some (int n) else None)"
proof -
  obtain c cs where s: "to_string n = c # cs" by (cases "to_string n") simp_all
  then have "digit_val c \<noteq> None" using to_string_digits [of c n] by simp
  with digit_not_special [OF this] show ?thesis
    using read_digits_to_string [of n] by (auto simp: stoi_def s Let_def starts_with_digit_def)
qed

section \<open>Properties\<close>

text \<open>C15. When the server has set \<open>running_\<close> before the stop is requested, the shutdown completes: from every state that
  a run of the program reaches with the flag \<open>g_running\<close> cleared and the main thread still in its waiting loop, whatever
  the scheduling and whatever signals and network events come in between, the two threads take at most eight more steps,
  and as long as \<open>main\<close> has not returned one of the two can take a step; when neither can, \<open>main\<close> has returned
  \<open>EXIT_SUCCESS\<close>, the server thread has ended and the database has been shut down.\<close>

theorem main_shutdown_completes:
  assumes "event_loop_laws L" and "main_begin L argv = Inr p0" and "schedule L evs p0 = Some p"
    and "running (server p)" and "\<not> g_running p" and "main_at p = MTest \<or> main_at p = MSleep"
    and "schedule L evs' p = Some q"
  shows "length (filter is_tick evs') \<le> 8 \<and>
    (main_at q = MExited 0 \<and> thread_at q = TDone \<and> database_down q \<or> (\<exists>e. is_tick e \<and> proc_event L e q \<noteq> None))"
proof (rule stopping_completes [OF assms(1) _ _ assms(7)])
  show inv: "proc_inv L p" using assms(1-3) by (rule run_inv)
  then have "thread_at p \<noteq> TStart" using assms(4) by (auto simp: proc_inv_def)
  with assms(4-6) show "stopping L p" by (auto simp: stopping_def)
qed

text \<open>C18. A signal that arrives before the server thread has executed the assignment \<open>running_ = true\<close> of \<open>Server::run\<close> is
  lost: \<open>Server::stop\<close> finds the flag false and does nothing, the server thread then enters the event loop, and the main
  thread waits for it in \<open>join\<close>. From there no number of further signals, connections or client commands lets \<open>main\<close> return
  or the database shut down; only an exception that leaves the accept handler ends the loop.\<close>

theorem main_shutdown_may_hang:
  assumes "event_loop_laws L" and "main_begin L argv = Inr p0"
  shows "\<exists>evs p. Signal \<in> set evs \<and> schedule L evs p0 = Some p \<and>
    (\<forall>evs' q. schedule L evs' p = Some q \<and> Accept (Accepted None) \<notin> set evs' \<longrightarrow>
       main_at q = MJoin \<and> \<not> database_down q)"
proof -
  obtain p where p: "schedule L early_signal p0 = Some p" "hung L p"
    using early_signal_hangs [OF assms] by blast
  have "hung L q" if "schedule L evs' p = Some q" "Accept (Accepted None) \<notin> set evs'" for evs' q
  proof (rule hang.reach_inv [OF schedule_reach [OF that(1)] p(2)])
    show "list_all (\<lambda>e. e \<noteq> Accept (Accepted None)) evs'" using that(2) by (auto simp: list_all_iff)
  qed
  then have "\<forall>evs' q. schedule L evs' p = Some q \<and> Accept (Accepted None) \<notin> set evs' \<longrightarrow>
      main_at q = MJoin \<and> \<not> database_down q"
    by (auto simp: hung_def)
  with p(1) show ?thesis
    by (intro exI [of _ early_signal] exI [of _ p]) (simp del: schedule.simps)
qed

text \<open>The order of a shutdown: in every state that a run of the program reaches, once the main thread has left the
  join the server thread has ended and no handler can run, so the database is shut down after the last of them; and
  \<open>main\<close> has returned exactly when the database has been shut down, with \<open>EXIT_SUCCESS\<close>.\<close>

lemma shutdown_after_last_handler:
  assumes "event_loop_laws L" and "main_begin L argv = Inr p0" and "schedule L evs p0 = Some p"
  shows "(main_at p = MShutdown \<or> database_down p \<longrightarrow>
            thread_at p = TDone \<and> (\<forall>ec. accept_event L ec p = None) \<and> (\<forall>i io. session_event L i io p = None)) \<and>
         (\<forall>c. main_at p = MExited c \<longleftrightarrow> database_down p \<and> c = 0)"
proof -
  have "proc_inv L p" using assms by (rule run_inv)
  then show ?thesis
    by (auto simp: proc_inv_def shut_down_def accept_event_def session_event_def loop_active_def)
qed

text \<open>C25. A client that disconnects before its connection is handled stops the whole server: \<open>remote_endpoint\<close> throws, the
  exception leaves the event loop and the server thread, which clears \<open>g_running\<close>. In every state that a run without a
  signal reaches with the event loop running, one such connection has this effect: no connection is accepted and no
  session is served any more, and the process ends by itself within eight steps of its threads, as after a signal,
  with \<open>EXIT_SUCCESS\<close>.\<close>

theorem early_disconnect_ends_process:
  assumes "event_loop_laws L" and "main_begin L argv = Inr p0" and "schedule L evs p0 = Some p"
    and "Signal \<notin> set evs" and "thread_at p = TRun"
  shows "\<exists>p1. schedule L [Accept (Accepted None), ThreadTick] p = Some p1 \<and>
    (\<forall>evs' q. schedule L evs' p1 = Some q \<longrightarrow>
       (\<forall>ec. accept_event L ec q = None) \<and> (\<forall>i io. session_event L i io q = None) \<and>
       length (filter is_tick evs') \<le> 8 \<and> (main_at q = MExited 0 \<or> (\<exists>e. is_tick e \<and> proc_event L e q \<noteq> None)))"
proof -
  have inv: "proc_inv L p" using assms(1-3) by (rule run_inv)
  have "quiet p" using quiet_run [OF assms(1-4)] .
  with assms(5) inv have st: "waiting p" "running (server p)" "accept_pending (server p)" "loop_active L p"
    by (auto simp: quiet_def proc_inv_def loop_active_def)
  define p1 where "p1 = p\<lparr>server := (server p)\<lparr>accept_pending := False\<rparr>, thread_at := TDone, g_running := False\<rparr>"
  have run: "schedule L [Accept (Accepted None), ThreadTick] p = Some p1"
    using st by (simp add: accept_event_def accept_done_def thread_tick_def p1_def)
  have "proc_inv L p1"
    using proc.reach_inv [OF schedule_reach [OF run, of "\<lambda>_. True"] inv] by (simp add: list_all_iff)
  moreover have "stopping L p1"
    using st by (auto simp: stopping_def p1_def waiting_def)
  moreover have "thread_at q = TDone" if "schedule L evs' p1 = Some q" for evs' q
    using finished_stays [OF that] by (simp add: p1_def)
  ultimately show ?thesis
    using run stopping_completes [OF assms(1), of p1]
    by (intro exI [of _ p1])
       (auto simp: accept_event_def session_event_def loop_active_def simp del: schedule.simps)
qed


section \<open>Witnesses\<close>

text \<open>An event loop that keeps only whether it was stopped.\<close>

definition flag_loop :: "bool event_loop" where
  "flag_loop = \<lparr>io_new = False, io_stop = (\<lambda>_. True), io_stopped = (\<lambda>c. c), acceptor_opens = (\<lambda>_. True)\<rparr>"

definition started :: "bool process" where
  "started = \<lparr>g_running = True, main_at = MTest, thread_at = TStart,
     server = \<lparr>io_context = False, acceptor_port = 7432, running = False, accept_pending = True, srv_sessions = []\<rparr>,
     database_down = False\<rparr>"

lemma flag_loop_facts: "event_loop_laws flag_loop" "main_begin flag_loop [''datyredb''] = Inr started"
  by (simp_all add: event_loop_laws_def flag_loop_def main_begin_def port_argument_def Server_new_def do_accept_def
        ServerConfig_default_def started_def)

definition signalled :: "bool process" where
  "signalled = started\<lparr>server := (server started)\<lparr>running := True\<rparr>, thread_at := TRun, g_running := False\<rparr>"

lemma signalled_run: "schedule flag_loop [ThreadTick, Signal] started = Some signalled"
  by (simp add: tick_defs signal_handler_def signalled_def started_def)

lemma signalled_exits:
  "schedule flag_loop [MainTick, MainTick, MainTick, MainTick, ThreadTick, MainTick, MainTick] signalled =
     Some (signalled\<lparr>server := (server signalled)\<lparr>io_context := True, running := False\<rparr>, thread_at := TDone,
        main_at := MExited 0, database_down := True\<rparr>)"
  by (simp add: tick_defs signalled_def started_def flag_loop_def run_returns_def)

theorem main_shutdown_completes_witness:
  "length (filter is_tick [MainTick, MainTick, MainTick, MainTick, ThreadTick, MainTick, MainTick]) \<le> 8 \<and>
   (\<exists>e. is_tick e \<and> proc_event flag_loop e signalled \<noteq> None)"
  using main_shutdown_completes [OF flag_loop_facts signalled_run _ _ _ signalled_exits]
    main_shutdown_completes [OF flag_loop_facts signalled_run, of "[]" signalled]
  by (auto simp: signalled_def started_def)

theorem main_shutdown_may_hang_witness:
  "\<exists>evs p. Signal \<in> set evs \<and> schedule flag_loop evs started = Some p \<and>
    (\<forall>evs' q. schedule flag_loop evs' p = Some q \<and> Accept (Accepted None) \<notin> set evs' \<longrightarrow>
       main_at q = MJoin \<and> \<not> database_down q)"
  by (rule main_shutdown_may_hang [OF flag_loop_facts])

lemma exit_run:
  "schedule flag_loop [ThreadTick, Signal, MainTick, MainTick, MainTick, MainTick, ThreadTick, MainTick, MainTick] started =
     Some (signalled\<lparr>server := (server signalled)\<lparr>io_context := True, running := False\<rparr>, thread_at := TDone,
        main_at := MExited 0, database_down := True\<rparr>)"
  using schedule_append [of flag_loop "[ThreadTick, Signal]"
    "[MainTick, MainTick, MainTick, MainTick, ThreadTick, MainTick, MainTick]" started]
  by (simp only: signalled_run signalled_exits append.simps Option.bind.simps)

lemma shutdown_after_last_handler_example:
  "accept_event flag_loop AcceptError (signalled\<lparr>server := (server signalled)\<lparr>io_context := True, running := False\<rparr>,
     thread_at := TDone, main_at := MExited 0, database_down := True\<rparr>) = None"
  using shutdown_after_last_handler [OF flag_loop_facts exit_run] by simp

definition serving :: "bool process" where
  "serving = started\<lparr>server := (server started)\<lparr>running := True, srv_sessions := [start_session]\<rparr>, thread_at := TRun\<rparr>"

lemma serving_run: "schedule flag_loop [ThreadTick, Accept (Accepted (Some ''127.0.0.1''))] started = Some serving"
  by (simp add: tick_defs accept_event_def accept_done_def do_accept_def loop_active_def flag_loop_def serving_def started_def)

theorem early_disconnect_ends_process_witness:
  "\<exists>p1. schedule flag_loop [Accept (Accepted None), ThreadTick] serving = Some p1 \<and>
    (\<forall>evs' q. schedule flag_loop evs' p1 = Some q \<longrightarrow>
       (\<forall>ec. accept_event flag_loop ec q = None) \<and> (\<forall>i io. session_event flag_loop i io q = None) \<and>
       length (filter is_tick evs') \<le> 8 \<and>
       (main_at q = MExited 0 \<or> (\<exists>e. is_tick e \<and> proc_event flag_loop e q \<noteq> None)))"
  by (rule early_disconnect_ends_process [OF flag_loop_facts serving_run]) (simp_all add: serving_def)

end
