(* ===== verification/Front_End_Props.thy ===== *)
theory Front_End_Props
  imports Front_End Datyre_Prelude
begin

text \<open>
  The properties of the client layers: what a session sends and in which order, the text of query results, and
  the tables of the database object.
\<close>

section \<open>Line ends\<close>

lemma crlf_simps [simp]:
  "crlf [] = []"
  "crlf (c # s) = (if c = CHR 0x0A then CHR 0x0D # CHR 0x0A # crlf s else c # crlf s)"
  "crlf (s @ t) = crlf s @ crlf t"
  by (simp_all add: crlf_def)

text \<open>Carriage returns and line feeds come in pairs.\<close>

fun crlf_pairs :: "string \<Rightarrow> bool" where
  "crlf_pairs [] \<longleftrightarrow> True"
| "crlf_pairs (c # s) \<longleftrightarrow>
     (if c = CHR 0x0D then s \<noteq> [] \<and> hd s = CHR 0x0A \<and> crlf_pairs (tl s) else c \<noteq> CHR 0x0A \<and> crlf_pairs s)"

lemma crlf_pairs_crlf: "CHR 0x0D \<notin> set s \<Longrightarrow> crlf_pairs (crlf s)"
  by (induction s) auto

lemma filter_crlf: "CHR 0x0D \<notin> set s \<Longrightarrow> filter (\<lambda>c. c \<noteq> CHR 0x0D) (crlf s) = s"
  by (induction s) auto

lemma normalize_pairs: "crlf_pairs (normalize msg)"
  by (simp add: normalize_def crlf_pairs_crlf)

lemma normalize_content: "filter (\<lambda>c. c \<noteq> CHR 0x0D) (normalize msg) = filter (\<lambda>c. c \<noteq> CHR 0x0D) msg"
  by (simp add: normalize_def filter_crlf)

lemma normalize_idem: "normalize (normalize msg) = normalize msg"
  unfolding normalize_def [of "normalize msg"] normalize_content by (simp add: normalize_def)

section \<open>Runs of a session\<close>

text \<open>
  A run carries the messages that have been handed to \<open>deliver\<close>. The reply to a line: one message, or none for the
  two commands that close the session.
\<close>

definition reply_to :: "string \<Rightarrow> string list" where
  "reply_to ln =
     (let cmd = trim ln; u = map toupper cmd
      in if cmd = [] then [''db > '']
         else if u = ''PING'' then [''PONG'' @ [CHR 0x0A] @ ''db > '']
         else if u = ''EXIT'' \<or> u = ''QUIT'' then []
         else [''Unrecognized command: '' @ cmd @ [CHR 0x0A] @ ''db > ''])"

lemma read_done_reply:
  "read_done True ln s =
     (if reply_to ln = [] then s\<lparr>goodbye_active := True\<rparr> else deliver (hd (reply_to ln)) s)"
  by (simp add: read_done_def reply_to_def process_command_def Let_def)

inductive session_step :: "Session \<times> string list \<Rightarrow> Session \<times> string list \<Rightarrow> bool" where
  session_line: "session_step (s, log) (read_done True ln s, log @ reply_to ln)"
| session_written: "write_active s \<Longrightarrow> session_step (s, log) (write_done True s, log)"
| session_goodbye: "goodbye_active s \<Longrightarrow> session_step (s, log) (goodbye_done s, log)"

definition session_inv :: "Session \<times> string list \<Rightarrow> bool" where
  "session_inv = (\<lambda>(s, log). (write_active s \<longleftrightarrow> write_msgs s \<noteq> []) \<and>
     socket_bytes s @ concat (write_msgs s) = concat (map normalize log) \<and>
     (\<forall>m \<in> set (write_msgs s). crlf_pairs m))"

lemma deliver_inv: "session_inv (s, log) \<Longrightarrow> session_inv (deliver msg s, log @ [msg])"
  by (auto simp: session_inv_def deliver_def do_write_def Let_def normalize_pairs)

lemma reply_to_length: "reply_to ln = [] \<or> reply_to ln = [hd (reply_to ln)]"
  by (simp add: reply_to_def Let_def)

lemma session_step_inv:
  assumes "session_step x y" and "session_inv x"
  shows "session_inv y"
  using assms(1)
proof cases
  case (session_line s log ln)
  then show ?thesis
  proof (cases "reply_to ln = []")
    case True
    then show ?thesis using assms(2) session_line by (simp add: read_done_reply session_inv_def)
  next
    case False
    then obtain m where m: "reply_to ln = [m]" using reply_to_length by metis
    then show ?thesis using deliver_inv [of s log m] assms(2) session_line by (simp add: read_done_reply)
  qed
next
  case (session_written s log)
  then obtain m ms where w: "write_msgs s = m # ms" using assms(2) by (cases "write_msgs s") (auto simp: session_inv_def)
  show ?thesis using assms(2) unfolding session_written
    by (auto simp: session_inv_def write_done_def do_write_def w Let_def)
qed (use assms(2) in \<open>simp add: session_inv_def goodbye_done_def\<close>)

interpretation session: transition_invariant session_step session_inv
  by unfold_locales (rule session_step_inv)

section \<open>Query results as text\<close>

lemma format_rows_short: "count + length rs \<le> 11 \<Longrightarrow> format_rows n count rs = concat (map (\<lambda>r. cells (row_values r) @ [CHR 0x0A]) rs)"
  by (induction rs arbitrary: count) auto

lemma format_rows_long:
  assumes "count \<le> 11" and "11 < count + length rs"
  shows "format_rows n count rs =
    concat (map (\<lambda>r. cells (row_values r) @ [CHR 0x0A]) (take (11 - count) rs)) @ ''... and '' @ to_string (n - 10) @ '' more''"
  using assms
proof (induction rs arbitrary: count)
  case (Cons r rs)
  show ?case
  proof (cases "count = 11")
    case True
    then show ?thesis by simp
  next
    case False
    then have "count + 1 \<le> 11" "11 < (count + 1) + length rs" using Cons.prems by simp_all
    moreover have "11 - count = Suc (11 - (count + 1))" using False Cons.prems(1) by simp
    ultimately show ?thesis using Cons.IH [of "count + 1"] Cons.prems(1) False by simp
  qed
qed simp

section \<open>Properties\<close>



text \<open>The Telegram text of a query result shows the first eleven rows, not ten: up to eleven rows are shown in
  full, and with more than eleven the note says \<open>n - 10\<close> more although only \<open>n - 11\<close> rows are left out.\<close>

lemma telegram_rows_shown:
  "format_query_result (FromData cols rows) =
     cells cols @ [CHR 0x0A] @ replicate 20 (CHR ''-'') @ [CHR 0x0A] @
     concat (map (\<lambda>r. cells r @ [CHR 0x0A]) (take 11 rows)) @
     (if length rows \<le> 11 then [] else ''... and '' @ to_string (length rows - 10) @ '' more'')"
proof -
  let ?rs = "map (\<lambda>v. \<lparr>row_values = v\<rparr>) rows"
  have "format_rows (length rows) 0 ?rs = concat (map (\<lambda>r. cells r @ [CHR 0x0A]) (take 11 rows)) @
     (if length rows \<le> 11 then [] else ''... and '' @ to_string (length rows - 10) @ '' more'')"
    using format_rows_short [of 0 ?rs] format_rows_long [of 0 ?rs] by (simp add: o_def take_map)
  then show ?thesis
    by (simp add: format_query_result_def FromData_def QueryResult_of_data_def qr_ok_def status_ok_def Status_OK_def row_count_def)
qed

end
