(* ===== verification/Server_Sessions.thy ===== *)
theory Server_Sessions
  imports Net_Server_Props Front_End_Props
begin

text \<open>
  The sessions of the running server. The handlers of all clients run in the one event loop, interleaved with each other
  and with the two threads of the process; what each client is sent depends on its own lines only.
\<close>

section \<open>One session\<close>

text \<open>What was sent and what is queued, against the messages handed to \<open>deliver\<close>; unlike \<open>session_inv\<close> this survives failed writes.\<close>

definition session_out :: "Session \<Rightarrow> string" where
  "session_out s = socket_bytes s @ concat (write_msgs s)"

definition session_wf :: "Session \<Rightarrow> bool" where
  "session_wf s \<longleftrightarrow> (write_active s \<longrightarrow> write_msgs s \<noteq> [])"

fun io_lines :: "session_io \<Rightarrow> string list" where
  "io_lines (SessionRead ok ln) = (if ok then [ln] else [])"
| "io_lines io = []"

lemma deliver_out: "session_out (deliver msg s) = session_out s @ normalize msg"
  by (simp add: session_out_def deliver_def do_write_def Let_def)

lemma deliver_wf: "session_wf (deliver msg s)"
  by (simp add: session_wf_def deliver_def do_write_def Let_def)

lemma read_done_out:
  assumes "session_wf s"
  shows "session_wf (read_done ok ln s)"
    and "session_out (read_done ok ln s) = session_out s @ concat (map normalize (if ok then reply_to ln else []))"
proof -
  have "session_wf (read_done ok ln s) \<and>
    session_out (read_done ok ln s) = session_out s @ concat (map normalize (if ok then reply_to ln else []))"
  proof (cases "ok \<and> reply_to ln \<noteq> []")
    case True
    then obtain m where m: "reply_to ln = [m]" using reply_to_length [of ln] by metis
    with True have "read_done ok ln s = deliver m s" by (simp add: read_done_reply)
    with m True show ?thesis by (simp add: deliver_out deliver_wf)
  next
    case False
    then have "read_done ok ln s = s \<or> read_done ok ln s = s\<lparr>goodbye_active := True\<rparr>"
      using read_done_reply [of ln s] by (cases ok) (auto simp: read_done_def [of False])
    with False assms show ?thesis by (auto simp: session_out_def session_wf_def)
  qed
  then show "session_wf (read_done ok ln s)"
    and "session_out (read_done ok ln s) = session_out s @ concat (map normalize (if ok then reply_to ln else []))"
    by simp_all
qed

lemma write_done_out: "session_wf s \<Longrightarrow> write_active s \<Longrightarrow> session_wf (write_done ok s) \<and> session_out (write_done ok s) = session_out s"
  by (cases "write_msgs s") (auto simp: write_done_def do_write_def session_out_def session_wf_def Let_def)

lemma session_done_out:
  assumes "session_done io c = Some d" and "session_wf (ss_session c)"
  shows "session_wf (ss_session d) \<and>
    session_out (ss_session d) = session_out (ss_session c) @ concat (map normalize (concat (map reply_to (io_lines io))))"
proof (cases io)
  case (SessionRead ok ln)
  with assms read_done_out [of "ss_session c" ok ln] show ?thesis by (auto split: if_splits)
next
  case (SessionWritten ok)
  with assms write_done_out [of "ss_session c" ok] show ?thesis by (auto split: if_splits)
next
  case SessionGoodbye
  with assms show ?thesis by (auto simp: goodbye_done_def session_out_def session_wf_def split: if_splits)
qed

section \<open>A failed write\<close>

text \<open>
  After a failed write the handler neither removes the message nor starts another write, and \<open>deliver\<close> starts one only
  when the queue is empty: the session goes on reading and answering, but nothing is sent any more.
\<close>

definition session_stuck :: "Session \<Rightarrow> bool" where
  "session_stuck s \<longleftrightarrow> write_msgs s \<noteq> [] \<and> \<not> write_active s"

fun session_run :: "session_io list \<Rightarrow> ServerSession \<Rightarrow> ServerSession option" where
  "session_run [] c = Some c"
| "session_run (io # ios) c = (case session_done io c of None \<Rightarrow> None | Some d \<Rightarrow> session_run ios d)"

lemma session_stuck_done:
  assumes "session_done io c = Some d" and "session_stuck (ss_session c)"
  shows "session_stuck (ss_session d) \<and> socket_bytes (ss_session d) = socket_bytes (ss_session c)"
proof (cases io)
  case (SessionRead ok ln)
  have "session_stuck (deliver m s) \<and> socket_bytes (deliver m s) = socket_bytes s" if "session_stuck s" for m s
    using that by (simp add: session_stuck_def deliver_def Let_def)
  then have "session_stuck (read_done ok ln s) \<and> socket_bytes (read_done ok ln s) = socket_bytes s" if "session_stuck s" for s
    using that by (cases ok) (auto simp: read_done_reply read_done_def [of False] session_stuck_def)
  with SessionRead assms show ?thesis by (auto split: if_splits)
next
  case (SessionWritten ok)
  with assms show ?thesis by (auto simp: session_stuck_def split: if_splits)
next
  case SessionGoodbye
  with assms show ?thesis by (auto simp: goodbye_done_def session_stuck_def split: if_splits)
qed

lemma session_stalls_after_failed_write:
  assumes "session_wf (ss_session c)" and "session_run (SessionWritten False # ios) c = Some d"
  shows "session_stuck (ss_session d) \<and> socket_bytes (ss_session d) = socket_bytes (ss_session c)"
proof -
  have run: "session_stuck (ss_session d) \<and> socket_bytes (ss_session d) = socket_bytes (ss_session c1)"
    if "session_run ios c1 = Some d" "session_stuck (ss_session c1)" for c1
    using that
  proof (induction ios arbitrary: c1)
    case (Cons io ios)
    then obtain c2 where "session_done io c1 = Some c2" "session_run ios c2 = Some d" by (auto split: option.splits)
    with Cons.IH [of c2] Cons.prems(2) session_stuck_done [of io c1 c2] show ?case by auto
  qed simp
  obtain c1 where c1: "session_done (SessionWritten False) c = Some c1" "session_run ios c1 = Some d"
    using assms(2) by (auto split: option.splits)
  then have "session_stuck (ss_session c1)" "socket_bytes (ss_session c1) = socket_bytes (ss_session c)"
    using assms(1) by (auto simp: session_stuck_def session_wf_def write_done_def split: if_splits)
  with run [OF c1(2)] show ?thesis by simp
qed

section \<open>All sessions\<close>

text \<open>The lines that client \<open>i\<close> has sent in a run.\<close>

fun event_lines :: "nat \<Rightarrow> event \<Rightarrow> string list" where
  "event_lines i (SessionIO j io) = (if i = j then io_lines io else [])"
| "event_lines i e = []"

definition client_lines :: "nat \<Rightarrow> event list \<Rightarrow> string list" where
  "client_lines i evs = concat (map (event_lines i) evs)"

definition sent_to :: "string list \<Rightarrow> string" where
  "sent_to lns = concat (map normalize (welcome_text # concat (map reply_to lns)))"

definition sessions_inv :: "(nat \<Rightarrow> string list) \<Rightarrow> ServerSession list \<Rightarrow> bool" where
  "sessions_inv lns ss \<longleftrightarrow>
     (\<forall>i < length ss. session_wf (ss_session (ss ! i)) \<and> session_out (ss_session (ss ! i)) = sent_to (lns i)) \<and> (\<forall>i \<ge> length ss. lns i = [])"

lemma sessions_inv_same: "sessions_inv lns ss \<Longrightarrow> \<forall>i. lns' i = lns i \<Longrightarrow> sessions_inv lns' ss"
  by (simp add: sessions_inv_def)

lemma session_start_out: "session_wf (ss_session start_session)" "session_out (ss_session start_session) = sent_to []"
  by (simp_all add: start_session_def session_start_def deliver_wf deliver_out)
     (simp add: session_out_def Session_new_def sent_to_def)

lemma sessions_inv_accept:
  assumes "sessions_inv lns ss"
  shows "sessions_inv lns (ss @ [start_session])"
  using assms session_start_out by (auto simp: sessions_inv_def nth_append less_Suc_eq)

lemma sessions_inv_io:
  assumes "sessions_inv lns ss" and "j < length ss" and "session_done io (ss ! j) = Some t"
  shows "sessions_inv (\<lambda>i. lns i @ event_lines i (SessionIO j io)) (ss[j := t])"
proof -
  have "session_wf (ss_session t)" "session_out (ss_session t) = sent_to (lns j @ io_lines io)"
    using session_done_out [OF assms(3)] assms(1,2) by (auto simp: sessions_inv_def sent_to_def)
  with assms(1,2) show ?thesis by (auto simp: sessions_inv_def nth_list_update)
qed

lemma proc_event_sessions:
  assumes "proc_event L e p = Some q" and "sessions_inv lns (srv_sessions (server p))"
  shows "sessions_inv (\<lambda>i. lns i @ event_lines i e) (srv_sessions (server q))"
proof (cases e)
  case MainTick
  with assms show ?thesis
    by (cases "main_at p") (auto simp: tick_defs split: if_splits)
next
  case ThreadTick
  with assms show ?thesis
    by (cases "thread_at p") (auto simp: tick_defs split: if_splits)
next
  case (Accept ec)
  with assms show ?thesis
    by (auto simp: accept_event_def accept_done_def do_accept_def sessions_inv_accept Let_def
             split: if_splits accept_outcome.splits option.splits)
next
  case (SessionIO j io)
  with assms(1) obtain t where t: "j < length (srv_sessions (server p))" "session_done io (srv_sessions (server p) ! j) = Some t"
    "srv_sessions (server q) = (srv_sessions (server p))[j := t]"
    by (auto simp: session_event_def split: if_splits)
  show ?thesis using sessions_inv_io [OF assms(2) t(1,2)] unfolding t(3) SessionIO .
qed (use assms in auto)

lemma schedule_sessions:
  assumes "schedule L evs p = Some q" and "sessions_inv lns (srv_sessions (server p))"
  shows "sessions_inv (\<lambda>i. lns i @ client_lines i evs) (srv_sessions (server q))"
  using assms
proof (induction evs arbitrary: p lns)
  case (Cons e evs)
  then obtain p1 where p1: "proc_event L e p = Some p1" "schedule L evs p1 = Some q" by (auto split: option.splits)
  from Cons.IH [OF p1(2) proc_event_sessions [OF p1(1) Cons.prems(2)]] show ?case by (simp add: client_lines_def)
qed (simp add: client_lines_def)

section \<open>Properties\<close>


definition pinged :: "bool process" where
  "pinged = serving\<lparr>server := (server serving)\<lparr>srv_sessions := [\<lparr>ss_session = read_done True ''ping'' (session_start Session_new), ss_reading = True\<rparr>]\<rparr>\<rparr>"

lemma session_new_open: "socket_open (session_start Session_new)"
  by (simp add: session_start_def deliver_def do_write_def Session_new_def)

lemma pinged_run:
  "schedule flag_loop [ThreadTick, Accept (Accepted (Some ''127.0.0.1'')), SessionIO 0 (SessionRead True ''ping'')] started =
     Some pinged"
  by (simp add: tick_defs accept_event_def accept_done_def do_accept_def session_event_def loop_active_def flag_loop_def
      pinged_def serving_def started_def start_session_def session_new_open)


end
