(* ===== verification/Json_Api.thy ===== *)
theory Json_Api
  imports Front_End
begin

text \<open>
  What the sources call of \<open>nlohmann::json\<close>, as a record of functions over an unknown type of documents, and the command
  that answers with such a document (\<open>src/network/commands/create_command.cpp\<close>). \<open>None\<close> is an exception of the library.
\<close>

record 'j json_api =
  json_parse :: "string \<Rightarrow> 'j option"
  json_index :: "'j \<Rightarrow> string \<Rightarrow> 'j option"
  json_contains :: "'j \<Rightarrow> string \<Rightarrow> bool"
  json_is_array :: "'j \<Rightarrow> bool"
  json_elements :: "'j \<Rightarrow> 'j list"
  json_bool :: "'j \<Rightarrow> bool option"
  json_int :: "'j \<Rightarrow> int option"
  json_str :: "'j \<Rightarrow> string option"
  json_value :: "'j \<Rightarrow> string \<Rightarrow> string \<Rightarrow> string option"
  json_null :: 'j
  json_single :: "string \<Rightarrow> string \<Rightarrow> 'j"
  json_dump_message :: "int \<Rightarrow> string \<Rightarrow> string option"

section \<open>Create-table command\<close>

definition CreateTableCommand_execute :: "'j json_api \<Rightarrow> Database \<Rightarrow> 'j \<Rightarrow> ((Status \<times> 'j) \<times> Database) option" where
  "CreateTableCommand_execute J db args =
     (if \<not> json_contains J args ''name'' then Some ((InvalidArgument ''Table name is required'', json_null J), db)
      else case Option.bind (json_index J args ''name'') (json_str J) of
             None \<Rightarrow> None
           | Some table_name \<Rightarrow> Some ((Status_OK, json_single J ''message'' ''Table created successfully''), db))"

text \<open>The command reports success for every named table and leaves the database as it is.\<close>

lemma create_command_creates_nothing:
  assumes "CreateTableCommand_execute J db args = Some ((st, reply), db')"
  shows "db' = db" and "status_ok st \<longleftrightarrow> json_contains J args ''name''"
  using assms
  by (auto simp: CreateTableCommand_execute_def status_ok_def Status_OK_def InvalidArgument_def
           split: if_splits option.splits)

end
