(* ===== verification/Background_Services.thy ===== *)
theory Background_Services
  imports Front_End "HOL-Library.While_Combinator"
begin

text \<open>
  Components that own a thread: the interface of a service that starts a thread, stops and joins it, with the two ways
  in which such code goes wrong (assigning to a \<open>std::thread\<close> that is still joinable, which calls \<open>std::terminate\<close>,
  and a join that never returns), and the HTTP server (\<open>src/network/http_server.cpp\<close>) as its first provider.
\<close>

section \<open>Threads\<close>

text \<open>No thread, or one that has not begun, is at the test of its loop, in the body of the loop, or has returned.\<close>

datatype thread_state = NoThread | Starting | AtLoop | InBody | Finished

definition joinable :: "thread_state \<Rightarrow> bool" where
  "joinable t \<longleftrightarrow> t \<noteq> NoThread"

text \<open>\<open>join\<close>: the thread goes on until it has returned; \<open>None\<close> when it never does.\<close>

definition join_thread :: "('s \<Rightarrow> thread_state) \<Rightarrow> ('s \<Rightarrow> 's) \<Rightarrow> 's \<Rightarrow> 's option" where
  "join_thread thr tick s = while_option (\<lambda>s. thr s \<noteq> Finished) tick s"

datatype service_op = Start | Stop | Tick

text \<open>A sequence of calls of the owner, interleaved with the steps of the thread.\<close>

fun run_ops :: "('s \<Rightarrow> 's option) \<Rightarrow> ('s \<Rightarrow> 's option) \<Rightarrow> ('s \<Rightarrow> 's) \<Rightarrow> service_op list \<Rightarrow> 's \<Rightarrow> 's option" where
  "run_ops start stop tick [] s = Some s"
| "run_ops start stop tick (Start # ops) s = Option.bind (start s) (run_ops start stop tick ops)"
| "run_ops start stop tick (Stop # ops) s = Option.bind (stop s) (run_ops start stop tick ops)"
| "run_ops start stop tick (Tick # ops) s = run_ops start stop tick ops (tick s)"

text \<open>A thread that leaves its loop when the flag is cleared, and passes through the loop otherwise.\<close>

locale looping_thread =
  fixes flag :: "'s \<Rightarrow> bool"
    and thr :: "'s \<Rightarrow> thread_state"
    and tick :: "'s \<Rightarrow> 's"
  assumes tick_flag: "flag (tick s) = flag s"
    and tick_thr: "thr (tick s) \<in> (case thr s of NoThread \<Rightarrow> {NoThread} | Starting \<Rightarrow> {AtLoop, Finished}
      | AtLoop \<Rightarrow> if flag s then {InBody} else {Finished} | InBody \<Rightarrow> {AtLoop} | Finished \<Rightarrow> {Finished})"
begin

lemma tick_joinable: "joinable (thr (tick s)) = joinable (thr s)"
  using tick_thr [of s] by (auto simp: joinable_def split: thread_state.splits if_splits)

text \<open>With the flag cleared the thread returns within three steps, so a join returns.\<close>

lemma join_returns:
  assumes "\<not> flag s" and "joinable (thr s)"
  shows "\<exists>t. join_thread thr tick s = Some t \<and> \<not> flag t"
proof -
  have from_end: "join_thread thr tick s = Some s" if "thr s = Finished" for s
    using that by (simp add: join_thread_def while_option_unfold [of _ tick s])
  have one: "join_thread thr tick s = join_thread thr tick (tick s)" if "thr s \<noteq> Finished" for s
    using that by (simp add: join_thread_def while_option_unfold [of _ tick s])
  have at_loop: "\<exists>t. join_thread thr tick s = Some t \<and> \<not> flag t" if "thr s = AtLoop" "\<not> flag s" for s
    using that one [of s] from_end [of "tick s"] tick_thr [of s] tick_flag [of s] by auto
  have in_body: "\<exists>t. join_thread thr tick s = Some t \<and> \<not> flag t" if "thr s = InBody" "\<not> flag s" for s
    using that one [of s] at_loop [of "tick s"] tick_thr [of s] tick_flag [of s] by auto
  have starting: "\<exists>t. join_thread thr tick s = Some t \<and> \<not> flag t" if "thr s = Starting" "\<not> flag s" for s
    using that one [of s] at_loop [of "tick s"] from_end [of "tick s"] tick_thr [of s] tick_flag [of s] by auto
  show ?thesis
    using assms from_end [of s] at_loop [of s] in_body [of s] starting [of s]
    by (cases "thr s") (auto simp: joinable_def)
qed

end

text \<open>A service whose flag says whether it owns a thread, as long as its owner uses only \<open>start\<close> and \<open>stop\<close>.\<close>

locale background_service = looping_thread +
  fixes start :: "'a \<Rightarrow> 'a option"
    and stop :: "'a \<Rightarrow> 'a option"
  assumes start_again: "flag s \<Longrightarrow> start s = Some s"
    and start_idle: "\<not> flag s \<Longrightarrow> \<not> joinable (thr s) \<Longrightarrow> \<exists>t. start s = Some t \<and> flag t \<and> joinable (thr t)"
    and stop_idle: "\<not> flag s \<Longrightarrow> \<not> joinable (thr s) \<Longrightarrow> stop s = Some s"
    and stop_running: "flag s \<Longrightarrow> joinable (thr s) \<Longrightarrow> \<exists>t. stop s = Some t \<and> \<not> flag t \<and> \<not> joinable (thr t)"
begin

lemma stop_always:
  assumes "flag s = joinable (thr s)"
  shows "\<exists>t. stop s = Some t \<and> \<not> flag t \<and> \<not> joinable (thr t)"
  using assms stop_idle [of s] stop_running [of s] by (cases "flag s") auto

lemma start_always:
  assumes "flag s = joinable (thr s)"
  shows "\<exists>t. start s = Some t \<and> flag t \<and> joinable (thr t)"
  using assms start_again [of s] start_idle [of s] by (cases "flag s") auto

lemma run_ops_owned:
  assumes "flag s = joinable (thr s)"
  shows "\<exists>t. run_ops start stop tick ops s = Some t \<and> flag t = joinable (thr t)"
  using assms
proof (induction ops arbitrary: s)
  case (Cons op ops)
  show ?case
  proof (cases op)
    case Start
    then show ?thesis using start_always [OF Cons.prems] Cons.IH by fastforce
  next
    case Stop
    then show ?thesis using stop_always [OF Cons.prems] Cons.IH by fastforce
  next
    case Tick
    then show ?thesis using Cons.prems Cons.IH [of "tick s"] by (simp add: tick_joinable tick_flag)
  qed
qed simp

lemma run_ops_then_destroy:
  assumes "flag s = joinable (thr s)"
  shows "\<exists>t u. run_ops start stop tick ops s = Some t \<and> flag t = joinable (thr t) \<and>
    stop t = Some u \<and> \<not> flag u \<and> \<not> joinable (thr u)"
  using run_ops_owned [OF assms, of ops] stop_always by blast

end

section \<open>HTTP server\<close>

record HttpServer =
  http_port :: int
  is_running :: bool
  server_thread :: thread_state

definition HttpServer_new :: "int \<Rightarrow> HttpServer" where
  "HttpServer_new port = \<lparr>http_port = port, is_running = False, server_thread = NoThread\<rparr>"

text \<open>The assignment of the new thread is \<open>std::terminate\<close>, \<open>None\<close>, when the old one is joinable.\<close>

definition http_start :: "HttpServer \<Rightarrow> HttpServer option" where
  "http_start s =
     (if is_running s then Some s
      else let s1 = s\<lparr>is_running := True\<rparr>
           in if joinable (server_thread s1) then None else Some (s1\<lparr>server_thread := Starting\<rparr>))"

text \<open>One step of \<open>run_event_loop\<close>.\<close>

definition run_event_loop :: "HttpServer \<Rightarrow> HttpServer" where
  "run_event_loop s =
     (case server_thread s of
        NoThread \<Rightarrow> s
      | Starting \<Rightarrow> s\<lparr>server_thread := AtLoop\<rparr>
      | AtLoop \<Rightarrow> s\<lparr>server_thread := if is_running s then InBody else Finished\<rparr>
      | InBody \<Rightarrow> s\<lparr>server_thread := AtLoop\<rparr>
      | Finished \<Rightarrow> s)"

definition http_stop :: "HttpServer \<Rightarrow> HttpServer option" where
  "http_stop s =
     (if \<not> is_running s then Some s
      else let s1 = s\<lparr>is_running := False\<rparr>
           in if joinable (server_thread s1)
              then map_option (\<lambda>t. t\<lparr>server_thread := NoThread\<rparr>) (join_thread server_thread run_event_loop s1)
              else Some s1)"

text \<open>The destructor.\<close>

definition HttpServer_destroy :: "HttpServer \<Rightarrow> HttpServer option" where
  "HttpServer_destroy s = http_stop s"

interpretation http_thread: looping_thread is_running server_thread run_event_loop
  by unfold_locales (auto simp: run_event_loop_def split: thread_state.splits)

interpretation http: background_service is_running server_thread run_event_loop http_start http_stop
proof unfold_locales
  fix s :: HttpServer
  assume "is_running s" "joinable (server_thread s)"
  then show "\<exists>t. http_stop s = Some t \<and> \<not> is_running t \<and> \<not> joinable (server_thread t)"
    using http_thread.join_returns [of "s\<lparr>is_running := False\<rparr>"] by (auto simp: http_stop_def joinable_def)
qed (auto simp: http_start_def http_stop_def joinable_def)

end
