(* ===== verification/Telegram_Poll.thy ===== *)
theory Telegram_Poll
  imports Json_Api Background_Services
begin

text \<open>
  The Telegram bot (\<open>src/network/telegram_bot.cpp\<close>): its thread, the polling loop over \<open>getUpdates\<close>, and the sending of
  replies. \<open>libcurl\<close> and the Bot API behind it are an environment that answers the n-th request for a URL; documents are
  those of the JSON interface. What the bot sends is recorded as the sequence of its POST requests.
\<close>

section \<open>Environment\<close>

text \<open>A transfer that succeeds delivers the body of the response in pieces.\<close>

datatype curl_result = CurlError | CurlOk "string list"

record telegram_env =
  curl_available :: bool
  curl_get :: "nat \<Rightarrow> string \<Rightarrow> curl_result"

text \<open>The callback, with the buffer it appends to and the number of bytes it reports as taken.\<close>

definition WriteCallback :: "string \<Rightarrow> string \<Rightarrow> string \<times> nat" where
  "WriteCallback contents userp = (userp @ contents, length contents)"

definition read_buffer :: "string list \<Rightarrow> string" where
  "read_buffer chunks = foldl (\<lambda>buf chunk. fst (WriteCallback chunk buf)) [] chunks"

text \<open>\<open>std::to_string(long long)\<close>\<close>

definition int_to_string :: "int \<Rightarrow> string" where
  "int_to_string i = (if i < 0 then CHR ''-'' # to_string (nat (- i)) else to_string (nat i))"

section \<open>State\<close>

record TelegramBot =
  bot_token :: string
  bot_has_db :: bool
  bot_running :: bool
  poll_thread :: thread_state
  last_update_id :: int
  bot_requests :: nat
  bot_outbox :: "(string \<times> string) list"

definition TelegramBot_new :: "string \<Rightarrow> bool \<Rightarrow> TelegramBot" where
  "TelegramBot_new tok has_db =
     \<lparr>bot_token = tok, bot_has_db = has_db, bot_running = False, poll_thread = NoThread, last_update_id = 0,
      bot_requests = 0, bot_outbox = []\<rparr>"

section \<open>Sending\<close>

definition send_url :: "string \<Rightarrow> string" where
  "send_url tok = ''https://api.telegram.org/bot'' @ tok @ ''/sendMessage''"

text \<open>
  \<open>send_message\<close> for a chat and a text that \<open>bot_send\<close> has already cut to the limit; \<open>None\<close> is the exception of \<open>dump\<close>,
  which rejects a text that is not valid UTF-8.
\<close>

definition send_message :: "'j json_api \<Rightarrow> telegram_env \<Rightarrow> int \<times> string \<Rightarrow> TelegramBot \<Rightarrow> TelegramBot option" where
  "send_message J E msg b =
     (if curl_available E
      then case json_dump_message J (fst msg) (snd msg) of
             None \<Rightarrow> None
           | Some post_data \<Rightarrow> Some (b\<lparr>bot_outbox := bot_outbox b @ [(send_url (bot_token b), post_data)]\<rparr>)
      else Some b)"

section \<open>Polling\<close>

definition poll_url :: "string \<Rightarrow> int \<Rightarrow> string" where
  "poll_url tok off = ''https://api.telegram.org/bot'' @ tok @ ''/getUpdates?timeout=30&offset='' @ int_to_string off"

definition update_id_of :: "'j json_api \<Rightarrow> 'j \<Rightarrow> int option" where
  "update_id_of J u = Option.bind (json_index J u ''update_id'') (json_int J)"

definition chat_id_of :: "'j json_api \<Rightarrow> 'j \<Rightarrow> int option" where
  "chat_id_of J u =
     Option.bind (json_index J u ''message'') (\<lambda>m.
     Option.bind (json_index J m ''chat'') (\<lambda>c.
     Option.bind (json_index J c ''id'') (json_int J)))"

definition text_of :: "'j json_api \<Rightarrow> 'j \<Rightarrow> string option" where
  "text_of J u = Option.bind (json_index J u ''message'') (\<lambda>m. json_value J m ''text'' [])"

text \<open>
  The body of the loop over the updates: the bot as it is when the body ends, and whether it ended without an exception.
\<close>

definition take_update :: "'j json_api \<Rightarrow> telegram_env \<Rightarrow> 'j \<Rightarrow> TelegramBot \<Rightarrow> TelegramBot \<times> bool" where
  "take_update J E u b =
     (case update_id_of J u of
        None \<Rightarrow> (b, False)
      | Some i \<Rightarrow>
          let b1 = b\<lparr>last_update_id := i\<rparr>
          in if \<not> json_contains J u ''message'' then (b1, True)
             else case chat_id_of J u of
                    None \<Rightarrow> (b1, False)
                  | Some chat_id \<Rightarrow>
                      (case text_of J u of
                         None \<Rightarrow> (b1, False)
                       | Some txt \<Rightarrow>
                           (case send_message J E (handle_message (bot_has_db b1) chat_id txt) b1 of
                              None \<Rightarrow> (b1, False)
                            | Some b2 \<Rightarrow> (b2, True))))"

text \<open>An exception leaves the loop and is caught around it, so the rest of the batch is dropped.\<close>

fun take_batch :: "'j json_api \<Rightarrow> telegram_env \<Rightarrow> 'j list \<Rightarrow> TelegramBot \<Rightarrow> TelegramBot" where
  "take_batch J E [] b = b"
| "take_batch J E (u # us) b =
     (case take_update J E u b of (b1, ok) \<Rightarrow> if ok then take_batch J E us b1 else b1)"

definition take_response :: "'j json_api \<Rightarrow> telegram_env \<Rightarrow> string \<Rightarrow> TelegramBot \<Rightarrow> TelegramBot" where
  "take_response J E body b =
     (case json_parse J body of
        None \<Rightarrow> b
      | Some j \<Rightarrow>
          (case Option.bind (json_index J j ''ok'') (json_bool J) of
             None \<Rightarrow> b
           | Some ok \<Rightarrow>
               if \<not> ok then b
               else case json_index J j ''result'' of
                      None \<Rightarrow> b
                    | Some r \<Rightarrow> if json_is_array J r then take_batch J E (json_elements J r) b else b))"

text \<open>One round of the polling loop.\<close>

definition poll_round :: "'j json_api \<Rightarrow> telegram_env \<Rightarrow> TelegramBot \<Rightarrow> TelegramBot" where
  "poll_round J E b =
     (let url = poll_url (bot_token b) (last_update_id b + 1);
          b1 = b\<lparr>bot_requests := bot_requests b + 1\<rparr>
      in case curl_get E (bot_requests b) url of
           CurlError \<Rightarrow> b1
         | CurlOk chunks \<Rightarrow> take_response J E (read_buffer chunks) b1)"

text \<open>One step of the thread: the initialisation of \<open>curl\<close>, the test of the loop, a round.\<close>

definition poll_updates :: "'j json_api \<Rightarrow> telegram_env \<Rightarrow> TelegramBot \<Rightarrow> TelegramBot" where
  "poll_updates J E b =
     (case poll_thread b of
        NoThread \<Rightarrow> b
      | Starting \<Rightarrow> b\<lparr>poll_thread := if curl_available E then AtLoop else Finished\<rparr>
      | AtLoop \<Rightarrow> b\<lparr>poll_thread := if bot_running b then InBody else Finished\<rparr>
      | InBody \<Rightarrow> (poll_round J E b)\<lparr>poll_thread := AtLoop\<rparr>
      | Finished \<Rightarrow> b)"

section \<open>Start and stop\<close>

definition bot_start :: "TelegramBot \<Rightarrow> TelegramBot option" where
  "bot_start b =
     (if bot_running b then Some b
      else let b1 = b\<lparr>bot_running := True\<rparr>
           in if joinable (poll_thread b1) then None else Some (b1\<lparr>poll_thread := Starting\<rparr>))"

definition bot_stop :: "'j json_api \<Rightarrow> telegram_env \<Rightarrow> TelegramBot \<Rightarrow> TelegramBot option" where
  "bot_stop J E b =
     (let b1 = b\<lparr>bot_running := False\<rparr>
      in if joinable (poll_thread b1)
         then map_option (\<lambda>t. t\<lparr>poll_thread := NoThread\<rparr>) (join_thread poll_thread (poll_updates J E) b1)
         else Some b1)"

definition TelegramBot_destroy :: "'j json_api \<Rightarrow> telegram_env \<Rightarrow> TelegramBot \<Rightarrow> TelegramBot option" where
  "TelegramBot_destroy J E b = bot_stop J E b"

end
