(* ===== verification/Telegram_Poll_Props.thy ===== *)
theory Telegram_Poll_Props
  imports Telegram_Poll
begin

text \<open>
  The Telegram bot and the HTTP server as background services, and the polling loop against the documented behaviour of
  the Bot API: every update is handled once, in order, whatever requests fail.
\<close>

section \<open>The thread of the bot\<close>

lemma take_update_keeps [simp]:
  "bot_running (fst (take_update J E u b)) = bot_running b" "poll_thread (fst (take_update J E u b)) = poll_thread b"
  "bot_token (fst (take_update J E u b)) = bot_token b" "bot_has_db (fst (take_update J E u b)) = bot_has_db b"
  "bot_requests (fst (take_update J E u b)) = bot_requests b"
  by (auto simp: take_update_def send_message_def Let_def split: option.splits if_splits)

lemma take_batch_Cons:
  "take_batch J E (u # us) b =
     (if snd (take_update J E u b) then take_batch J E us (fst (take_update J E u b)) else fst (take_update J E u b))"
  by (simp split: prod.splits)

declare take_batch.simps(2) [simp del]

lemma take_batch_keeps [simp]:
  "bot_running (take_batch J E us b) = bot_running b" "poll_thread (take_batch J E us b) = poll_thread b"
  "bot_token (take_batch J E us b) = bot_token b" "bot_has_db (take_batch J E us b) = bot_has_db b"
  "bot_requests (take_batch J E us b) = bot_requests b"
  by (induction us arbitrary: b) (simp_all add: take_batch_Cons)

lemma poll_round_keeps [simp]:
  "bot_running (poll_round J E b) = bot_running b" "poll_thread (poll_round J E b) = poll_thread b"
  "bot_token (poll_round J E b) = bot_token b" "bot_has_db (poll_round J E b) = bot_has_db b"
  "bot_requests (poll_round J E b) = bot_requests b + 1"
  by (simp_all add: poll_round_def take_response_def Let_def split: curl_result.splits option.splits)

interpretation poll_loop: looping_thread bot_running poll_thread "poll_updates J E"
  by unfold_locales (auto simp: poll_updates_def split: thread_state.splits)

interpretation bot: background_service bot_running poll_thread "poll_updates J E" bot_start "bot_stop J E"
proof unfold_locales
  fix b :: TelegramBot
  assume "bot_running b" "joinable (poll_thread b)"
  then show "\<exists>t. bot_stop J E b = Some t \<and> \<not> bot_running t \<and> \<not> joinable (poll_thread t)"
    using poll_loop.join_returns [of "b\<lparr>bot_running := False\<rparr>" J E] by (auto simp: bot_stop_def joinable_def)
qed (auto simp: bot_start_def bot_stop_def joinable_def)

section \<open>Updates as the Bot API documents them\<close>

text \<open>An update: its identifier and, for an update that is a message, the chat and the text.\<close>

type_synonym tg_update = "int \<times> (int \<times> string) option"

definition update_doc :: "'j json_api \<Rightarrow> 'j \<Rightarrow> tg_update \<Rightarrow> bool" where
  "update_doc J j u \<longleftrightarrow> update_id_of J j = Some (fst u) \<and> (json_contains J j ''message'' \<longleftrightarrow> snd u \<noteq> None) \<and>
     (case snd u of None \<Rightarrow> True | Some (c, t) \<Rightarrow> chat_id_of J j = Some c \<and> text_of J j = Some t)"

definition response_doc :: "'j json_api \<Rightarrow> string \<Rightarrow> tg_update list \<Rightarrow> bool" where
  "response_doc J body us \<longleftrightarrow>
     (\<exists>j r. json_parse J body = Some j \<and> Option.bind (json_index J j ''ok'') (json_bool J) = Some True \<and>
        json_index J j ''result'' = Some r \<and> json_is_array J r \<and> list_all2 (update_doc J) (json_elements J r) us)"

text \<open>
  The n-th request of \<open>getUpdates\<close> either fails or returns the first \<open>k\<close> of the updates from the requested offset on.
\<close>

definition serves :: "'j json_api \<Rightarrow> telegram_env \<Rightarrow> string \<Rightarrow> tg_update list \<Rightarrow> (nat \<Rightarrow> nat option) \<Rightarrow> bool" where
  "serves J E tok U ns \<longleftrightarrow>
     (\<forall>n off. case ns n of
        None \<Rightarrow> curl_get E n (poll_url tok off) = CurlError
      | Some k \<Rightarrow> (\<exists>chunks. curl_get E n (poll_url tok off) = CurlOk chunks \<and>
                     response_doc J (concat chunks) (take k (filter (\<lambda>u. off \<le> fst u) U))))"

text \<open>The request with which the bot answers an update; none when the update is no message, or its reply has no encoding.\<close>

definition reply_requests :: "'j json_api \<Rightarrow> telegram_env \<Rightarrow> string \<Rightarrow> bool \<Rightarrow> tg_update \<Rightarrow> (string \<times> string) list" where
  "reply_requests J E tok has_db u =
     (case snd u of
        None \<Rightarrow> []
      | Some (c, t) \<Rightarrow>
          if curl_available E
          then (case json_dump_message J (fst (handle_message has_db c t)) (snd (handle_message has_db c t)) of
                  None \<Rightarrow> [] | Some d \<Rightarrow> [(send_url tok, d)])
          else [])"

section \<open>One response\<close>

lemma read_buffer_concat: "read_buffer chunks = concat chunks"
proof -
  have "foldl (\<lambda>buf chunk. fst (WriteCallback chunk buf)) xs chunks = xs @ concat chunks" for xs
    by (induction chunks arbitrary: xs) (simp_all add: WriteCallback_def)
  then show ?thesis by (simp add: read_buffer_def)
qed

lemma take_update_doc:
  assumes "update_doc J j u"
  shows "fst (take_update J E j b) = b\<lparr>last_update_id := fst u,
    bot_outbox := bot_outbox b @ reply_requests J E (bot_token b) (bot_has_db b) u\<rparr>"
  using assms
  by (cases "snd u")
     (auto simp: take_update_def update_doc_def reply_requests_def send_message_def split: option.splits)

definition settle :: "'j json_api \<Rightarrow> telegram_env \<Rightarrow> tg_update list \<Rightarrow> TelegramBot \<Rightarrow> TelegramBot" where
  "settle J E us b = b\<lparr>last_update_id := (if us = [] then last_update_id b else fst (last us)),
     bot_outbox := bot_outbox b @ concat (map (reply_requests J E (bot_token b) (bot_has_db b)) us)\<rparr>"

text \<open>A batch is handled up to its end or up to the first update whose handling throws, that one included.\<close>

lemma take_batch_doc:
  assumes "list_all2 (update_doc J) js us"
  shows "\<exists>k. k \<le> length us \<and> (us \<noteq> [] \<longrightarrow> 0 < k) \<and> take_batch J E js b = settle J E (take k us) b"
  using assms
proof (induction js us arbitrary: b rule: list_all2_induct)
  case Nil
  then show ?case by (simp add: settle_def)
next
  case (Cons j js u us)
  let ?b = "fst (take_update J E j b)"
  note b = take_update_doc [OF Cons(1), of E b]
  show ?case
  proof (cases "snd (take_update J E j b)")
    case True
    obtain k where k: "k \<le> length us" "us \<noteq> [] \<longrightarrow> 0 < k" "take_batch J E js ?b = settle J E (take k us) ?b"
      using Cons.IH [of ?b] by blast
    have "take_batch J E (j # js) b = settle J E (take (Suc k) (u # us)) b"
      using True k(3) b by (auto simp: take_batch_Cons settle_def)
    with k(1) show ?thesis by (intro exI [of _ "Suc k"]) simp
  next
    case False
    then have "take_batch J E (j # js) b = settle J E (take 1 (u # us)) b"
      using b by (auto simp: take_batch_Cons settle_def)
    then show ?thesis by (intro exI [of _ 1]) simp
  qed
qed

section \<open>Rounds\<close>

text \<open>The bot when it has handled the first \<open>k\<close> updates.\<close>

definition handled :: "'j json_api \<Rightarrow> telegram_env \<Rightarrow> string \<Rightarrow> bool \<Rightarrow> tg_update list \<Rightarrow> nat \<Rightarrow> TelegramBot \<Rightarrow> bool" where
  "handled J E tok has_db U k b \<longleftrightarrow> k \<le> length U \<and> bot_token b = tok \<and> bot_has_db b = has_db \<and>
     last_update_id b = (if k = 0 then 0 else fst (U ! (k - 1))) \<and>
     bot_outbox b = concat (map (reply_requests J E tok has_db) (take k U))"

definition update_log :: "tg_update list \<Rightarrow> bool" where
  "update_log U \<longleftrightarrow> sorted_wrt (<) (map fst U) \<and> list_all (\<lambda>u. 0 < fst u) U"

lemma pending_updates:
  assumes "update_log U" and "k \<le> length U"
  shows "filter (\<lambda>u. (if k = 0 then 0 else fst (U ! (k - 1))) + 1 \<le> fst u) U = drop k U"
proof -
  let ?id = "if k = 0 then 0 else fst (U ! (k - 1))"
  have mono: "i < j \<Longrightarrow> j < length U \<Longrightarrow> fst (U ! i) < fst (U ! j)" for i j
    using assms(1) by (auto simp: update_log_def sorted_wrt_iff_nth_less)
  have low: "fst u \<le> ?id" if u: "u \<in> set (take k U)" for u
  proof -
    obtain i where i: "i < k" "u = U ! i" using u assms(2) by (auto simp: in_set_conv_nth)
    then have "i = k - 1 \<or> i < k - 1 \<and> k - 1 < length U" using assms(2) by auto
    then show ?thesis using mono [of i "k - 1"] i by auto
  qed
  have high: "?id + 1 \<le> fst u" if u: "u \<in> set (drop k U)" for u
  proof -
    obtain i where i: "i < length (drop k U)" "u = drop k U ! i" using u by (auto simp: in_set_conv_nth)
    then have "u = U ! (k + i)" "k + i < length U" using assms(2) by auto
    moreover have "0 < fst (U ! (k + i))"
      using \<open>k + i < length U\<close> assms(1) by (simp add: update_log_def list_all_length)
    ultimately show ?thesis using mono [of "k - 1" "k + i"] by (cases k) auto
  qed
  have "filter (\<lambda>u. ?id + 1 \<le> fst u) (take k U) = []"
    using low by (fastforce simp: filter_empty_conv)
  moreover have "filter (\<lambda>u. ?id + 1 \<le> fst u) (drop k U) = drop k U"
    using high by (simp only: filter_id_conv) blast
  ultimately show ?thesis
    using filter_append [of "\<lambda>u. ?id + 1 \<le> fst u" "take k U" "drop k U"] by (simp only: append_take_drop_id append_Nil)
qed

lemma settle_handled:
  assumes "handled J E tok has_db U k b" and "l \<le> length (take n (drop k U))"
  shows "handled J E tok has_db U (k + l) (settle J E (take l (take n (drop k U))) b)"
proof -
  have kl: "k + l \<le> length U" "l \<le> n" using assms by (auto simp: handled_def)
  have seg: "take l (take n (drop k U)) = take l (drop k U)" using kl(2) by (simp add: min_def)
  have "fst (last (take l (drop k U))) = fst (U ! (k + l - 1))" if "l \<noteq> 0"
    using kl that by (subst last_conv_nth) auto
  moreover have "take (k + l) U = take k U @ take l (drop k U)" by (simp add: take_add)
  ultimately show ?thesis
    using assms(1) kl unfolding seg by (cases "l = 0") (auto simp: handled_def settle_def)
qed

lemma serves_at:
  "serves J E tok U ns \<Longrightarrow>
     (case ns n of
        None \<Rightarrow> curl_get E n (poll_url tok off) = CurlError
      | Some k \<Rightarrow> (\<exists>chunks. curl_get E n (poll_url tok off) = CurlOk chunks \<and>
                     response_doc J (concat chunks) (take k (filter (\<lambda>u. off \<le> fst u) U))))"
  by (simp add: serves_def)

lemma poll_round_handled:
  assumes log: "update_log U" and srv: "serves J E tok U ns" and b: "handled J E tok has_db U k b"
  shows "\<exists>k'. k \<le> k' \<and> handled J E tok has_db U k' (poll_round J E b) \<and>
    (ns (bot_requests b) \<noteq> None \<and> ns (bot_requests b) \<noteq> Some 0 \<longrightarrow> k' = length U \<or> k < k')"
proof (cases "ns (bot_requests b)")
  case None
  then have "curl_get E (bot_requests b) (poll_url (bot_token b) (last_update_id b + 1)) = CurlError"
    using serves_at [OF srv, of "bot_requests b" "last_update_id b + 1"] b by (simp add: handled_def)
  then show ?thesis using None b by (intro exI [of _ k]) (simp add: poll_round_def handled_def)
next
  case (Some n)
  let ?b = "b\<lparr>bot_requests := bot_requests b + 1\<rparr>"
  have pend: "filter (\<lambda>u. last_update_id b + 1 \<le> fst u) U = drop k U"
    using pending_updates [OF log, of k] b by (simp add: handled_def)
  obtain chunks where c: "curl_get E (bot_requests b) (poll_url (bot_token b) (last_update_id b + 1)) = CurlOk chunks"
    "response_doc J (concat chunks) (take n (drop k U))"
    using serves_at [OF srv, of "bot_requests b" "last_update_id b + 1"] b Some by (auto simp: handled_def pend)
  then obtain js where js: "list_all2 (update_doc J) js (take n (drop k U))"
    "poll_round J E b = take_batch J E js ?b"
    by (auto simp: response_doc_def poll_round_def take_response_def read_buffer_concat)
  obtain l where l: "l \<le> length (take n (drop k U))" "take n (drop k U) \<noteq> [] \<longrightarrow> 0 < l"
    "take_batch J E js ?b = settle J E (take l (take n (drop k U))) ?b"
    using take_batch_doc [OF js(1), of E ?b] by blast
  have "handled J E tok has_db U k ?b" using b by (simp add: handled_def)
  from settle_handled [OF this l(1)] have h: "handled J E tok has_db U (k + l) (poll_round J E b)"
    using js(2) l(3) by simp
  have "k + l = length U \<or> k < k + l" if "n \<noteq> 0"
    using that l(1,2) b by (auto simp: handled_def)
  then show ?thesis using h Some by (intro exI [of _ "k + l"]) auto
qed

lemma rounds_handled:
  assumes "update_log U" and "serves J E tok U ns"
  shows "\<exists>k. handled J E tok has_db U k ((poll_round J E ^^ m) (TelegramBot_new tok has_db)) \<and>
    min (length (filter (\<lambda>n. ns n \<noteq> None \<and> ns n \<noteq> Some 0) [0..<m])) (length U) \<le> k \<and>
    bot_requests ((poll_round J E ^^ m) (TelegramBot_new tok has_db)) = m"
proof (induction m)
  case 0
  show ?case by (rule exI [of _ 0]) (simp add: handled_def TelegramBot_new_def)
next
  case (Suc m)
  let ?b = "(poll_round J E ^^ m) (TelegramBot_new tok has_db)"
  obtain k where k: "handled J E tok has_db U k ?b" "bot_requests ?b = m"
    "min (length (filter (\<lambda>n. ns n \<noteq> None \<and> ns n \<noteq> Some 0) [0..<m])) (length U) \<le> k"
    using Suc.IH by blast
  obtain k' where k': "k \<le> k'" "handled J E tok has_db U k' (poll_round J E ?b)"
    "ns m \<noteq> None \<and> ns m \<noteq> Some 0 \<longrightarrow> k' = length U \<or> k < k'"
    using poll_round_handled [OF assms k(1)] k(2) by auto
  have "min (length (filter (\<lambda>n. ns n \<noteq> None \<and> ns n \<noteq> Some 0) [0..<Suc m])) (length U) \<le> k'"
    using k(3) k'(1,3) by auto
  then show ?case using k'(2) k(2) by (intro exI [of _ k']) simp
qed

section \<open>Properties\<close>

text \<open>C12. The bot handles every update once and in order. The Bot API serves a log of updates with increasing positive
  identifiers: each request either fails or returns an initial part of the updates from the requested offset on. After
  any number of rounds, whatever requests failed, the bot has handled exactly an initial part of the log: its POST
  requests are the replies to those updates, one for each message, in their order, with none repeated and none left out
  (a message whose reply has no JSON encoding gets none), and it has the identifier of the last of them as
  \<open>last_update_id_\<close>. Every round that is answered by a non-empty response handles at least one more update, until the log
  is exhausted.\<close>

theorem telegram_updates_once:
  assumes "update_log U" and "serves J E tok U ns"
  shows "\<exists>k \<le> length U.
    bot_outbox ((poll_round J E ^^ m) (TelegramBot_new tok has_db)) =
      concat (map (reply_requests J E tok has_db) (take k U)) \<and>
    last_update_id ((poll_round J E ^^ m) (TelegramBot_new tok has_db)) = (if k = 0 then 0 else fst (U ! (k - 1))) \<and>
    min (length (filter (\<lambda>n. ns n \<noteq> None \<and> ns n \<noteq> Some 0) [0..<m])) (length U) \<le> k"
  using rounds_handled [OF assms, of has_db m] unfolding handled_def by blast


section \<open>Witnesses\<close>

text \<open>Documents small enough to evaluate: values, arrays and objects.\<close>

datatype doc = DNull | DBool bool | DInt int | DStr string | DArr "doc list" | DObj "(string \<times> doc) list"

fun doc_index :: "doc \<Rightarrow> string \<Rightarrow> doc option" where
  "doc_index (DObj fs) k = (case map_of fs k of None \<Rightarrow> Some DNull | Some v \<Rightarrow> Some v)"
| "doc_index _ k = None"

fun doc_contains :: "doc \<Rightarrow> string \<Rightarrow> bool" where
  "doc_contains (DObj fs) k = (map_of fs k \<noteq> None)"
| "doc_contains _ k = False"

definition doc_message :: "int \<Rightarrow> int \<Rightarrow> string \<Rightarrow> doc" where
  "doc_message i c t = DObj [(''update_id'', DInt i),
     (''message'', DObj [(''chat'', DObj [(''id'', DInt c)]), (''text'', DStr t)])]"

definition doc_response :: "doc list \<Rightarrow> doc" where
  "doc_response us = DObj [(''ok'', DBool True), (''result'', DArr us)]"

text \<open>Response bodies name the documents they stand for.\<close>

definition doc_api :: "doc json_api" where
  "doc_api = \<lparr>
     json_parse = (\<lambda>s. if s = ''both'' then Some (doc_response [doc_message 5 1 ''/start'', doc_message 7 2 ''x''])
        else if s = ''second'' then Some (doc_response [doc_message 7 2 ''x''])
        else if s = ''none'' then Some (doc_response []) else None),
     json_index = doc_index, json_contains = doc_contains,
     json_is_array = (\<lambda>d. case d of DArr us \<Rightarrow> True | _ \<Rightarrow> False),
     json_elements = (\<lambda>d. case d of DArr us \<Rightarrow> us | _ \<Rightarrow> []),
     json_bool = (\<lambda>d. case d of DBool b \<Rightarrow> Some b | _ \<Rightarrow> None),
     json_int = (\<lambda>d. case d of DInt i \<Rightarrow> Some i | _ \<Rightarrow> None),
     json_str = (\<lambda>d. case d of DStr t \<Rightarrow> Some t | _ \<Rightarrow> None),
     json_value = (\<lambda>d k v. case doc_index d k of Some (DStr t) \<Rightarrow> Some t | Some DNull \<Rightarrow> Some v | _ \<Rightarrow> None),
     json_null = DNull, json_single = (\<lambda>k v. DObj [(k, DStr v)]),
     json_dump_message = (\<lambda>c t. Some t)\<rparr>"

definition two_updates :: "tg_update list" where
  "two_updates = [(5, Some (1, ''/start'')), (7, Some (2, ''x''))]"

text \<open>A Bot API that reads the offset of the URL; its first request fails, every later one returns up to two updates.\<close>

definition parse_offset :: "string \<Rightarrow> int" where
  "parse_offset s = (case s of [] \<Rightarrow> 0 | c # cs \<Rightarrow> if c = CHR ''-'' then - int (read_digits 0 cs) else int (read_digits 0 s))"

definition two_env :: telegram_env where
  "two_env = \<lparr>curl_available = True,
     curl_get = (\<lambda>n url. if n = 0 then CurlError
       else let off = parse_offset (drop 59 url)
            in if off \<le> 5 then CurlOk [''bo'', ''th''] else if off \<le> 7 then CurlOk [''second''] else CurlOk [''none''])\<rparr>"

lemma parse_offset_url: "parse_offset (drop 59 (poll_url ''t'' off)) = off"
proof (cases "off < 0")
  case True
  then show ?thesis by (simp add: poll_url_def int_to_string_def parse_offset_def read_digits_to_string)
next
  case False
  obtain c cs where c: "to_string (nat off) = c # cs" by (cases "to_string (nat off)") simp_all
  then have "digit_val c \<noteq> None" using to_string_digits [of c "nat off"] by simp
  with False show ?thesis
    using digit_not_special [of c] read_digits_to_string [of "nat off"]
    by (simp add: poll_url_def int_to_string_def parse_offset_def c)
qed

lemmas doc_simps = response_doc_def doc_api_def doc_response_def doc_message_def update_doc_def update_id_of_def
  chat_id_of_def text_of_def two_updates_def

definition two_answers :: "nat \<Rightarrow> nat option" where
  "two_answers n = (if n = 0 then None else Some 2)"

lemma two_env_serves: "serves doc_api two_env ''t'' two_updates two_answers"
  unfolding serves_def by (auto simp: two_answers_def two_env_def parse_offset_url Let_def doc_simps)

lemma two_updates_log: "update_log two_updates"
  by (simp add: update_log_def two_updates_def)

theorem telegram_updates_once_witness:
  "\<exists>k \<le> length two_updates.
    bot_outbox ((poll_round doc_api two_env ^^ 3) (TelegramBot_new ''t'' True)) =
      concat (map (reply_requests doc_api two_env ''t'' True) (take k two_updates)) \<and>
    last_update_id ((poll_round doc_api two_env ^^ 3) (TelegramBot_new ''t'' True)) =
      (if k = 0 then 0 else fst (two_updates ! (k - 1))) \<and> 2 \<le> k"
proof -
  have "min (length (filter (\<lambda>n. two_answers n \<noteq> None \<and> two_answers n \<noteq> Some 0) [0..<3])) (length two_updates) = 2"
    by (simp add: upt_rec two_updates_def two_answers_def)
  with telegram_updates_once [OF two_updates_log two_env_serves, of 3 True] show ?thesis by (simp only:)
qed

end
