(* ===== verification/Public_Headers.thy ===== *)
theory Public_Headers
  imports Storage_Types
begin

text \<open>
  The code of the public headers (\<open>include/datyredb/\<close>) and of the common types (\<open>src/common/type.hpp\<close>): token classes,
  syntax trees, the types of the network protocol, connections, sessions, the thread pool's queue, HTTP and Telegram
  records, values and query results. Names that the library's own sources use too carry a prefix.
\<close>

section \<open>Tokens (\<open>sql/token.h\<close>)\<close>

datatype HTokenType =
    H_SELECT | H_FROM | H_WHERE | H_INSERT | H_INTO | H_VALUES | H_UPDATE | H_SET | H_DELETE | H_CREATE | H_TABLE | H_DROP
  | H_INDEX | H_AND | H_OR | H_NOT
  | H_EQUAL | H_NOT_EQUAL | H_LESS | H_LESS_EQUAL | H_GREATER | H_GREATER_EQUAL | H_PLUS | H_MINUS | H_STAR | H_SLASH
  | H_LEFT_PAREN | H_RIGHT_PAREN | H_COMMA | H_SEMICOLON | H_DOT
  | H_IDENTIFIER | H_INTEGER_LITERAL | H_STRING_LITERAL
  | H_END_OF_FILE | H_INVALID

definition token_types :: "HTokenType list" where
  "token_types =
    [H_SELECT, H_FROM, H_WHERE, H_INSERT, H_INTO, H_VALUES, H_UPDATE, H_SET, H_DELETE, H_CREATE, H_TABLE, H_DROP,
     H_INDEX, H_AND, H_OR, H_NOT,
     H_EQUAL, H_NOT_EQUAL, H_LESS, H_LESS_EQUAL, H_GREATER, H_GREATER_EQUAL, H_PLUS, H_MINUS, H_STAR, H_SLASH,
     H_LEFT_PAREN, H_RIGHT_PAREN, H_COMMA, H_SEMICOLON, H_DOT,
     H_IDENTIFIER, H_INTEGER_LITERAL, H_STRING_LITERAL,
     H_END_OF_FILE, H_INVALID]"

text \<open>The value of an enumerator is its position.\<close>

definition token_ordinal :: "HTokenType \<Rightarrow> nat" where
  "token_ordinal t = length (takeWhile (\<lambda>u. u \<noteq> t) token_types)"

lemma token_ordinal_nth: "token_types ! token_ordinal t = t"
  by (cases t) (simp_all add: token_ordinal_def token_types_def)

lemma token_ordinal_inj: "token_ordinal s = token_ordinal t \<Longrightarrow> s = t"
  using token_ordinal_nth by metis

instantiation HTokenType :: linorder
begin

definition less_eq_HTokenType :: "HTokenType \<Rightarrow> HTokenType \<Rightarrow> bool" where
  "s \<le> t \<longleftrightarrow> token_ordinal s \<le> token_ordinal t"

definition less_HTokenType :: "HTokenType \<Rightarrow> HTokenType \<Rightarrow> bool" where
  "s < t \<longleftrightarrow> token_ordinal s < token_ordinal t"

instance
  by standard (auto simp: less_eq_HTokenType_def less_HTokenType_def intro: token_ordinal_inj)

end

record HToken =
  h_type :: HTokenType
  h_lexeme :: string
  h_value :: "int + string"
  h_line :: nat
  h_column :: nat

definition HToken_new :: "HTokenType \<Rightarrow> string \<Rightarrow> nat \<Rightarrow> nat \<Rightarrow> HToken" where
  "HToken_new t chars l c = \<lparr>h_type = t, h_lexeme = chars, h_value = Inl 0, h_line = l, h_column = c\<rparr>"

definition is_keyword :: "HToken \<Rightarrow> bool" where
  "is_keyword tok \<longleftrightarrow> h_type tok \<ge> H_SELECT \<and> h_type tok \<le> H_NOT"

definition is_operator :: "HToken \<Rightarrow> bool" where
  "is_operator tok \<longleftrightarrow> h_type tok \<ge> H_EQUAL \<and> h_type tok \<le> H_SLASH"

text \<open>The two range tests select the sixteen words and the ten operators of the enumeration, and never the same token.\<close>

lemma keyword_iff: "is_keyword tok \<longleftrightarrow> h_type tok \<in> set (take 16 token_types)"
  by (cases "h_type tok") (simp_all add: is_keyword_def less_eq_HTokenType_def token_ordinal_def token_types_def)

lemma operator_iff: "is_operator tok \<longleftrightarrow> h_type tok \<in> set (take 10 (drop 16 token_types))"
  by (cases "h_type tok") (simp_all add: is_operator_def less_eq_HTokenType_def token_ordinal_def token_types_def)

lemma keyword_not_operator: "\<not> (is_keyword tok \<and> is_operator tok)"
  by (auto simp: is_keyword_def is_operator_def less_eq_HTokenType_def token_ordinal_def token_types_def)

section \<open>Syntax trees (\<open>sql/ast.h\<close>)\<close>

datatype ExpressionType = LITERAL | IDENTIFIER_EXPR | BINARY_OP | UNARY_OP
datatype LiteralType = INTEGER_VALUE | STRING_VALUE | NULL_VALUE
datatype BinaryOperator = OP_EQUAL | OP_NOT_EQUAL | OP_LESS | OP_LESS_EQUAL | OP_GREATER | OP_GREATER_EQUAL | OP_AND | OP_OR
  | OP_PLUS | OP_MINUS | OP_MULTIPLY | OP_DIVIDE

datatype Expression =
    LiteralExpression LiteralType "64 word" string
  | IdentifierExpression string
  | BinaryExpression BinaryOperator Expression Expression

definition LiteralExpression_int :: "64 word \<Rightarrow> Expression" where
  "LiteralExpression_int v = LiteralExpression INTEGER_VALUE v []"

definition LiteralExpression_string :: "string \<Rightarrow> Expression" where
  "LiteralExpression_string v = LiteralExpression STRING_VALUE 0 v"

fun expression_type :: "Expression \<Rightarrow> ExpressionType" where
  "expression_type (LiteralExpression t i s) = LITERAL"
| "expression_type (IdentifierExpression n) = IDENTIFIER_EXPR"
| "expression_type (BinaryExpression op l r) = BINARY_OP"

record ColumnDefinition =
  col_name :: string
  col_type :: string
  is_primary_key :: bool

datatype HStatementType = ST_SELECT | ST_INSERT | ST_UPDATE | ST_DELETE | ST_CREATE_TABLE | ST_DROP_TABLE

text \<open>The fields of each class in their order; an empty \<open>unique_ptr\<close> is \<open>None\<close>.\<close>

datatype HStatement =
    SelectStatement "Expression list" string "Expression option"
  | InsertStatement string "string list" "Expression list"
  | UpdateStatement string "(string \<times> Expression) list" "Expression option"
  | DeleteStatement string "Expression option"
  | CreateTableStatement string "ColumnDefinition list"

fun h_statement_type :: "HStatement \<Rightarrow> HStatementType" where
  "h_statement_type (SelectStatement cs t w) = ST_SELECT"
| "h_statement_type (InsertStatement t cs vs) = ST_INSERT"
| "h_statement_type (UpdateStatement t as w) = ST_UPDATE"
| "h_statement_type (DeleteStatement t w) = ST_DELETE"
| "h_statement_type (CreateTableStatement t cs) = ST_CREATE_TABLE"

text \<open>Of the announced node types three have no node: a drop statement, a unary expression, a null literal.\<close>

lemma node_types_without_node:
  "h_statement_type s \<noteq> ST_DROP_TABLE" "expression_type e \<noteq> UNARY_OP"
  "LiteralExpression_int v \<noteq> LiteralExpression NULL_VALUE i t" "LiteralExpression_string w \<noteq> LiteralExpression NULL_VALUE i t"
  by (cases s; simp) (cases e; simp add: LiteralExpression_int_def LiteralExpression_string_def)+

section \<open>Network protocol (\<open>network/types.h\<close>)\<close>

record NetServerConfig =
  bind_address :: string
  net_tcp_port :: u16
  enable_http :: bool
  net_http_port :: u16
  enable_websocket :: bool
  websocket_port :: u16
  enable_telegram :: bool
  telegram_bot_token :: string
  telegram_webhook_url :: string
  telegram_admin_ids :: "int list"
  enable_ssl :: bool
  ssl_cert_path :: string
  ssl_key_path :: string
  net_max_connections :: u64
  max_connections_per_ip :: u64
  connection_timeout :: nat
  idle_timeout :: nat
  worker_threads :: u64
  io_threads :: u64
  read_buffer_size :: u64
  write_buffer_size :: u64

definition NetServerConfig_default :: NetServerConfig where
  "NetServerConfig_default =
     \<lparr>bind_address = ''0.0.0.0'', net_tcp_port = 5432, enable_http = True, net_http_port = 8080, enable_websocket = True,
      websocket_port = 8081, enable_telegram = False, telegram_bot_token = [], telegram_webhook_url = [],
      telegram_admin_ids = [], enable_ssl = False, ssl_cert_path = [], ssl_key_path = [], net_max_connections = 1000,
      max_connections_per_ip = 100, connection_timeout = 300, idle_timeout = 60, worker_threads = 4, io_threads = 2,
      read_buffer_size = 65536, write_buffer_size = 65536\<rparr>"

datatype MessageType =
    AUTH_REQUEST | AUTH_RESPONSE | AUTH_OK | AUTH_FAILED
  | QUERY | QUERY_RESULT | ROW_DATA | COMMAND_COMPLETE
  | MSG_ERROR | MSG_WARNING | MSG_NOTICE
  | MSG_PING | MSG_PONG | TERMINATE | MSG_READY
  | BEGIN_TXN | COMMIT_TXN | ROLLBACK_TXN | TXN_STATUS

fun message_code :: "MessageType \<Rightarrow> u8" where
  "message_code AUTH_REQUEST = 0x01"
| "message_code AUTH_RESPONSE = 0x02"
| "message_code AUTH_OK = 0x03"
| "message_code AUTH_FAILED = 0x04"
| "message_code QUERY = 0x10"
| "message_code QUERY_RESULT = 0x11"
| "message_code ROW_DATA = 0x12"
| "message_code COMMAND_COMPLETE = 0x13"
| "message_code MSG_ERROR = 0x20"
| "message_code MSG_WARNING = 0x21"
| "message_code MSG_NOTICE = 0x22"
| "message_code MSG_PING = 0x30"
| "message_code MSG_PONG = 0x31"
| "message_code TERMINATE = 0x32"
| "message_code MSG_READY = 0x33"
| "message_code BEGIN_TXN = 0x40"
| "message_code COMMIT_TXN = 0x41"
| "message_code ROLLBACK_TXN = 0x42"
| "message_code TXN_STATUS = 0x43"

definition message_types :: "MessageType list" where
  "message_types = [AUTH_REQUEST, AUTH_RESPONSE, AUTH_OK, AUTH_FAILED, QUERY, QUERY_RESULT, ROW_DATA, COMMAND_COMPLETE,
     MSG_ERROR, MSG_WARNING, MSG_NOTICE, MSG_PING, MSG_PONG, TERMINATE, MSG_READY, BEGIN_TXN, COMMIT_TXN, ROLLBACK_TXN,
     TXN_STATUS]"

text \<open>No two messages share a code byte, so the byte determines the message.\<close>

lemma message_code_decodes: "find (\<lambda>u. message_code u = message_code t) message_types = Some t"
  by (cases t) (simp_all add: message_types_def)

lemma message_code_inj: "message_code s = message_code t \<Longrightarrow> s = t"
  by (metis message_code_decodes option.inject)

datatype ConnectionState = CONNECTING | AUTHENTICATING | CONN_READY | EXECUTING | CLOSING | CLOSED

datatype ErrorCode = ERR_OK | UNKNOWN_ERROR | CONNECTION_REFUSED | ERR_AUTH_FAILED | QUERY_ERROR | TIMEOUT | PROTOCOL_ERROR
  | INTERNAL_ERROR | ERR_NOT_FOUND | PERMISSION_DENIED

definition error_codes :: "ErrorCode list" where
  "error_codes = [ERR_OK, UNKNOWN_ERROR, CONNECTION_REFUSED, ERR_AUTH_FAILED, QUERY_ERROR, TIMEOUT, PROTOCOL_ERROR,
     INTERNAL_ERROR, ERR_NOT_FOUND, PERMISSION_DENIED]"

definition error_number :: "ErrorCode \<Rightarrow> u32" where
  "error_number e = of_nat (length (takeWhile (\<lambda>c. c \<noteq> e) error_codes))"

record NetQueryResult =
  nqr_success :: bool
  nqr_error_code :: ErrorCode
  nqr_error_message :: string
  nqr_column_names :: "string list"
  nqr_rows :: "string list list"
  nqr_rows_affected :: u64
  nqr_execution_time :: int

definition NetQueryResult_default :: NetQueryResult where
  "NetQueryResult_default = \<lparr>nqr_success = False, nqr_error_code = ERR_OK, nqr_error_message = [], nqr_column_names = [],
     nqr_rows = [], nqr_rows_affected = 0, nqr_execution_time = 0\<rparr>"

section \<open>Connections (\<open>network/connection.h\<close>)\<close>

text \<open>A connection together with the descriptors it has passed to \<open>::close\<close>; times are readings of the steady clock.\<close>

record Connection =
  conn_id :: u64
  conn_fd :: int
  client_ip :: string
  conn_last_activity :: nat
  closed_fds :: "int list"

definition Connection_new :: "nat \<Rightarrow> u64 \<Rightarrow> int \<Rightarrow> string \<Rightarrow> Connection" where
  "Connection_new now i fd ip = \<lparr>conn_id = i, conn_fd = fd, client_ip = ip, conn_last_activity = now, closed_fds = []\<rparr>"

definition conn_update_activity :: "nat \<Rightarrow> Connection \<Rightarrow> Connection" where
  "conn_update_activity now c = c\<lparr>conn_last_activity := now\<rparr>"

definition conn_close :: "Connection \<Rightarrow> Connection" where
  "conn_close c = (if conn_fd c \<ge> 0 then c\<lparr>closed_fds := closed_fds c @ [conn_fd c], conn_fd := -1\<rparr> else c)"

definition conn_is_closed :: "Connection \<Rightarrow> bool" where
  "conn_is_closed c \<longleftrightarrow> conn_fd c < 0"

definition Connection_destroy :: "Connection \<Rightarrow> Connection" where
  "Connection_destroy c = conn_close c"

datatype conn_op = CloseConn | TouchConn nat

fun conn_apply :: "conn_op \<Rightarrow> Connection \<Rightarrow> Connection" where
  "conn_apply CloseConn c = conn_close c"
| "conn_apply (TouchConn now) c = conn_update_activity now c"

text \<open>However often it is closed, a connection closes its descriptor once, at the latest when it is destroyed.\<close>

lemma conn_apply_closes:
  "closed_fds c = [] \<and> conn_fd c = fd \<or> closed_fds c = [fd] \<and> conn_fd c = -1 \<Longrightarrow> 0 \<le> fd \<Longrightarrow>
   closed_fds (fold conn_apply ops c) = [] \<and> conn_fd (fold conn_apply ops c) = fd \<or>
   closed_fds (fold conn_apply ops c) = [fd] \<and> conn_fd (fold conn_apply ops c) = -1"
proof (induction ops arbitrary: c)
  case (Cons op ops)
  have "closed_fds (conn_apply op c) = [] \<and> conn_fd (conn_apply op c) = fd \<or>
        closed_fds (conn_apply op c) = [fd] \<and> conn_fd (conn_apply op c) = -1"
    using Cons.prems by (cases op) (auto simp: conn_close_def conn_update_activity_def)
  from Cons.IH [OF this Cons.prems(2)] show ?case by simp
qed simp

lemma connection_closed_once:
  assumes "0 \<le> fd"
  shows "closed_fds (Connection_destroy (fold conn_apply ops (Connection_new now i fd ip))) = [fd]"
    and "conn_is_closed (Connection_destroy (fold conn_apply ops (Connection_new now i fd ip)))"
  using conn_apply_closes [of "Connection_new now i fd ip" fd ops] assms
  by (auto simp: Connection_new_def Connection_destroy_def conn_close_def conn_is_closed_def)

section \<open>Sessions (\<open>network/session.h\<close>)\<close>

record SessionInfo =
  info_session_id :: u64
  info_connection_id :: u64
  info_username :: string
  info_client_ip :: string
  info_created_at :: nat
  info_last_activity :: nat
  info_authenticated :: bool

definition NetSession_new :: "nat \<Rightarrow> u64 \<Rightarrow> SessionInfo" where
  "NetSession_new now i = \<lparr>info_session_id = i, info_connection_id = 0, info_username = [], info_client_ip = [],
     info_created_at = now, info_last_activity = now, info_authenticated = False\<rparr>"

definition set_username :: "string \<Rightarrow> SessionInfo \<Rightarrow> SessionInfo" where
  "set_username u s = s\<lparr>info_username := u\<rparr>"

definition set_authenticated :: "bool \<Rightarrow> SessionInfo \<Rightarrow> SessionInfo" where
  "set_authenticated a s = s\<lparr>info_authenticated := a\<rparr>"

definition session_update_activity :: "nat \<Rightarrow> SessionInfo \<Rightarrow> SessionInfo" where
  "session_update_activity now s = s\<lparr>info_last_activity := now\<rparr>"

section \<open>Thread pool (\<open>network/thread_pool.h\<close>)\<close>

record 'task ThreadPool =
  pool_tasks :: "'task list"
  pool_stop :: bool
  pool_notified :: nat

text \<open>A stopped pool refuses the task; otherwise it is queued and one worker is notified.\<close>

definition pool_enqueue :: "'task \<Rightarrow> 'task ThreadPool \<Rightarrow> string + 'task ThreadPool" where
  "pool_enqueue f p =
     (if pool_stop p then Inl ''enqueue on stopped ThreadPool''
      else Inr (p\<lparr>pool_tasks := pool_tasks p @ [f], pool_notified := pool_notified p + 1\<rparr>))"

fun enqueue_all :: "'task list \<Rightarrow> 'task ThreadPool \<Rightarrow> string + 'task ThreadPool" where
  "enqueue_all [] p = Inr p"
| "enqueue_all (f # fs) p = (case pool_enqueue f p of Inl e \<Rightarrow> Inl e | Inr q \<Rightarrow> enqueue_all fs q)"

lemma enqueue_in_order:
  "\<not> pool_stop p \<Longrightarrow> enqueue_all fs p = Inr (p\<lparr>pool_tasks := pool_tasks p @ fs, pool_notified := pool_notified p + length fs\<rparr>)"
  by (induction fs arbitrary: p) (simp_all add: pool_enqueue_def)

section \<open>HTTP (\<open>network/http_server.h\<close>)\<close>

datatype HttpMethod = HTTP_GET | HTTP_POST | HTTP_PUT | HTTP_DELETE | HTTP_PATCH | HTTP_OPTIONS

record HttpRequest =
  req_method :: HttpMethod
  req_path :: string
  req_query_string :: string
  req_headers :: "(string \<times> string) list"
  req_params :: "(string \<times> string) list"
  req_body :: string
  req_client_ip :: string

record HttpResponse =
  resp_status_code :: int
  resp_headers :: "(string \<times> string) list"
  resp_body :: string

definition HttpResponse_new :: HttpResponse where
  "HttpResponse_new =
     (let r = \<lparr>resp_status_code = 200, resp_headers = [], resp_body = []\<rparr>;
          r1 = r\<lparr>resp_headers := AList.update ''Content-Type'' ''application/json'' (resp_headers r)\<rparr>
      in r1\<lparr>resp_headers := AList.update ''Access-Control-Allow-Origin'' ''*'' (resp_headers r1)\<rparr>)"

section \<open>Telegram (\<open>network/telegram_bot.h\<close>)\<close>

record TelegramUser =
  tu_id :: int
  tu_username :: string
  tu_first_name :: string
  tu_last_name :: string
  tu_is_admin :: bool

record TelegramMessage =
  tm_message_id :: int
  tm_chat_id :: int
  tm_from :: TelegramUser
  tm_text :: string
  tm_timestamp :: nat

record TelegramConfig =
  tc_bot_token :: string
  tc_webhook_url :: string
  tc_use_webhook :: bool
  tc_admin_user_ids :: "int list"
  tc_polling_interval_ms :: u64

definition TelegramConfig_default :: TelegramConfig where
  "TelegramConfig_default = \<lparr>tc_bot_token = [], tc_webhook_url = [], tc_use_webhook = False, tc_admin_user_ids = [],
     tc_polling_interval_ms = 1000\<rparr>"

section \<open>Common types (\<open>src/common/type.hpp\<close>)\<close>

text \<open>Floating-point fields are kept as their bit patterns.\<close>

datatype Value = VNull | VBool bool | VInt32 "32 word" | VInt64 "64 word" | VDouble "64 word" | VString string

record CommonStatistics =
  stat_table_count :: u64
  stat_total_records :: u64
  stat_total_size :: u64
  stat_index_count :: u64
  stat_uptime_seconds :: int

record TableStatistics =
  ts_record_count :: u64
  ts_size_bytes :: u64

record DetailedStatistics = CommonStatistics +
  ds_version :: string
  ds_memory_used :: u64
  ds_memory_total :: u64
  ds_disk_used :: u64
  ds_disk_total :: u64
  ds_cpu_usage :: u32
  ds_queries_per_second :: int
  ds_avg_query_time :: u32
  ds_active_connections :: int
  ds_cache_hit_ratio :: u32

definition DetailedStatistics_default :: DetailedStatistics where
  "DetailedStatistics_default = \<lparr>stat_table_count = 0, stat_total_records = 0, stat_total_size = 0, stat_index_count = 0,
     stat_uptime_seconds = 0, ds_version = ''1.0.0'', ds_memory_used = 0, ds_memory_total = 0, ds_disk_used = 0,
     ds_disk_total = 0, ds_cpu_usage = 0, ds_queries_per_second = 0, ds_avg_query_time = 0, ds_active_connections = 0,
     ds_cache_hit_ratio = 0\<rparr>"

record CommonQueryResult =
  cqr_columns :: "string list"
  cqr_data :: "string list list"
  cqr_affected_rows :: int

definition CommonQueryResult_new :: CommonQueryResult where
  "CommonQueryResult_new = \<lparr>cqr_columns = [], cqr_data = [], cqr_affected_rows = 0\<rparr>"

definition has_data :: "CommonQueryResult \<Rightarrow> bool" where
  "has_data r \<longleftrightarrow> cqr_data r \<noteq> []"

definition set_columns :: "string list \<Rightarrow> CommonQueryResult \<Rightarrow> CommonQueryResult" where
  "set_columns cols r = r\<lparr>cqr_columns := cols\<rparr>"

definition add_row :: "string list \<Rightarrow> CommonQueryResult \<Rightarrow> CommonQueryResult" where
  "add_row row r = r\<lparr>cqr_data := cqr_data r @ [row]\<rparr>"

definition set_affected_rows :: "int \<Rightarrow> CommonQueryResult \<Rightarrow> CommonQueryResult" where
  "set_affected_rows n r = r\<lparr>cqr_affected_rows := n\<rparr>"

lemma rows_added: "cqr_data (fold add_row rows r) = cqr_data r @ rows"
  by (induction rows arbitrary: r) (simp_all add: add_row_def)

lemma has_data_iff: "has_data (fold add_row rows CommonQueryResult_new) \<longleftrightarrow> rows \<noteq> []"
  by (simp add: has_data_def rows_added CommonQueryResult_new_def)

section \<open>Storage configuration (\<open>src/storage/storage_types.hpp\<close>)\<close>

record StorageConfig =
  sc_data_path :: string
  sc_buffer_pool_pages :: u64
  sc_wal_segment_size :: u64
  sc_checkpoint :: CheckpointConfig

definition StorageConfig_default :: StorageConfig where
  "StorageConfig_default = \<lparr>sc_data_path = ''./data'', sc_buffer_pool_pages = 10000, sc_wal_segment_size = 64 * 1024 * 1024,
     sc_checkpoint = default_checkpoint_config\<rparr>"

end
