(* ===== verification/Logger.thy ===== *)
theory Logger
  imports Datyre_Prelude
begin

text \<open>
  The logger (\<open>src/utils/logger.cpp\<close>, \<open>logger.hpp\<close>): its initialisation and the calls that go through it. \<open>spdlog\<close>'s
  loggers and sinks are kept by what the code sets of them, their levels; a message reaches a sink when its level is
  at least the one of the logger and the one of the sink.
\<close>

section \<open>Levels\<close>

datatype LogLevel = TRACE | DEBUG | INFO | WARN | ERROR | CRITICAL

fun level_number :: "LogLevel \<Rightarrow> nat" where
  "level_number TRACE = 0"
| "level_number DEBUG = 1"
| "level_number INFO = 2"
| "level_number WARN = 3"
| "level_number ERROR = 4"
| "level_number CRITICAL = 5"

instantiation LogLevel :: linorder
begin

definition less_eq_LogLevel :: "LogLevel \<Rightarrow> LogLevel \<Rightarrow> bool" where
  "k \<le> l \<longleftrightarrow> level_number k \<le> level_number l"

definition less_LogLevel :: "LogLevel \<Rightarrow> LogLevel \<Rightarrow> bool" where
  "k < l \<longleftrightarrow> level_number k < level_number l"

instance
proof
  fix k l :: LogLevel
  show "k \<le> l \<Longrightarrow> l \<le> k \<Longrightarrow> k = l" by (cases k; cases l) (simp_all add: less_eq_LogLevel_def)
qed (auto simp: less_eq_LogLevel_def less_LogLevel_def)

end

section \<open>State and operations\<close>

datatype sink = Console LogLevel | LogFile string LogLevel

fun sink_level :: "sink \<Rightarrow> LogLevel" where
  "sink_level (Console l) = l"
| "sink_level (LogFile f l) = l"

record spdlog_logger =
  log_level :: LogLevel
  log_sinks :: "sink list"
  flush_level :: "LogLevel option"

text \<open>
  \<open>init\<close>, given whether the log file can be opened; when it cannot, the sink throws and the logger is a console logger
  with \<open>spdlog\<close>'s default level.
\<close>

definition Logger_init :: "(string \<Rightarrow> bool) \<Rightarrow> string \<Rightarrow> LogLevel \<Rightarrow> spdlog_logger" where
  "Logger_init opens log_file level =
     (if log_file \<noteq> [] \<and> \<not> opens log_file
      then \<lparr>log_level = INFO, log_sinks = [Console TRACE], flush_level = None\<rparr>
      else \<lparr>log_level = level, log_sinks = Console level # (if log_file \<noteq> [] then [LogFile log_file TRACE] else []),
            flush_level = Some WARN\<rparr>)"

text \<open>A call of \<open>trace\<close> to \<open>critical\<close>: nothing before \<open>init\<close>, then the sinks that the message reaches.\<close>

definition Logger_log :: "LogLevel \<Rightarrow> spdlog_logger option \<Rightarrow> sink list" where
  "Logger_log l logger =
     (case logger of
        None \<Rightarrow> []
      | Some g \<Rightarrow> if log_level g \<le> l then filter (\<lambda>s. sink_level s \<le> l) (log_sinks g) else [])"

text \<open>The level given to \<open>init\<close> bounds the log file as well, although its sink asks for every level.\<close>

lemma file_gets_what_console_gets:
  assumes "log_file \<noteq> []" and "opens log_file"
  shows "Logger_log l (Some (Logger_init opens log_file level)) =
    (if level \<le> l then [Console level, LogFile log_file TRACE] else [])"
  using assms by (cases l) (simp_all add: Logger_log_def Logger_init_def less_eq_LogLevel_def)

end
