(* ===== verification/Spec2Isabelle.thy ===== *)
theory Spec2Isabelle
  imports Concurrent_Checkpoint_Props Pressure_Wait Engine_Lifecycle Sql_Props Text_Engine_Props Page_Props
    Server_Sessions Telegram_Poll_Props Public_Headers Logger
begin

text \<open>
  Verification of DatyreDB, a small database server in C++.

  \<^bold>\<open>The program.\<close> The storage layer (\<open>src/storage/\<close>) has pages with a CRC32 checksum, a disk manager that keeps them in
  one data file, a buffer pool with clock replacement over it, a write-ahead log in segment files, and a checkpoint
  manager that flushes the pool, logs the checkpoint and truncates the log. The storage engine
  (\<open>src/core/storage_engine.cpp\<close>) owns these subsystems and the tables, which it keeps in memory. The SQL front end
  (\<open>src/sql/\<close>) scans, parses and prints three kinds of statements. A second engine (\<open>src/core/engine.hpp\<close>) executes
  commands on text and replays them from a journal. Around them are status and result types, a database object, a
  dispatcher, the session of a TCP client, the TCP and HTTP servers and a Telegram bot (\<open>src/core/\<close>, \<open>src/network/\<close>).
  The program (\<open>src/main.cpp\<close>) runs the TCP server in a thread of its own until a signal stops it.

  \<^bold>\<open>Theories.\<close>
  \<^item> \<open>Datyre_Prelude\<close>: machine integers as words, byte strings and \<open>memcpy\<close>, little-endian fields; the locales
    \<open>fixed_codec\<close> and \<open>bij_codec\<close> of stored fields, interpreted at four widths, and \<open>transition_invariant\<close>, through which
    every component lifts its step lemmas to runs.
  \<^item> \<open>File_Stream\<close>: what the code uses of \<open>std::fstream\<close>, with an outcome for every call of the operating system.
    \<open>Float32\<close>: single precision rounding, for the dirty ratio. \<open>Decimal\<close>: \<open>to_string\<close> and \<open>stoull\<close>.
  \<^item> \<open>Storage_Types\<close>, \<open>Crc32\<close>, \<open>Page\<close>, \<open>Page_Props\<close>, \<open>Disk_Manager\<close>, \<open>Disk_Props\<close>: \<open>storage_types.hpp\<close>, \<open>page.cpp\<close>, \<open>disk_manager.cpp\<close>. The
    locale \<open>page_store\<close> is what the pool relies on. Checksums detect a changed byte, writes are read back and touch no
    other page, errors of the stream are permanent, and every run of page operations keeps a page a page.
  \<^item> \<open>Buffer_Pool\<close>, \<open>Buffer_Pool_Inv\<close>, \<open>Buffer_Pool_Runs\<close>, \<open>Buffer_Pool_Props\<close>: \<open>buffer_pool.cpp\<close>; the invariant, its
    preservation by each operation, runs of operations and client stores, the termination of the clock, and what
    clients see: their writes, pinned pages, fresh pages.
  \<^item> \<open>Wal\<close>, \<open>Wal_Refinement\<close>, \<open>Wal_Props\<close>: \<open>wal.cpp\<close>; the log implements a list of records with consecutive numbers
    (locale \<open>sequential_log\<close>), across rotation and truncation.
  \<^item> \<open>Checkpoint\<close>, \<open>Checkpoint_Props\<close>: \<open>checkpoint.cpp\<close>; the flush loop, complete and interrupted checkpoints, the
    triggers, runs of the manager with its clients.
  \<^item> \<open>Crash_Recovery\<close>, \<open>Pool_Persistence\<close> and this theory: the predicates \<open>durable\<close> (a page is in the flushed bytes of
    the data file) and \<open>on_disk\<close> (it is in the file, flushed or not), which operation keeps which, and a crash after a
    checkpoint, from the client's store to the next start.
  \<^item> \<open>Concurrent_Checkpoint\<close>, \<open>Concurrent_Checkpoint_Props\<close>: \<open>do_checkpoint\<close> as a thread, one step per call it makes on
    the pool or the log, any number of such threads interleaved with clients of the pool and of the log. A thread alone
    refines the sequential \<open>do_checkpoint\<close>; interleaved and not interrupted, it makes durable the content that a
    page had when it was called and that nobody has changed since, and it ends after a bounded number of its own steps.
  \<^item> \<open>Pressure_Wait\<close>: \<open>check_pressure\<close> and the thread that releases its waiters, as steps on the flag and the condition
    variable, with the schedule in which the wake-up is lost.
  \<^item> \<open>Engine_Lifecycle\<close>: the orderly shutdown of the storage engine, its destructors and accessors, and the restart that
    finds the pages.
  \<^item> \<open>Storage_Engine\<close>, \<open>Table_Store\<close>, \<open>Storage_Engine_Props\<close>: \<open>storage_engine.cpp\<close>; the locale \<open>table_store\<close> is the
    contract of the tables, \<open>se_step\<close> the runs of the engine with its background thread.
  \<^item> \<open>Sql_Lexer\<close>, \<open>Sql_Parser\<close>, \<open>Sql_Props\<close>: \<open>lexer.cpp\<close>, \<open>parser.cpp\<close>, \<open>ast.cpp\<close>; a reference scanner on strings, the
    locale \<open>token_source\<close> of what the parser relies on, the grammar that the parser accepts, printing and parsing.
  \<^item> \<open>Text_Engine\<close>, \<open>Text_Engine_Props\<close>: \<open>engine.hpp\<close>; recovery from the journal.
  \<^item> \<open>Front_End\<close>, \<open>Front_End_Props\<close>: \<open>status.hpp\<close>, \<open>query_result.cpp\<close>, \<open>table.cpp\<close>, \<open>database.cpp\<close>, \<open>dispatcher.cpp\<close>,
    \<open>session.cpp\<close> and the texts of \<open>telegram_bot.cpp\<close>; the order of what a session sends, the text of results.
  \<^item> \<open>Net_Server\<close>, \<open>Net_Server_Props\<close>, \<open>Server_Sessions\<close>: \<open>server.cpp\<close> and \<open>main.cpp\<close> as two threads that share two flags
    and the event loop. A run is a schedule of events: one step of a thread, a signal, a completed accept, read or
    write. Shown are the order of a shutdown, when it completes (a bound on the steps, and that one is always possible)
    and when it does not, the port, and what each client is sent.
  \<^item> \<open>Background_Services\<close>: the locales \<open>looping_thread\<close> and \<open>background_service\<close> of components that start, stop and join a
    thread; \<open>http_server.cpp\<close> is the first provider, the bot the second.
  \<^item> \<open>Json_Api\<close>, \<open>Telegram_Poll\<close>, \<open>Telegram_Poll_Props\<close>: the JSON interface, \<open>create_command.cpp\<close>, and the thread, the
    polling loop and the sending of \<open>telegram_bot.cpp\<close>; every update is handled once and in order.
  \<^item> \<open>Public_Headers\<close>, \<open>Logger\<close>: what \<open>include/datyredb/\<close> and \<open>common/type.hpp\<close> define, and \<open>logger.cpp\<close>.

  \<^bold>\<open>How the state corresponds.\<close> Classes are records with the fields of the class, an operation is a function on the
  record of its object that returns the result and the new record, and \<open>None\<close>, \<open>False\<close> or a left summand where the code
  returns a null pointer, \<open>false\<close> or throws. Shared pointers become nesting: the manager contains the pool and the log,
  the pool contains the disk manager and the shared metrics. Identifiers, log sequence numbers, sizes of files and
  counters keep their width; lengths of strings and vectors in memory are natural numbers. A mutex makes its operation
  one step; a hash table is an association list, and no theorem depends on its order. Values from outside are arguments:
  the clock, the flag that another thread may clear during a flush, the outcomes of I/O, the outcome of an asynchronous
  call. Logging has no effect in the model.

  \<^bold>\<open>Loops.\<close> There is no fuel. The clock makes its two passes over the frames by structural recursion, the flush loop is
  \<open>while_option\<close>, with a theorem on when it returns, and the loops of the scanner, of the parser and on strings are
  recursive functions with termination proofs by the input that is left. The loops of threads run as long as their owner
  lets them: they are step functions, a join is \<open>while_option\<close> over the steps, and that it returns is proved.

  \<^bold>\<open>Bounds.\<close> The theorems on a reopened data file assume fewer than \<open>2 ^ 44\<close> bytes, which is one block for every page
  identifier; pools have fewer than \<open>2 ^ 64\<close> frames; records of the log have fewer than \<open>2 ^ 32\<close> bytes of data.

  \<^bold>\<open>Libraries.\<close> Boost.Asio's event loop, \<open>libcurl\<close> with the Bot API behind it, and \<open>nlohmann::json\<close> are parameters: records
  of the functions the code calls. The theorems name what they need of them as hypotheses (\<open>event_loop_laws\<close>: a new loop
  runs and a stopped one is stopped; \<open>serves\<close>: a request for updates fails or returns the next ones), and their witnesses
  instantiate them. The class \<open>Table\<close> that \<open>engine.hpp\<close> uses is in no file: it is a parameter, with the named assumption
  \<open>insert_safe\<close>.

  \<^bold>\<open>Not modelled.\<close> \<open>query_executor.cpp\<close> repeats its header and defines nothing; most functions that the headers under
  \<open>include/\<close> declare are defined nowhere, and \<open>include/datyredb/status.h\<close> does not compile. The example program and the
  benchmarks call an interface that the engine does not have. The banner and the set-up of the console in \<open>main.cpp\<close> only
  print. An operation that holds the latch of the pool or the mutex of the log is one step, as the lock makes it;
  \<open>do_checkpoint\<close>, which takes these locks once per call, and \<open>check_pressure\<close> are interleaved at every call, and
  \<open>main.cpp\<close> and the server at every access to their shared flags. Accesses that the code does not synchronise, which are
  data races in C++, have no model: a client's store into a page while the page is written, and increments of
  \<open>cache_hits_\<close> under a shared lock. Reading a missing key of a constant JSON document is undefined in the library and left to
  the parameter. Of the farewell of a session only its start and completion appear, since the code writes it from a
  buffer that no longer exists.
\<close>

section \<open>Properties that span components\<close>

text \<open>C1. Durability, from a client's store to the next start: bytes that a client stores into a fetched page and
  unpins as dirty, followed by any run of other pool operations and by a complete checkpoint, are in the flushed data
  file: after a crash that leaves exactly the flushed bytes, a disk manager that opens the file and a new pool of any
  positive size return them from the payload of the page.\<close>

theorem written_bytes_survive_crash:
  assumes "bp_inv bp" and "fetch_page pid bp = (Some i, bp1)"
    and "PageHeader_SIZE + off + length bs \<le> PAGE_SIZE"
    and "unpin_page pid True (client_write i off bs bp1) = (True, bp2)"
    and "reach (bp_step_leaving pid) bp2 (cm_pool cm)"
    and "disk_reliable (disk_manager (cm_pool cm))" and "(\<forall>i. run i) \<or> t = Shutdown"
    and "get_dirty_pages (cm_pool cm) \<noteq> []" and "0 < checkpoint_batch_size (cm_config cm)"
    and "length (file_bytes (disk_manager (cm_pool cm))) < 2 ^ 44"
    and "0 < n" and "n < 2 ^ 64"
  shows "\<exists>cm' dm j bp'. do_checkpoint t run t0 t1 t2 cm = Some cm' \<and>
    disk_initialize (DiskManager_new (Some (fs_flushed (data_file (disk_manager (cm_pool cm'))))) (\<lambda>_. IoOk)) = (True, dm) \<and>
    fetch_page pid (BufferPool_new n dm (initial_metrics now)) = (Some j, bp') \<and>
    read_at off (length bs) (payload (page_at bp' j)) = bs"
proof -
  note w = client_write_view [OF assms(1-5)]
  obtain cm' where c: "do_checkpoint t run t0 t1 t2 cm = Some cm'" using do_checkpoint_returns assms(9) by blast
  note f = checkpoint_flushed [OF w(1) assms(6-8) c w(2)]
  have len: "length (file_bytes (disk_manager (cm_pool cm'))) < 2 ^ 44"
    using do_checkpoint_length [OF w(1) assms(8) c] assms(10) by simp
  obtain dm j bp' where "disk_initialize (DiskManager_new (Some (fs_flushed (data_file (disk_manager (cm_pool cm'))))) (\<lambda>_. IoOk)) = (True, dm)"
    "fetch_page pid (BufferPool_new n dm (initial_metrics now)) = (Some j, bp')"
    "page_body (page_data (page_at bp' j)) = page_body (write_at (PageHeader_SIZE + off) bs (page_data (page_at bp1 i)))"
    using crash_restart [OF f(1) [unfolded w(3)] f(2) len assms(11,12)] by blast
  then show ?thesis using payload_of_body c by blast
qed

theorem written_bytes_survive_crash_witness:
  "\<exists>cm' dm j bp'. do_checkpoint Manual (\<lambda>_. True) 0 1 2 demo_durable = Some cm' \<and>
    disk_initialize (DiskManager_new (Some (fs_flushed (data_file (disk_manager (cm_pool cm'))))) (\<lambda>_. IoOk)) = (True, dm) \<and>
    fetch_page 0 (BufferPool_new 1 dm (initial_metrics 0)) = (Some j, bp') \<and> read_at 0 1 (payload (page_at bp' j)) = [7]"
  using written_bytes_survive_crash [OF demo_dirty_inv demo_fetched_state(1) _ demo_written_state(1), of demo_durable
      "\<lambda>_. True" Manual 1 0 1 2 0] demo_durable_state
  by (simp add: reach_refl layout_defs PAGE_SIZE_def)

end
